(* ===== verification/Prelude.thy ===== *)
theory Prelude
  imports Main "HOL-Library.Word"
begin

unbundle bit_operations_syntax

text \<open>
  Shared vocabulary of the development: machine integers, the result type of code that may
  panic, indexing and arithmetic with Rust's run-time checks, and the alignment lemmas the
  memory components use. The kernel is built with cargo's dev profile, in which an
  arithmetic overflow panics; every addition of \<^verbatim>\<open>usize\<close> or \<^verbatim>\<open>u64\<close> values whose operands
  the code does not bound is a checked addition here.
\<close>

section \<open>Types\<close>

type_synonym u8 = "8 word"
type_synonym u16 = "16 word"
type_synonym u32 = "32 word"
type_synonym u64 = "64 word"

text \<open>A \<^verbatim>\<open>usize\<close> is a natural number; operations that could leave the 64-bit range are checked.\<close>

type_synonym usize = nat

abbreviation usize_limit :: nat where
  "usize_limit \<equiv> 2 ^ 64"

text \<open>How a call can fail to return: a Rust panic of some kind, or waiting forever for a lock.\<close>

datatype failure = IndexOutOfBounds | ArithmeticOverflow | ExpectFailed string | PanicMsg string | Deadlock | UndefinedBehaviour

type_synonym 'a result = "failure + 'a"

named_theorems exec_simps \<open>evaluation of results, indexing and locking\<close>
named_theorems frame_simps \<open>what an operation leaves alone\<close>

section \<open>Sequencing of calls that may fail\<close>

definition and_then :: "'a result \<Rightarrow> ('a \<Rightarrow> 'b result) \<Rightarrow> 'b result" where
  "and_then r f = (case r of Inl e \<Rightarrow> Inl e | Inr x \<Rightarrow> f x)"

lemma and_then_Inr [simp, exec_simps]: "and_then (Inr x) f = f x"
  by (simp add: and_then_def)

lemma and_then_Inl [simp, exec_simps]: "and_then (Inl e) f = Inl e"
  by (simp add: and_then_def)

lemma and_then_eq_Inr: "and_then r f = Inr y \<longleftrightarrow> (\<exists>x. r = Inr x \<and> f x = Inr y)"
  by (cases r) auto

lemma and_then_assoc: "and_then (and_then r f) g = and_then r (\<lambda>x. and_then (f x) g)"
  by (cases r) auto

section \<open>Checked indexing and arithmetic\<close>

definition get_at :: "'a list \<Rightarrow> usize \<Rightarrow> 'a result" where
  "get_at xs i = (if i < length xs then Inr (xs ! i) else Inl IndexOutOfBounds)"

definition modify_at :: "('a \<Rightarrow> 'a) \<Rightarrow> usize \<Rightarrow> 'a list \<Rightarrow> 'a list result" where
  "modify_at f i xs = (if i < length xs then Inr (xs[i := f (xs ! i)]) else Inl IndexOutOfBounds)"

lemma get_at_ok [simp, exec_simps]: "i < length xs \<Longrightarrow> get_at xs i = Inr (xs ! i)"
  by (simp add: get_at_def)

lemma modify_at_ok [simp, exec_simps]: "i < length xs \<Longrightarrow> modify_at f i xs = Inr (xs[i := f (xs ! i)])"
  by (simp add: modify_at_def)

lemma get_at_out [simp, exec_simps]: "length xs \<le> i \<Longrightarrow> get_at xs i = Inl IndexOutOfBounds"
  by (simp add: get_at_def)

lemma modify_at_out [simp, exec_simps]: "length xs \<le> i \<Longrightarrow> modify_at f i xs = Inl IndexOutOfBounds"
  by (simp add: modify_at_def)

lemma nth_update_if [simp]: "x < length xs \<Longrightarrow> xs[p := m] ! x = (if x = p then m else xs ! x)"
  by (auto simp: nth_list_update)

definition checked_add :: "usize \<Rightarrow> usize \<Rightarrow> usize result" where
  "checked_add a b = (if a + b < usize_limit then Inr (a + b) else Inl ArithmeticOverflow)"

definition checked_mul :: "usize \<Rightarrow> usize \<Rightarrow> usize result" where
  "checked_mul a b = (if a * b < usize_limit then Inr (a * b) else Inl ArithmeticOverflow)"

definition checked_sub :: "usize \<Rightarrow> usize \<Rightarrow> usize result" where
  "checked_sub a b = (if b \<le> a then Inr (a - b) else Inl ArithmeticOverflow)"

lemma checked_add_ok [simp, exec_simps]: "a + b < usize_limit \<Longrightarrow> checked_add a b = Inr (a + b)"
  by (simp add: checked_add_def)

lemma checked_mul_ok [simp, exec_simps]: "a * b < usize_limit \<Longrightarrow> checked_mul a b = Inr (a * b)"
  by (simp add: checked_mul_def)

lemma checked_sub_ok [simp, exec_simps]: "b \<le> a \<Longrightarrow> checked_sub a b = Inr (a - b)"
  by (simp add: checked_sub_def)

text \<open>\<^verbatim>\<open>saturating_add\<close> and \<^verbatim>\<open>saturating_sub\<close> of \<^verbatim>\<open>u16\<close>.\<close>

definition saturating_add :: "u16 \<Rightarrow> u16 \<Rightarrow> u16" where
  "saturating_add a b = (if unat a + unat b < 2 ^ 16 then a + b else 0xffff)"

definition saturating_sub :: "u16 \<Rightarrow> u16 \<Rightarrow> u16" where
  "saturating_sub a b = (if unat b \<le> unat a then a - b else 0)"

lemma unat_saturating_add: "unat (saturating_add a b) = min (unat a + unat b) 65535"
  using unsigned_less [of a] unsigned_less [of b]
  by (auto simp: saturating_add_def unat_word_ariths min_def)

lemma unat_saturating_sub: "unat (saturating_sub a b) = unat a - unat b"
  by (auto simp: saturating_sub_def unat_sub word_le_nat_alt)

section \<open>Loops\<close>

text \<open>\<^verbatim>\<open>for i in xs { body }\<close> where the body may fail.\<close>

fun for_each :: "'i list \<Rightarrow> ('i \<Rightarrow> 's \<Rightarrow> 's result) \<Rightarrow> 's \<Rightarrow> 's result" where
  "for_each [] body s = Inr s"
| "for_each (i # is) body s = and_then (body i s) (\<lambda>s. for_each is body s)"

lemma for_each_append:
  "for_each (xs @ ys) body s = and_then (for_each xs body s) (\<lambda>s. for_each ys body s)"
  by (induction xs arbitrary: s) (auto simp: and_then_def split: sum.splits)

text \<open>A loop whose body keeps an invariant indexed by the elements done so far.\<close>

lemma for_each_invariant:
  assumes "P [] s"
    and "\<And>done x rest s. xs = done @ x # rest \<Longrightarrow> P done s \<Longrightarrow> \<exists>t. body x s = Inr t \<and> P (done @ [x]) t"
  shows "\<exists>t. for_each xs body s = Inr t \<and> P xs t"
proof -
  have "\<exists>t. for_each ys body s = Inr t \<and> P ys t" if "xs = ys @ zs" for ys zs
    using that
  proof (induction ys arbitrary: zs rule: rev_induct)
    case Nil
    then show ?case using assms(1) by simp
  next
    case (snoc x ys)
    then have eq: "xs = ys @ x # zs" by simp
    with snoc.IH obtain t where t: "for_each ys body s = Inr t" "P ys t" by blast
    from assms(2) [OF eq t(2)] t(1) show ?case
      by (auto simp: for_each_append)
  qed
  from this [of xs "[]"] show ?thesis by simp
qed

text \<open>A loop whose body works on a part of the state is a loop over that part.\<close>

lemma for_each_lift:
  assumes "\<And>x s. Q s \<Longrightarrow> body x s = and_then (F x (get s)) (\<lambda>v. Inr (put v s))"
    and "\<And>v s. Q s \<Longrightarrow> Q (put v s)" and "\<And>v s. get (put v s) = v"
    and "\<And>v w s. put v (put w s) = put v s" and "\<And>s. put (get s) s = s" and "Q s"
  shows "for_each xs body s = and_then (for_each xs F (get s)) (\<lambda>v. Inr (put v s))"
  using assms(6)
proof (induction xs arbitrary: s)
  case Nil
  then show ?case using assms(5) by simp
next
  case (Cons x xs)
  show ?case
  proof (cases "F x (get s)")
    case (Inl e)
    then show ?thesis using assms(1) Cons.prems by simp
  next
    case (Inr v)
    then have "for_each (x # xs) body s = for_each xs body (put v s)"
      using assms(1) Cons.prems by simp
    also have "\<dots> = and_then (for_each xs F v) (\<lambda>w. Inr (put w s))"
      using Cons.IH [OF assms(2) [OF Cons.prems]] by (simp add: assms(3,4))
    finally show ?thesis using Inr by simp
  qed
qed

text \<open>A call that may run for ever is \<open>None\<close>; one that returns is \<open>Some\<close> of its result.\<close>

type_synonym 'a run = "'a result option"

definition then_run :: "'a run \<Rightarrow> ('a \<Rightarrow> 'b run) \<Rightarrow> 'b run" where
  "then_run r f = (case r of None \<Rightarrow> None | Some (Inl e) \<Rightarrow> Some (Inl e) | Some (Inr x) \<Rightarrow> f x)"

lemma then_run_simps [simp, exec_simps]:
  "then_run None f = None" "then_run (Some (Inl e)) f = Some (Inl e)" "then_run (Some (Inr x)) f = f x"
  by (simp_all add: then_run_def)

section \<open>Masks on usize values\<close>

text \<open>\<^verbatim>\<open>x & !m\<close> on 64-bit values.\<close>

definition and_not :: "usize \<Rightarrow> usize \<Rightarrow> usize" where
  "and_not x m = unat ((of_nat x :: u64) AND NOT (of_nat m))"

text \<open>Clearing the low bits of a value rounds it down to a multiple of the power of two.\<close>

lemma word_and_not_mask:
  fixes w :: "'a::len word"
  assumes "k \<le> LENGTH('a)"
  shows "unat (w AND NOT (mask k)) = unat w div 2 ^ k * 2 ^ k"
proof -
  have "w AND NOT (mask k) = push_bit k (drop_bit k w)"
    by (rule bit_word_eqI) (auto simp: bit_simps)
  moreover have "unat (push_bit k (drop_bit k w)) = unat w div 2 ^ k * 2 ^ k"
  proof -
    have "unat w div 2 ^ k * 2 ^ k < 2 ^ LENGTH('a)"
      by (rule le_less_trans [OF _ unsigned_less [of w]]) simp
    moreover have "unat (push_bit k (drop_bit k w)) = take_bit LENGTH('a) (push_bit k (drop_bit k (unat w)))"
      using assms by (simp only: unsigned_push_bit_eq unsigned_drop_bit_eq) (simp add: take_bit_eq_mod)
    ultimately show ?thesis
      by (simp add: take_bit_eq_mod push_bit_eq_mult drop_bit_eq_div)
  qed
  ultimately show ?thesis by simp
qed

lemma and_not_mask_eq:
  assumes "x < usize_limit" and "k \<le> 64"
  shows "and_not x (2 ^ k - 1) = x div 2 ^ k * 2 ^ k"
proof -
  have m: "(of_nat (2 ^ k - 1) :: u64) = mask k"
    by (simp add: mask_eq_exp_minus_1)
  have "and_not x (2 ^ k - 1) = unat ((of_nat x :: u64) AND NOT (mask k))"
    unfolding and_not_def m ..
  also have "\<dots> = unat (of_nat x :: u64) div 2 ^ k * 2 ^ k"
    using assms(2) by (intro word_and_not_mask) simp
  also have "unat (of_nat x :: u64) = x"
    using assms(1) by (simp add: unat_of_nat)
  finally show ?thesis .
qed

lemma and_not_mask [simp]: "x < usize_limit \<Longrightarrow> k \<le> 64 \<Longrightarrow> and_not x (2 ^ k - Suc 0) = x div 2 ^ k * 2 ^ k"
  using and_not_mask_eq by simp

lemma round_down_bounds:
  fixes x n :: nat
  assumes "0 < n"
  shows "x div n * n \<le> x" and "x < x div n * n + n"
  using assms by simp_all (metis div_mult_mod_eq mod_less_divisor nat_add_left_cancel_less)

text \<open>Rounding up, \<^verbatim>\<open>(x + n - 1) & !(n - 1)\<close>: the least multiple of \<open>n\<close> that is at least \<open>x\<close>.\<close>

lemma round_up_bounds:
  fixes x n :: nat
  assumes "0 < n"
  shows "x \<le> (x + (n - 1)) div n * n" and "(x + (n - 1)) div n * n < x + n"
proof -
  have "x + (n - 1) < (x + (n - 1)) div n * n + n"
    using assms by (rule round_down_bounds)
  then show "x \<le> (x + (n - 1)) div n * n" using assms by linarith
  have "(x + (n - 1)) div n * n \<le> x + (n - 1)"
    using assms by (rule round_down_bounds)
  then show "(x + (n - 1)) div n * n < x + n" using assms by linarith
qed

end
