(* ===== verification/Mutex.thy ===== *)
theory Mutex
  imports Prelude
begin

unbundle bit_operations_syntax

text \<open>
  The interrupt-safe mutex of \<^verbatim>\<open>src/src/memory/mutex.rs\<close>.

  Two views. The first is sequential: one processor runs \<^verbatim>\<open>lock\<close>, \<^verbatim>\<open>try_lock\<close> and the guard's
  \<^verbatim>\<open>drop\<close> on its RFLAGS register and on a mutex. A processor that finds the lock word set
  spins with interrupts off; with nobody else to clear the word it never returns, which is
  the failure \<^const>\<open>Deadlock\<close>. The page allocator is built on this view. The second is a
  step relation for any number of processors, each with a stack of interrupted activities,
  in which the same operations are split into their atomic accesses.
\<close>

section \<open>The sequential operations\<close>

record 'a mutex =
  locked :: bool
  data :: 'a

record mutex_guard =
  interrupts_were_enabled :: bool

definition new_mutex :: "'a \<Rightarrow> 'a mutex" where
  "new_mutex v = \<lparr>locked = False, data = v\<rparr>"

text \<open>\<^verbatim>\<open>pushfq\<close> delivers RFLAGS; \<^verbatim>\<open>cli\<close> and \<^verbatim>\<open>sti\<close> clear and set its bit 9, the interrupt flag.\<close>

definition are_interrupts_enabled :: "u64 \<Rightarrow> bool" where
  "are_interrupts_enabled rflags \<longleftrightarrow> rflags AND push_bit 9 1 \<noteq> 0"

definition disable_interrupts :: "u64 \<Rightarrow> u64" where
  "disable_interrupts rflags = unset_bit 9 rflags"

definition enable_interrupts :: "u64 \<Rightarrow> u64" where
  "enable_interrupts rflags = set_bit 9 rflags"

definition lock :: "u64 \<Rightarrow> 'a mutex \<Rightarrow> (mutex_guard \<times> u64 \<times> 'a mutex) result" where
  "lock rflags m =
     (let interrupts_enabled = are_interrupts_enabled rflags;
          rflags = disable_interrupts rflags
      in if locked m then Inl Deadlock
         else Inr (\<lparr>interrupts_were_enabled = interrupts_enabled\<rparr>, rflags, m\<lparr>locked := True\<rparr>))"

definition try_lock :: "u64 \<Rightarrow> 'a mutex \<Rightarrow> mutex_guard option \<times> u64 \<times> 'a mutex" where
  "try_lock rflags m =
     (let interrupts_enabled = are_interrupts_enabled rflags;
          rflags = disable_interrupts rflags
      in if \<not> locked m
         then (Some \<lparr>interrupts_were_enabled = interrupts_enabled\<rparr>, rflags, m\<lparr>locked := True\<rparr>)
         else (None, if interrupts_enabled then enable_interrupts rflags else rflags, m))"

definition drop_guard :: "mutex_guard \<Rightarrow> u64 \<Rightarrow> 'a mutex \<Rightarrow> u64 \<times> 'a mutex" where
  "drop_guard g rflags m =
     (let m = m\<lparr>locked := False\<rparr>
      in (if interrupts_were_enabled g then enable_interrupts rflags else rflags, m))"

definition deref :: "'a mutex \<Rightarrow> 'a" where
  "deref m = data m"

definition deref_mut :: "('a \<Rightarrow> 'a) \<Rightarrow> 'a mutex \<Rightarrow> 'a mutex" where
  "deref_mut f m = m\<lparr>data := f (data m)\<rparr>"

lemma are_interrupts_enabled_iff: "are_interrupts_enabled fl \<longleftrightarrow> bit fl 9"
  by (simp only: are_interrupts_enabled_def push_bit_of_1 and_exp_eq_0_iff_not_bit) simp

lemma irq_after_disable [simp]: "\<not> are_interrupts_enabled (disable_interrupts fl)"
  by (simp add: are_interrupts_enabled_iff disable_interrupts_def bit_simps)

lemma irq_after_enable [simp]: "are_interrupts_enabled (enable_interrupts fl)"
  by (simp add: are_interrupts_enabled_iff enable_interrupts_def bit_simps)

lemma enable_disable [simp]:
  "are_interrupts_enabled fl \<Longrightarrow> enable_interrupts (disable_interrupts fl) = fl"
  unfolding are_interrupts_enabled_iff enable_interrupts_def disable_interrupts_def
  by (rule bit_word_eqI) (auto simp: bit_simps)

lemma disable_disable [simp]: "disable_interrupts (disable_interrupts fl) = disable_interrupts fl"
  unfolding disable_interrupts_def by (rule bit_word_eqI) (auto simp: bit_simps)

lemma disable_off [simp]: "\<not> are_interrupts_enabled fl \<Longrightarrow> disable_interrupts fl = fl"
  unfolding are_interrupts_enabled_iff disable_interrupts_def
  by (rule bit_word_eqI) (auto simp: bit_simps)

lemma mutex_relock [simp]: "\<not> locked m \<Longrightarrow> m\<lparr>locked := False\<rparr> = m"
  by (cases m) simp

section \<open>A mutex as one field of a larger state\<close>

text \<open>
  The allocator's state holds several mutexes beside the processor's flags. Locking a field is
  locking the mutex it holds with the state's flags.
\<close>

definition lock_in ::
  "('s \<Rightarrow> 'a mutex) \<Rightarrow> ('a mutex \<Rightarrow> 's \<Rightarrow> 's) \<Rightarrow> ('s \<Rightarrow> u64) \<Rightarrow> (u64 \<Rightarrow> 's \<Rightarrow> 's) \<Rightarrow>
   's \<Rightarrow> (mutex_guard \<times> 's) result" where
  "lock_in get put flags put_flags s =
     and_then (lock (flags s) (get s)) (\<lambda>(g, fl, m). Inr (g, put m (put_flags fl s)))"

definition drop_in ::
  "('s \<Rightarrow> 'a mutex) \<Rightarrow> ('a mutex \<Rightarrow> 's \<Rightarrow> 's) \<Rightarrow> ('s \<Rightarrow> u64) \<Rightarrow> (u64 \<Rightarrow> 's \<Rightarrow> 's) \<Rightarrow>
   mutex_guard \<Rightarrow> 's \<Rightarrow> 's" where
  "drop_in get put flags put_flags g s =
     (let (fl, m) = drop_guard g (flags s) (get s) in put m (put_flags fl s))"

text \<open>
  The contract of such a field: reading and writing the mutex and reading and writing the
  flags are independent (the laws of two disjoint lenses).
\<close>

locale mutex_field =
  fixes get :: "'s \<Rightarrow> 'a mutex" and put :: "'a mutex \<Rightarrow> 's \<Rightarrow> 's"
    and flags :: "'s \<Rightarrow> u64" and put_flags :: "u64 \<Rightarrow> 's \<Rightarrow> 's"
  assumes get_put: "get (put m s) = m"
    and put_put: "put m (put n s) = put m s"
    and put_get: "put (get s) s = s"
    and flags_put_flags: "flags (put_flags fl s) = fl"
    and put_flags_put_flags: "put_flags fl (put_flags fl' s) = put_flags fl s"
    and put_flags_flags: "put_flags (flags s) s = s"
    and flags_put: "flags (put m s) = flags s"
    and get_put_flags: "get (put_flags fl s) = get s"
    and put_put_flags: "put m (put_flags fl s) = put_flags fl (put m s)"
begin

lemmas lens_laws = get_put put_put put_get flags_put_flags put_flags_put_flags put_flags_flags
  flags_put get_put_flags put_put_flags

lemma put_flags_flags_put: "put_flags (flags s) (put m s) = put m s"
  using put_flags_flags [of "put m s"] by (simp add: flags_put)

lemma lock_in_free:
  assumes "\<not> locked (get s)"
  shows "lock_in get put flags put_flags s =
    Inr (\<lparr>interrupts_were_enabled = are_interrupts_enabled (flags s)\<rparr>,
         put ((get s)\<lparr>locked := True\<rparr>) (put_flags (disable_interrupts (flags s)) s))"
  using assms by (simp add: lock_in_def lock_def)

lemma lock_in_held: "locked (get s) \<Longrightarrow> lock_in get put flags put_flags s = Inl Deadlock"
  by (simp add: lock_in_def lock_def)

text \<open>Taking a free lock switches interrupts off; dropping the guard at once undoes both effects.\<close>

lemma lock_in_irq:
  "lock_in get put flags put_flags s = Inr (g, t) \<Longrightarrow>
     \<not> are_interrupts_enabled (flags t) \<and> locked (get t)"
  by (cases "locked (get s)") (auto simp: lock_in_free lock_in_held lens_laws put_flags_flags_put)

lemma drop_lock_in:
  assumes "lock_in get put flags put_flags s = Inr (g, t)"
  shows "drop_in get put flags put_flags g t = s"
proof (cases "locked (get s)")
  case True
  then show ?thesis using assms by (simp add: lock_in_held)
next
  case False
  then show ?thesis
    using assms False
    by (cases "are_interrupts_enabled (flags s)")
      (auto simp: lock_in_free drop_in_def drop_guard_def lens_laws put_flags_flags_put)
qed

text \<open>An update of the protected data between lock and drop is all that remains of the section.\<close>

lemma critical_section:
  assumes "lock_in get put flags put_flags s = Inr (g, t)"
  shows "drop_in get put flags put_flags g (put (deref_mut f (get t)) t) = put (deref_mut f (get s)) s"
proof (cases "locked (get s)")
  case True
  then show ?thesis using assms by (simp add: lock_in_held)
next
  case False
  then show ?thesis
    using assms False
    by (cases "are_interrupts_enabled (flags s)")
      (auto simp: lock_in_free drop_in_def drop_guard_def deref_mut_def lens_laws put_flags_flags_put)
qed

end

text \<open>The plain pair of a flags register and one mutex is such a field.\<close>

interpretation solo: mutex_field snd "\<lambda>m s. (fst s, m)" fst "\<lambda>fl s. (fl, snd s)"
  by unfold_locales auto

end
