(* ===== verification/Free_List.thy ===== *)
theory Free_List
  imports Prelude
begin

text \<open>
  The page metadata of \<^verbatim>\<open>src/src/memory/page_allocator.rs\<close> and the doubly linked free lists
  threaded through it. A list is a head (\<^verbatim>\<open>Option<usize>\<close>) and the \<^verbatim>\<open>next\<close>/\<^verbatim>\<open>prev\<close> fields of the
  entries of the page array. The source links and unlinks entries inline; the three link
  manipulations it uses are definitions here, and each indexing of the array may panic.
\<close>

section \<open>Metadata\<close>

datatype page_state = Unavailable | Free4KB | Free2MB | Allocated

record page_metadata =
  state :: page_state
  next_pg :: "usize option"
  prev_pg :: "usize option"
  counter :: u16

definition new_metadata :: page_metadata where
  "new_metadata = \<lparr>state = Unavailable, next_pg = None, prev_pg = None, counter = 0\<rparr>"

type_synonym page_slice = "page_metadata list"

section \<open>Link manipulations\<close>

text \<open>\<^verbatim>\<open>if let Some(p) = o { pages[p] = f(pages[p]) }\<close>\<close>

definition modify_opt :: "(page_metadata \<Rightarrow> page_metadata) \<Rightarrow> usize option \<Rightarrow> page_slice \<Rightarrow> page_slice result" where
  "modify_opt f q ps = (case q of None \<Rightarrow> Inr ps | Some p \<Rightarrow> modify_at f p ps)"

text \<open>
  Put entry \<open>p\<close> in front of the list with the given head: \<^verbatim>\<open>pages[p].next = head; pages[p].prev = None;
  if let Some(old) = head { pages[old].prev = Some(p) }; head = Some(p)\<close>.
\<close>

definition link_front :: "usize \<Rightarrow> usize option \<Rightarrow> page_slice \<Rightarrow> (page_slice \<times> usize option) result" where
  "link_front p head ps =
     and_then (modify_at (\<lambda>m. m\<lparr>next_pg := head\<rparr>) p ps) (\<lambda>ps.
     and_then (modify_at (\<lambda>m. m\<lparr>prev_pg := None\<rparr>) p ps) (\<lambda>ps.
     and_then (modify_opt (\<lambda>m. m\<lparr>prev_pg := Some p\<rparr>) head ps) (\<lambda>ps.
     Inr (ps, Some p))))"

text \<open>
  Take the entry \<open>p\<close> off the front of its list: \<^verbatim>\<open>head = pages[p].next;
  if let Some(next) = pages[p].next { pages[next].prev = None }\<close>. The links of \<open>p\<close> itself are kept.
\<close>

definition unlink_front :: "usize \<Rightarrow> page_slice \<Rightarrow> (page_slice \<times> usize option) result" where
  "unlink_front p ps =
     and_then (get_at ps p) (\<lambda>m.
     and_then (modify_opt (\<lambda>m. m\<lparr>prev_pg := None\<rparr>) (next_pg m) ps) (\<lambda>ps.
     Inr (ps, next_pg m)))"

text \<open>
  Remove \<open>p\<close> from wherever it is: the neighbours (or the head) skip it, and its links are cleared.
\<close>

definition unlink :: "usize \<Rightarrow> usize option \<Rightarrow> page_slice \<Rightarrow> (page_slice \<times> usize option) result" where
  "unlink p head ps =
     and_then (get_at ps p) (\<lambda>m.
       let prev = prev_pg m; nxt = next_pg m in
     and_then (case prev of
                 Some prev_p \<Rightarrow> and_then (modify_at (\<lambda>m. m\<lparr>next_pg := nxt\<rparr>) prev_p ps) (\<lambda>ps. Inr (ps, head))
               | None \<Rightarrow> Inr (ps, nxt)) (\<lambda>(ps, head).
     and_then (modify_opt (\<lambda>m. m\<lparr>prev_pg := prev\<rparr>) nxt ps) (\<lambda>ps.
     and_then (modify_at (\<lambda>m. m\<lparr>next_pg := None\<rparr>) p ps) (\<lambda>ps.
     and_then (modify_at (\<lambda>m. m\<lparr>prev_pg := None\<rparr>) p ps) (\<lambda>ps.
     Inr (ps, head))))))"

section \<open>Lists in the page array\<close>

text \<open>
  \<open>seg ps q h xs l t\<close>: starting at link \<open>h\<close> with predecessor \<open>q\<close>, the entries \<open>xs\<close> follow one another
  in both directions, the last of them being \<open>l\<close> (or \<open>q\<close> if there is none), and the last link is \<open>t\<close>.
\<close>

fun seg :: "page_slice \<Rightarrow> usize option \<Rightarrow> usize option \<Rightarrow> usize list \<Rightarrow> usize option \<Rightarrow> usize option \<Rightarrow> bool" where
  "seg ps q h [] l t \<longleftrightarrow> h = t \<and> q = l"
| "seg ps q h (x # xs) l t \<longleftrightarrow>
     h = Some x \<and> x < length ps \<and> prev_pg (ps ! x) = q \<and> seg ps (Some x) (next_pg (ps ! x)) xs l t"

definition dll :: "page_slice \<Rightarrow> usize option \<Rightarrow> usize list \<Rightarrow> bool" where
  "dll ps h xs \<longleftrightarrow> distinct xs \<and> (\<exists>l. seg ps None h xs l None)"

text \<open>Two arrays that agree on the links of the entries in \<open>xs\<close>.\<close>

definition same_links :: "usize set \<Rightarrow> page_slice \<Rightarrow> page_slice \<Rightarrow> bool" where
  "same_links A ps ps' \<longleftrightarrow> length ps' = length ps \<and>
     (\<forall>x\<in>A. x < length ps \<longrightarrow> next_pg (ps' ! x) = next_pg (ps ! x) \<and> prev_pg (ps' ! x) = prev_pg (ps ! x))"

lemma seg_same_links: "same_links (set xs) ps ps' \<Longrightarrow> seg ps q h xs l t \<Longrightarrow> seg ps' q h xs l t"
  by (induction xs arbitrary: q h) (auto simp: same_links_def)

lemma dll_same_links: "same_links (set xs) ps ps' \<Longrightarrow> dll ps h xs \<Longrightarrow> dll ps' h xs"
  by (auto simp: dll_def intro: seg_same_links)

lemma same_links_refl [simp]: "same_links A ps ps"
  by (simp add: same_links_def)

lemma same_links_trans: "same_links A ps ps' \<Longrightarrow> same_links A ps' ps'' \<Longrightarrow> same_links A ps ps''"
  by (simp add: same_links_def)

lemma same_links_update:
  "(p \<in> A \<Longrightarrow> next_pg m = next_pg (ps ! p) \<and> prev_pg m = prev_pg (ps ! p)) \<Longrightarrow> same_links A ps (ps[p := m])"
  by (auto simp: same_links_def)

lemma seg_append:
  "seg ps q h (xs @ ys) l t \<longleftrightarrow> (\<exists>l' h'. seg ps q h xs l' h' \<and> seg ps l' h' ys l t)"
  by (induction xs arbitrary: q h) auto

lemma seg_in_range: "seg ps q h xs l t \<Longrightarrow> x \<in> set xs \<Longrightarrow> x < length ps"
  by (induction xs arbitrary: q h) auto

lemma dll_in_range: "dll ps h xs \<Longrightarrow> x \<in> set xs \<Longrightarrow> x < length ps"
  by (auto simp: dll_def intro: seg_in_range)

lemma dll_Nil [simp]: "dll ps h [] \<longleftrightarrow> h = None"
  by (auto simp: dll_def)

lemma dll_head: "dll ps (Some p) xs \<Longrightarrow> \<exists>ys. xs = p # ys"
  by (cases xs) (auto simp: dll_def)

lemma dll_None: "dll ps None xs \<Longrightarrow> xs = []"
  by (cases xs) (auto simp: dll_def)

lemma dll_head_iff: "dll ps h xs \<Longrightarrow> h = (case xs of [] \<Rightarrow> None | x # _ \<Rightarrow> Some x)"
  by (cases xs) (auto simp: dll_def)

text \<open>The list a head denotes is unique.\<close>

lemma seg_unique: "seg ps q h xs l None \<Longrightarrow> seg ps q h ys l' None \<Longrightarrow> xs = ys"
proof (induction xs arbitrary: q h ys)
  case Nil
  then show ?case by (cases ys) auto
next
  case (Cons x xs)
  then obtain ys' where "ys = x # ys'" by (cases ys) auto
  with Cons show ?case by auto
qed

lemma dll_unique: "dll ps h xs \<Longrightarrow> dll ps h ys \<Longrightarrow> xs = ys"
  by (auto simp: dll_def intro: seg_unique)


lemma same_links_mono: "same_links A ps ps' \<Longrightarrow> B \<subseteq> A \<Longrightarrow> same_links B ps ps'"
  by (auto simp: same_links_def)

text \<open>Two arrays that agree on everything but links.\<close>

definition same_meta :: "page_slice \<Rightarrow> page_slice \<Rightarrow> bool" where
  "same_meta ps ps' \<longleftrightarrow> length ps' = length ps \<and>
     (\<forall>x<length ps. state (ps' ! x) = state (ps ! x) \<and> counter (ps' ! x) = counter (ps ! x))"

lemma same_meta_refl [simp]: "same_meta ps ps"
  by (simp add: same_meta_def)

lemma same_meta_trans: "same_meta ps ps' \<Longrightarrow> same_meta ps' ps'' \<Longrightarrow> same_meta ps ps''"
  by (simp add: same_meta_def)

lemma same_meta_length: "same_meta ps ps' \<Longrightarrow> length ps' = length ps"
  by (simp add: same_meta_def)

lemma same_meta_nth:
  "same_meta ps ps' \<Longrightarrow> x < length ps \<Longrightarrow> state (ps' ! x) = state (ps ! x)"
  "same_meta ps ps' \<Longrightarrow> x < length ps \<Longrightarrow> counter (ps' ! x) = counter (ps ! x)"
  by (simp_all add: same_meta_def)

section \<open>What the link manipulations do\<close>

lemma link_front_ok:
  assumes "dll ps h xs" and "p < length ps" and "p \<notin> set xs"
  shows "\<exists>ps'. link_front p h ps = Inr (ps', Some p) \<and> dll ps' (Some p) (p # xs) \<and>
    same_links (- insert p (set xs)) ps ps' \<and> same_meta ps ps'"
proof (cases xs)
  case Nil
  with assms show ?thesis
    by (auto simp: link_front_def modify_opt_def dll_def same_links_def same_meta_def)
next
  case (Cons x ys)
  with assms obtain l where h: "h = Some x" and x: "x < length ps" "x \<noteq> p" "x \<notin> set ys" "p \<notin> set ys"
    and ys: "seg ps (Some x) (next_pg (ps ! x)) ys l None"
    by (auto simp: dll_def)
  let ?m = "(ps ! p)\<lparr>next_pg := h, prev_pg := None\<rparr>"
  let ?ps = "ps[p := ?m, x := (ps ! x)\<lparr>prev_pg := Some p\<rparr>]"
  have "link_front p h ps = Inr (?ps, Some p)"
    using assms(2) x by (simp add: link_front_def modify_opt_def h)
  moreover have "same_links (set ys) ps ?ps"
    using x by (auto simp: same_links_def)
  then have "seg ?ps (Some x) (next_pg (ps ! x)) ys l None"
    using ys by (rule seg_same_links)
  then have "dll ?ps (Some p) (p # xs)"
    using assms Cons x h by (auto simp: dll_def)
  moreover have "same_links (- insert p (set xs)) ps ?ps" "same_meta ps ?ps"
    using Cons x assms(2) by (auto simp: same_links_def same_meta_def)
  ultimately show ?thesis by blast
qed

lemma unlink_front_ok:
  assumes "dll ps (Some p) (p # xs)"
  shows "\<exists>ps'. unlink_front p ps = Inr (ps', next_pg (ps ! p)) \<and> dll ps' (next_pg (ps ! p)) xs \<and>
    same_links (- set xs) ps ps' \<and> same_meta ps ps'"
proof (cases xs)
  case Nil
  with assms show ?thesis
    by (auto simp: unlink_front_def modify_opt_def dll_def)
next
  case (Cons x ys)
  with assms obtain l where x: "x < length ps" "p < length ps" "x \<noteq> p" "x \<notin> set ys" "p \<notin> set ys" "distinct ys"
    and nx: "next_pg (ps ! p) = Some x" and ys: "seg ps (Some x) (next_pg (ps ! x)) ys l None"
    by (auto simp: dll_def)
  let ?ps = "ps[x := (ps ! x)\<lparr>prev_pg := None\<rparr>]"
  have "same_links (set ys) ps ?ps"
    using x by (auto simp: same_links_def)
  then have "seg ?ps (Some x) (next_pg (ps ! x)) ys l None"
    using ys by (rule seg_same_links)
  then have "dll ?ps (next_pg (ps ! p)) xs"
    using Cons x nx by (auto simp: dll_def)
  moreover have "unlink_front p ps = Inr (?ps, next_pg (ps ! p))"
    using x nx by (simp add: unlink_front_def modify_opt_def)
  moreover have "same_links (- set xs) ps ?ps" "same_meta ps ?ps"
    using Cons x by (auto simp: same_links_def same_meta_def)
  ultimately show ?thesis by blast
qed

text \<open>Replacing the last link of a segment, and the back link of its first entry.\<close>

lemma seg_retarget:
  assumes "seg ps q h (xs @ [a]) l t" and "a \<notin> set xs"
  shows "seg (ps[a := (ps ! a)\<lparr>next_pg := t'\<rparr>]) q h (xs @ [a]) (Some a) t'"
proof -
  from assms(1) obtain l' h' where xs: "seg ps q h xs l' h'"
    and a: "h' = Some a" "a < length ps" "prev_pg (ps ! a) = l'"
    by (auto simp: seg_append)
  have "seg (ps[a := (ps ! a)\<lparr>next_pg := t'\<rparr>]) q h xs l' h'"
    using xs assms(2) by (intro seg_same_links [OF same_links_update]) auto
  with a show ?thesis by (auto simp: seg_append)
qed

lemma seg_rehead:
  assumes "seg ps q (Some b) (b # ys) l t" and "b \<notin> set ys"
  shows "seg (ps[b := (ps ! b)\<lparr>prev_pg := q'\<rparr>]) q' (Some b) (b # ys) l t"
  using assms by (auto intro: seg_same_links [OF same_links_update])

text \<open>First half of \<^const>\<open>unlink\<close>: the predecessor (or the head) skips the entry.\<close>

lemma skip_forward:
  assumes "seg ps None h xs q (Some p)" and "seg ps (Some p) n ys l None" and "distinct xs" and "set xs \<inter> set ys = {}"
  shows "\<exists>ps1 h1. (case q of
        Some a \<Rightarrow> and_then (modify_at (\<lambda>m. m\<lparr>next_pg := n\<rparr>) a ps) (\<lambda>ps. Inr (ps, h))
      | None \<Rightarrow> Inr (ps, n)) = Inr (ps1, h1) \<and>
    seg ps1 None h1 xs q n \<and> seg ps1 (Some p) n ys l None \<and> same_links (- set xs) ps ps1 \<and> same_meta ps ps1"
proof (cases xs rule: rev_cases)
  case Nil
  with assms show ?thesis by auto
next
  case (snoc xs' a)
  with assms have q: "q = Some a" "a < length ps" "a \<notin> set xs'" "a \<notin> set ys"
    by (auto simp: seg_append)
  let ?ps = "ps[a := (ps ! a)\<lparr>next_pg := n\<rparr>]"
  have "seg ?ps None h xs q n"
    using assms(1) q snoc by (auto intro: seg_retarget)
  moreover have "seg ?ps (Some p) n ys l None"
    using assms(2) q by (intro seg_same_links [OF same_links_update]) auto
  moreover have "same_links (- set xs) ps ?ps" "same_meta ps ?ps"
    using snoc q by (auto simp: same_links_def same_meta_def)
  ultimately show ?thesis using q by auto
qed

text \<open>Second half: the successor's back link skips the entry.\<close>

lemma skip_backward:
  assumes "seg ps None h xs q n" and "seg ps (Some p) n ys l None" and "distinct ys" and "set xs \<inter> set ys = {}"
  shows "\<exists>ps1 l1. modify_opt (\<lambda>m. m\<lparr>prev_pg := q\<rparr>) n ps = Inr ps1 \<and>
    seg ps1 None h xs q n \<and> seg ps1 q n ys l1 None \<and> same_links (- set ys) ps ps1 \<and> same_meta ps ps1"
proof (cases ys)
  case Nil
  with assms show ?thesis by (auto simp: modify_opt_def)
next
  case (Cons b ys')
  with assms have n: "n = Some b" "b < length ps" "b \<notin> set xs" "b \<notin> set ys'"
    by auto
  let ?ps = "ps[b := (ps ! b)\<lparr>prev_pg := q\<rparr>]"
  have "seg ?ps q n ys l None"
    using assms(2) n Cons by (metis seg_rehead)
  moreover have "seg ?ps None h xs q n"
    using assms(1) n by (intro seg_same_links [OF same_links_update]) auto
  moreover have "same_links (- set ys) ps ?ps" "same_meta ps ?ps"
    using Cons n by (auto simp: same_links_def same_meta_def)
  ultimately show ?thesis using n by (auto simp: modify_opt_def)
qed

lemma unlink_ok:
  assumes "dll ps h xs" and "p \<in> set xs"
  shows "\<exists>ps' h'. unlink p h ps = Inr (ps', h') \<and> dll ps' h' (remove1 p xs) \<and>
    same_links (- set xs) ps ps' \<and> same_meta ps ps'"
proof -
  from assms(2) obtain as bs where xs: "xs = as @ p # bs" and "p \<notin> set as"
    by (meson split_list_first)
  with assms(1) have d: "distinct as" "distinct bs" "p \<notin> set as" "p \<notin> set bs" "set as \<inter> set bs = {}"
    by (auto simp: dll_def)
  from assms(1) xs obtain q l where sa: "seg ps None h as q (Some p)" and p: "p < length ps" "prev_pg (ps ! p) = q"
    and sb: "seg ps (Some p) (next_pg (ps ! p)) bs l None"
    by (auto simp: dll_def seg_append)
  let ?n = "next_pg (ps ! p)"
  from skip_forward [OF sa sb d(1,5)] obtain ps1 h1 where
    1: "(case q of
        Some a \<Rightarrow> and_then (modify_at (\<lambda>m. m\<lparr>next_pg := ?n\<rparr>) a ps) (\<lambda>ps. Inr (ps, h))
      | None \<Rightarrow> Inr (ps, ?n)) = Inr (ps1, h1)"
      "seg ps1 None h1 as q ?n" "seg ps1 (Some p) ?n bs l None" "same_links (- set as) ps ps1" "same_meta ps ps1"
    by blast
  from skip_backward [OF 1(2,3) d(2,5)] obtain ps2 l2 where
    2: "modify_opt (\<lambda>m. m\<lparr>prev_pg := q\<rparr>) ?n ps1 = Inr ps2"
      "seg ps2 None h1 as q ?n" "seg ps2 q ?n bs l2 None" "same_links (- set bs) ps1 ps2" "same_meta ps1 ps2"
    by blast
  have len: "p < length ps2" "length ps2 = length ps"
    using p 1(5) 2(5) by (auto simp: same_meta_def)
  let ?ps3 = "ps2[p := (ps2 ! p)\<lparr>next_pg := None, prev_pg := None\<rparr>]"
  have "same_links (- {p}) ps2 ?ps3"
    by (rule same_links_update) simp
  then have "seg ?ps3 None h1 (as @ bs) l2 None"
    using 2(2,3) d by (auto simp: seg_append intro: seg_same_links same_links_mono)
  then have "dll ?ps3 h1 (remove1 p xs)"
    using xs d by (auto simp: dll_def remove1_append)
  moreover have "unlink p h ps = Inr (?ps3, h1)"
    using p len 1(1) 2(1) by (simp add: unlink_def Let_def)
  moreover have "same_links (- set xs) ps ?ps3"
    using 1(4) 2(4) len xs by (auto simp: same_links_def)
  moreover have "same_meta ps ?ps3"
    using 1(5) 2(5) len by (auto simp: same_meta_def)
  ultimately show ?thesis by blast
qed

end
