(* ===== verification/Page_Allocator.thy ===== *)
theory Page_Allocator
  imports Mutex Free_List
begin

text \<open>
  The physical page allocator, \<^verbatim>\<open>src/src/memory/page_allocator.rs\<close>: its state and every operation.
  The state is the four mutexes of \<^verbatim>\<open>PageAllocator\<close> together with the RFLAGS register of the
  processor, since each lock operation changes the interrupt flag. Guards are local variables
  of the operations and are dropped where Rust drops them: at the explicit \<^verbatim>\<open>drop\<close>, at the end of
  the statement for a temporary, and otherwise in reverse order at the end of the function.
\<close>

section \<open>State\<close>

definition PAGE_SIZE_4KB :: usize where "PAGE_SIZE_4KB = 4096"
definition PAGE_SIZE_2MB :: usize where "PAGE_SIZE_2MB = 2 * 1024 * 1024"
definition PAGES_PER_2MB :: usize where "PAGES_PER_2MB = 512"

lemmas page_consts = PAGE_SIZE_4KB_def PAGE_SIZE_2MB_def PAGES_PER_2MB_def

datatype page_size = Size4KB | Size2MB

text \<open>\<^verbatim>\<open>PageArrayWrapper\<close>: a base address and the slice of entries stored there; \<^verbatim>\<open>len\<close> is the slice's length.\<close>

record page_array_wrapper =
  ptr :: usize
  slots :: page_slice

record page_allocator =
  page_array :: "page_array_wrapper mutex"
  free_4kb_list :: "usize option mutex"
  free_2mb_list :: "usize option mutex"
  kernel_end :: "usize mutex"
  rflags :: u64

definition new_wrapper :: page_array_wrapper where
  "new_wrapper = \<lparr>ptr = 0, slots = []\<rparr>"

definition as_slice :: "page_array_wrapper \<Rightarrow> page_slice" where
  "as_slice w = slots w"

definition new_allocator :: "u64 \<Rightarrow> page_allocator" where
  "new_allocator fl = \<lparr>page_array = new_mutex new_wrapper, free_4kb_list = new_mutex None,
     free_2mb_list = new_mutex None, kernel_end = new_mutex 0, rflags = fl\<rparr>"

section \<open>Access to the mutexes\<close>

definition lock_page_array :: "page_allocator \<Rightarrow> (mutex_guard \<times> page_allocator) result" where
  "lock_page_array = lock_in page_array (\<lambda>m s. s\<lparr>page_array := m\<rparr>) rflags (\<lambda>fl s. s\<lparr>rflags := fl\<rparr>)"

definition drop_page_array :: "mutex_guard \<Rightarrow> page_allocator \<Rightarrow> page_allocator" where
  "drop_page_array = drop_in page_array (\<lambda>m s. s\<lparr>page_array := m\<rparr>) rflags (\<lambda>fl s. s\<lparr>rflags := fl\<rparr>)"

definition lock_4kb :: "page_allocator \<Rightarrow> (mutex_guard \<times> page_allocator) result" where
  "lock_4kb = lock_in free_4kb_list (\<lambda>m s. s\<lparr>free_4kb_list := m\<rparr>) rflags (\<lambda>fl s. s\<lparr>rflags := fl\<rparr>)"

definition drop_4kb :: "mutex_guard \<Rightarrow> page_allocator \<Rightarrow> page_allocator" where
  "drop_4kb = drop_in free_4kb_list (\<lambda>m s. s\<lparr>free_4kb_list := m\<rparr>) rflags (\<lambda>fl s. s\<lparr>rflags := fl\<rparr>)"

definition lock_2mb :: "page_allocator \<Rightarrow> (mutex_guard \<times> page_allocator) result" where
  "lock_2mb = lock_in free_2mb_list (\<lambda>m s. s\<lparr>free_2mb_list := m\<rparr>) rflags (\<lambda>fl s. s\<lparr>rflags := fl\<rparr>)"

definition drop_2mb :: "mutex_guard \<Rightarrow> page_allocator \<Rightarrow> page_allocator" where
  "drop_2mb = drop_in free_2mb_list (\<lambda>m s. s\<lparr>free_2mb_list := m\<rparr>) rflags (\<lambda>fl s. s\<lparr>rflags := fl\<rparr>)"

definition lock_kernel_end :: "page_allocator \<Rightarrow> (mutex_guard \<times> page_allocator) result" where
  "lock_kernel_end = lock_in kernel_end (\<lambda>m s. s\<lparr>kernel_end := m\<rparr>) rflags (\<lambda>fl s. s\<lparr>rflags := fl\<rparr>)"

definition drop_kernel_end :: "mutex_guard \<Rightarrow> page_allocator \<Rightarrow> page_allocator" where
  "drop_kernel_end = drop_in kernel_end (\<lambda>m s. s\<lparr>kernel_end := m\<rparr>) rflags (\<lambda>fl s. s\<lparr>rflags := fl\<rparr>)"

text \<open>Reading and writing through a guard.\<close>

definition pages :: "page_allocator \<Rightarrow> page_slice" where
  "pages s = as_slice (deref (page_array s))"

definition set_pages :: "page_slice \<Rightarrow> page_allocator \<Rightarrow> page_allocator" where
  "set_pages ps s = s\<lparr>page_array := deref_mut (\<lambda>w. w\<lparr>slots := ps\<rparr>) (page_array s)\<rparr>"

definition head_4kb :: "page_allocator \<Rightarrow> usize option" where
  "head_4kb s = deref (free_4kb_list s)"

definition set_head_4kb :: "usize option \<Rightarrow> page_allocator \<Rightarrow> page_allocator" where
  "set_head_4kb h s = s\<lparr>free_4kb_list := deref_mut (\<lambda>_. h) (free_4kb_list s)\<rparr>"

definition head_2mb :: "page_allocator \<Rightarrow> usize option" where
  "head_2mb s = deref (free_2mb_list s)"

definition set_head_2mb :: "usize option \<Rightarrow> page_allocator \<Rightarrow> page_allocator" where
  "set_head_2mb h s = s\<lparr>free_2mb_list := deref_mut (\<lambda>_. h) (free_2mb_list s)\<rparr>"

definition modify_page :: "(page_metadata \<Rightarrow> page_metadata) \<Rightarrow> usize \<Rightarrow> page_allocator \<Rightarrow> page_allocator result" where
  "modify_page f p s = and_then (modify_at f p (pages s)) (\<lambda>ps. Inr (set_pages ps s))"

text \<open>\<^verbatim>\<open>*self.free_4kb_list.lock() = h\<close> and its kin: a guard that lives for one statement.\<close>

definition store_4kb :: "usize option \<Rightarrow> page_allocator \<Rightarrow> page_allocator result" where
  "store_4kb h s = and_then (lock_4kb s) (\<lambda>(g, s). Inr (drop_4kb g (set_head_4kb h s)))"

definition store_2mb :: "usize option \<Rightarrow> page_allocator \<Rightarrow> page_allocator result" where
  "store_2mb h s = and_then (lock_2mb s) (\<lambda>(g, s). Inr (drop_2mb g (set_head_2mb h s)))"

definition load_2mb :: "page_allocator \<Rightarrow> (usize option \<times> page_allocator) result" where
  "load_2mb s = and_then (lock_2mb s) (\<lambda>(g, s). Inr (head_2mb s, drop_2mb g s))"

definition load_kernel_end :: "page_allocator \<Rightarrow> (usize \<times> page_allocator) result" where
  "load_kernel_end s = and_then (lock_kernel_end s) (\<lambda>(g, s). Inr (deref (kernel_end s), drop_kernel_end g s))"

definition store_kernel_end :: "usize \<Rightarrow> page_allocator \<Rightarrow> page_allocator result" where
  "store_kernel_end e s = and_then (lock_kernel_end s) (\<lambda>(g, s).
     Inr (drop_kernel_end g (s\<lparr>kernel_end := deref_mut (\<lambda>_. e) (kernel_end s)\<rparr>)))"

section \<open>Allocation\<close>

definition alloc_2mb :: "page_allocator \<Rightarrow> (usize option \<times> page_allocator) result" where
  "alloc_2mb s =
     and_then (lock_2mb s) (\<lambda>(head, s).
     case head_2mb s of
       None \<Rightarrow> Inr (None, drop_2mb head s)
     | Some pfn \<Rightarrow>
         and_then (lock_page_array s) (\<lambda>(page_guard, s).
         and_then (unlink_front pfn (pages s)) (\<lambda>(ps, h).
           let s = set_head_2mb h (set_pages ps s) in
         and_then (modify_page (\<lambda>m. m\<lparr>state := Allocated\<rparr>) pfn s) (\<lambda>s.
         and_then (modify_page (\<lambda>m. m\<lparr>next_pg := None\<rparr>) pfn s) (\<lambda>s.
         and_then (modify_page (\<lambda>m. m\<lparr>prev_pg := None\<rparr>) pfn s) (\<lambda>s.
         and_then (checked_mul pfn PAGE_SIZE_4KB) (\<lambda>addr.
         Inr (Some addr, drop_2mb head (drop_page_array page_guard s)))))))))"

text \<open>The body of the loop of \<^verbatim>\<open>split_2mb\<close>: page \<open>p\<close> becomes a free 4KB page at the front of the list.\<close>

definition split_body :: "usize \<Rightarrow> page_allocator \<Rightarrow> page_allocator result" where
  "split_body p s =
     and_then (modify_page (\<lambda>m. m\<lparr>state := Free4KB\<rparr>) p s) (\<lambda>s.
     and_then (link_front p (head_4kb s) (pages s)) (\<lambda>(ps, h).
     Inr (set_head_4kb h (set_pages ps s))))"

definition split_2mb :: "page_allocator \<Rightarrow> (unit option \<times> page_allocator) result" where
  "split_2mb s =
     and_then (lock_2mb s) (\<lambda>(head, s).
     case head_2mb s of
       None \<Rightarrow> Inr (None, drop_2mb head s)
     | Some pfn \<Rightarrow>
         and_then (lock_page_array s) (\<lambda>(page_guard, s).
         and_then (unlink_front pfn (pages s)) (\<lambda>(ps, h).
           let s = drop_2mb head (set_head_2mb h (set_pages ps s)) in
         and_then (lock_4kb s) (\<lambda>(head_4kb, s).
         and_then (modify_page (\<lambda>m. m\<lparr>counter := of_nat PAGES_PER_2MB\<rparr>) pfn s) (\<lambda>s.
         and_then (for_each [pfn..<pfn + PAGES_PER_2MB] split_body s) (\<lambda>s.
         Inr (Some (), drop_page_array page_guard (drop_4kb head_4kb s))))))))"

text \<open>
  \<^verbatim>\<open>alloc_4kb\<close> with a non-empty list. The first part runs up to \<^verbatim>\<open>drop(head)\<close>, which gives up the list's
  lock while the page array stays locked; the second part updates the superpage's counter.
\<close>

definition alloc_4kb_unlink :: "mutex_guard \<Rightarrow> usize \<Rightarrow> page_allocator \<Rightarrow> (mutex_guard \<times> page_allocator) result" where
  "alloc_4kb_unlink head pfn s =
     and_then (lock_page_array s) (\<lambda>(page_guard, s).
     and_then (unlink_front pfn (pages s)) (\<lambda>(ps, h).
       let s = set_head_4kb h (set_pages ps s) in
     and_then (modify_page (\<lambda>m. m\<lparr>state := Allocated\<rparr>) pfn s) (\<lambda>s.
     and_then (modify_page (\<lambda>m. m\<lparr>next_pg := None\<rparr>) pfn s) (\<lambda>s.
     and_then (modify_page (\<lambda>m. m\<lparr>prev_pg := None\<rparr>) pfn s) (\<lambda>s.
     Inr (page_guard, drop_4kb head s))))))"

definition alloc_4kb_count :: "mutex_guard \<Rightarrow> usize \<Rightarrow> page_allocator \<Rightarrow> (usize option \<times> page_allocator) result" where
  "alloc_4kb_count page_guard pfn s =
     (let sp_head = (pfn div PAGES_PER_2MB) * PAGES_PER_2MB in
      and_then (if sp_head < length (pages s)
                then modify_page (\<lambda>m. m\<lparr>counter := saturating_sub (counter m) 1\<rparr>) sp_head s
                else Inr s) (\<lambda>s.
      and_then (checked_mul pfn PAGE_SIZE_4KB) (\<lambda>addr.
      Inr (Some addr, drop_page_array page_guard s))))"

definition alloc_4kb_take :: "mutex_guard \<Rightarrow> usize \<Rightarrow> page_allocator \<Rightarrow> (usize option \<times> page_allocator) result" where
  "alloc_4kb_take head pfn s =
     and_then (alloc_4kb_unlink head pfn s) (\<lambda>(page_guard, s). alloc_4kb_count page_guard pfn s)"


text \<open>
  With an empty list \<^verbatim>\<open>alloc_4kb\<close> splits a 2MB page and calls itself. It does so at most once: the
  split leaves a non-empty list, which is the termination argument.
\<close>

lemma head_4kb_set_pages [simp, frame_simps]: "head_4kb (set_pages ps s) = head_4kb s"
  by (simp add: head_4kb_def set_pages_def)

lemma head_4kb_set_head [simp, frame_simps]: "head_4kb (set_head_4kb h s) = h"
  by (simp add: head_4kb_def set_head_4kb_def deref_def deref_mut_def)

lemma head_4kb_drops [simp, frame_simps]:
  "head_4kb (drop_page_array g s) = head_4kb s" "head_4kb (drop_4kb g s) = head_4kb s"
  by (simp_all add: head_4kb_def drop_page_array_def drop_4kb_def drop_in_def drop_guard_def deref_def Let_def)

lemma split_body_head: "split_body p s = Inr t \<Longrightarrow> head_4kb t \<noteq> None"
  by (auto simp: split_body_def and_then_eq_Inr link_front_def split: prod.splits)

lemma split_loop_head: "xs \<noteq> [] \<Longrightarrow> for_each xs split_body s = Inr t \<Longrightarrow> head_4kb t \<noteq> None"
  by (cases xs rule: rev_cases) (auto simp: for_each_append and_then_eq_Inr dest: split_body_head)

lemma split_2mb_head:
  assumes "split_2mb s = Inr (Some u, t)"
  shows "head_4kb t \<noteq> None"
  using assms unfolding split_2mb_def
  by (auto simp: and_then_eq_Inr Let_def page_consts dest!: split_loop_head [rotated]
      split: option.splits prod.splits)

function alloc_4kb :: "page_allocator \<Rightarrow> (usize option \<times> page_allocator) result" where
  "alloc_4kb s =
     (case lock_4kb s of
        Inl e \<Rightarrow> Inl e
      | Inr (head, s1) \<Rightarrow>
          (case head_4kb s1 of
             Some pfn \<Rightarrow> alloc_4kb_take head pfn s1
           | None \<Rightarrow>
               (case load_2mb (drop_4kb head s1) of
                  Inl e \<Rightarrow> Inl e
                | Inr (h2, s2) \<Rightarrow>
                    if h2 = None then Inr (None, s2)
                    else (case split_2mb s2 of
                            Inl e \<Rightarrow> Inl e
                          | Inr (None, s3) \<Rightarrow> Inr (None, s3)
                          | Inr (Some _, s3) \<Rightarrow> alloc_4kb s3))))"
  by pat_completeness auto
termination
proof (relation "measure (\<lambda>s. if head_4kb s = None then 1 else 0)", goal_cases)
  case 1
  show ?case by simp
next
  case (2 s v head s1 w h2 s2 x y s3 z)
  have "head_4kb s1 = head_4kb s"
    using 2(1,2) by (auto simp: lock_4kb_def lock_in_def lock_def head_4kb_def deref_def and_then_eq_Inr
        Let_def split: if_splits)
  with 2 show ?case by (auto dest: split_2mb_head)
qed

declare alloc_4kb.simps [simp del]

definition allocate_page :: "page_size \<Rightarrow> page_allocator \<Rightarrow> (usize option \<times> page_allocator) result" where
  "allocate_page sz s = (case sz of Size4KB \<Rightarrow> alloc_4kb s | Size2MB \<Rightarrow> alloc_2mb s)"

section \<open>Release\<close>

text \<open>
  The loop body of \<^verbatim>\<open>try_merge\<close>: take page \<open>p\<close> out of the 4KB list. The head is stored under its
  own lock, and only when \<open>p\<close> has no predecessor.
\<close>

definition merge_unlink :: "usize \<Rightarrow> page_allocator \<Rightarrow> page_allocator result" where
  "merge_unlink p s =
     and_then (get_at (pages s) p) (\<lambda>m.
       let prev = prev_pg m; nxt = next_pg m in
     and_then (case prev of
                 Some prev_p \<Rightarrow> modify_page (\<lambda>m. m\<lparr>next_pg := nxt\<rparr>) prev_p s
               | None \<Rightarrow> store_4kb nxt s) (\<lambda>s.
     and_then (case nxt of
                 Some next_p \<Rightarrow> modify_page (\<lambda>m. m\<lparr>prev_pg := prev\<rparr>) next_p s
               | None \<Rightarrow> Inr s) (\<lambda>s.
     and_then (modify_page (\<lambda>m. m\<lparr>next_pg := None\<rparr>) p s) (\<lambda>s.
     modify_page (\<lambda>m. m\<lparr>prev_pg := None\<rparr>) p s))))"

text \<open>The first loop of \<^verbatim>\<open>try_merge\<close>: are the pages \<open>xs\<close> all free?\<close>

fun all_free :: "usize list \<Rightarrow> page_slice \<Rightarrow> bool result" where
  "all_free [] ps = Inr True"
| "all_free (p # xs) ps =
     and_then (get_at ps p) (\<lambda>m. if state m \<noteq> Free4KB then Inr False else all_free xs ps)"

definition try_merge :: "usize \<Rightarrow> page_allocator \<Rightarrow> page_allocator result" where
  "try_merge pfn s =
     (let sp_head = (pfn div PAGES_PER_2MB) * PAGES_PER_2MB in
      and_then (lock_page_array s) (\<lambda>(page_guard, s).
      and_then (all_free [sp_head..<sp_head + PAGES_PER_2MB] (pages s)) (\<lambda>ok.
      if \<not> ok then Inr (drop_page_array page_guard s)
      else
        and_then (for_each [sp_head..<sp_head + PAGES_PER_2MB] merge_unlink s) (\<lambda>s.
        and_then (modify_page (\<lambda>m. m\<lparr>state := Free2MB\<rparr>) sp_head s) (\<lambda>s.
        and_then (modify_page (\<lambda>m. m\<lparr>counter := of_nat PAGES_PER_2MB\<rparr>) sp_head s) (\<lambda>s.
        and_then (lock_2mb s) (\<lambda>(head, s).
        and_then (link_front sp_head (head_2mb s) (pages s)) (\<lambda>(ps, h).
        Inr (drop_page_array page_guard (drop_2mb head (set_head_2mb h (set_pages ps s))))))))))))"

text \<open>The front insertion of \<^verbatim>\<open>free_4kb\<close>, which skips the back link when the old head is out of range.\<close>

definition link_front_checked :: "usize \<Rightarrow> usize option \<Rightarrow> page_slice \<Rightarrow> (page_slice \<times> usize option) result" where
  "link_front_checked p head ps =
     and_then (modify_at (\<lambda>m. m\<lparr>next_pg := head\<rparr>) p ps) (\<lambda>ps.
     and_then (modify_at (\<lambda>m. m\<lparr>prev_pg := None\<rparr>) p ps) (\<lambda>ps.
     and_then (case head of
                 None \<Rightarrow> Inr ps
               | Some old \<Rightarrow> if old < length ps then modify_at (\<lambda>m. m\<lparr>prev_pg := Some p\<rparr>) old ps else Inr ps) (\<lambda>ps.
     Inr (ps, Some p))))"

text \<open>\<^verbatim>\<open>free_4kb\<close> up to the point where both guards are dropped, and whether a merge is due.\<close>

definition free_4kb_insert :: "usize \<Rightarrow> page_allocator \<Rightarrow> (bool \<times> page_allocator) result" where
  "free_4kb_insert pfn s =
     and_then (lock_page_array s) (\<lambda>(page_guard, s).
     if length (pages s) \<le> pfn then Inr (False, drop_page_array page_guard s)
     else
       and_then (get_at (pages s) pfn) (\<lambda>m.
       if state m = Free4KB then Inr (False, drop_page_array page_guard s)
       else
         and_then (modify_page (\<lambda>m. m\<lparr>state := Free4KB\<rparr>) pfn s) (\<lambda>s.
           let sp_head = (pfn div PAGES_PER_2MB) * PAGES_PER_2MB in
         and_then (if sp_head < length (pages s)
                   then and_then (modify_page (\<lambda>m. m\<lparr>counter := saturating_add (counter m) 1\<rparr>) sp_head s) (\<lambda>s.
                        and_then (get_at (pages s) sp_head) (\<lambda>m.
                        Inr (counter m = of_nat PAGES_PER_2MB, s)))
                   else Inr (False, s)) (\<lambda>(can_merge, s).
         and_then (lock_4kb s) (\<lambda>(head, s).
         and_then (link_front_checked pfn (head_4kb s) (pages s)) (\<lambda>(ps, h).
         Inr (can_merge, drop_page_array page_guard (drop_4kb head (set_head_4kb h (set_pages ps s))))))))))"

definition free_4kb :: "usize \<Rightarrow> page_allocator \<Rightarrow> page_allocator result" where
  "free_4kb pfn s =
     and_then (free_4kb_insert pfn s) (\<lambda>(can_merge, s). if can_merge then try_merge pfn s else Inr s)"

definition free_2mb :: "usize \<Rightarrow> page_allocator \<Rightarrow> page_allocator result" where
  "free_2mb pfn s =
     (let aligned_pfn = (pfn div PAGES_PER_2MB) * PAGES_PER_2MB in
      and_then (lock_page_array s) (\<lambda>(page_guard, s).
      and_then (get_at (pages s) aligned_pfn) (\<lambda>m.
      if state m = Free2MB then Inr (drop_page_array page_guard s)
      else
        and_then (modify_page (\<lambda>m. m\<lparr>state := Free2MB\<rparr>) aligned_pfn s) (\<lambda>s.
        and_then (modify_page (\<lambda>m. m\<lparr>counter := of_nat PAGES_PER_2MB\<rparr>) aligned_pfn s) (\<lambda>s.
        and_then (lock_2mb s) (\<lambda>(head, s).
        and_then (link_front aligned_pfn (head_2mb s) (pages s)) (\<lambda>(ps, h).
        Inr (drop_page_array page_guard (drop_2mb head (set_head_2mb h (set_pages ps s)))))))))))"

definition free_page :: "usize \<Rightarrow> page_size \<Rightarrow> page_allocator \<Rightarrow> page_allocator result" where
  "free_page addr sz s =
     (let pfn = addr div PAGE_SIZE_4KB in
      case sz of Size4KB \<Rightarrow> free_4kb pfn s | Size2MB \<Rightarrow> free_2mb pfn s)"

end
