(* ===== verification/Page_Exec.thy ===== *)
theory Page_Exec
  imports Page_Allocator
begin

text \<open>
  Locking seen from the callers: when no lock is held, every operation of the allocator takes and
  gives back the locks it needs, and what is left is its effect on the page array and on the two
  list heads. The four mutexes of the allocator instantiate the contract of Mutex.
\<close>

interpretation page_array_mutex: mutex_field page_array "\<lambda>m s. s\<lparr>page_array := m\<rparr>" rflags "\<lambda>fl s. s\<lparr>rflags := fl\<rparr>"
  by unfold_locales auto

interpretation free_4kb_mutex: mutex_field free_4kb_list "\<lambda>m s. s\<lparr>free_4kb_list := m\<rparr>" rflags "\<lambda>fl s. s\<lparr>rflags := fl\<rparr>"
  by unfold_locales auto

interpretation free_2mb_mutex: mutex_field free_2mb_list "\<lambda>m s. s\<lparr>free_2mb_list := m\<rparr>" rflags "\<lambda>fl s. s\<lparr>rflags := fl\<rparr>"
  by unfold_locales auto

interpretation kernel_end_mutex: mutex_field kernel_end "\<lambda>m s. s\<lparr>kernel_end := m\<rparr>" rflags "\<lambda>fl s. s\<lparr>rflags := fl\<rparr>"
  by unfold_locales auto

section \<open>States without a held lock\<close>

definition unlocked :: "page_allocator \<Rightarrow> bool" where
  "unlocked s \<longleftrightarrow> \<not> locked (page_array s) \<and> \<not> locked (free_4kb_list s) \<and>
     \<not> locked (free_2mb_list s) \<and> \<not> locked (kernel_end s)"

lemma access_simps [simp, frame_simps]:
  "pages (set_pages ps s) = ps" "pages (set_head_4kb h s) = pages s" "pages (set_head_2mb h s) = pages s"
  "head_2mb (set_head_2mb h s) = h" "head_2mb (set_pages ps s) = head_2mb s"
  "head_2mb (set_head_4kb h s) = head_2mb s" "head_4kb (set_head_2mb h s) = head_4kb s"
  "rflags (set_pages ps s) = rflags s" "rflags (set_head_4kb h s) = rflags s" "rflags (set_head_2mb h s) = rflags s"
  "unlocked (set_pages ps s) = unlocked s" "unlocked (set_head_4kb h s) = unlocked s"
  "unlocked (set_head_2mb h s) = unlocked s"
  "kernel_end (set_pages ps s) = kernel_end s" "kernel_end (set_head_4kb h s) = kernel_end s"
  "kernel_end (set_head_2mb h s) = kernel_end s"
  by (simp_all add: pages_def set_pages_def set_head_4kb_def set_head_2mb_def head_4kb_def head_2mb_def
      deref_def deref_mut_def as_slice_def unlocked_def)

lemma set_simps [simp]:
  "set_pages ps (set_pages ps' s) = set_pages ps s"
  "set_head_4kb h (set_head_4kb h' s) = set_head_4kb h s"
  "set_head_2mb h (set_head_2mb h' s) = set_head_2mb h s"
  "set_head_4kb h (set_pages ps s) = set_pages ps (set_head_4kb h s)"
  "set_head_2mb h (set_pages ps s) = set_pages ps (set_head_2mb h s)"
  "set_head_2mb h (set_head_4kb h' s) = set_head_4kb h' (set_head_2mb h s)"
  "set_pages (pages s) s = s" "set_head_4kb (head_4kb s) s = s" "set_head_2mb (head_2mb s) s = s"
  by (simp_all add: pages_def set_pages_def set_head_4kb_def set_head_2mb_def head_4kb_def head_2mb_def
      deref_def deref_mut_def as_slice_def)

lemma modify_page_ok [simp]:
  "p < length (pages s) \<Longrightarrow> modify_page f p s = Inr (set_pages ((pages s)[p := f (pages s ! p)]) s)"
  by (simp add: modify_page_def)


lemma unlocked_cases:
  assumes "unlocked s"
  obtains a ps h4 h2 e fl where
    "s = \<lparr>page_array = \<lparr>locked = False, data = \<lparr>ptr = a, slots = ps\<rparr>\<rparr>,
          free_4kb_list = \<lparr>locked = False, data = h4\<rparr>, free_2mb_list = \<lparr>locked = False, data = h2\<rparr>,
          kernel_end = \<lparr>locked = False, data = e\<rparr>, rflags = fl\<rparr>"
  using assms
  by (cases s; cases "page_array s"; cases "free_4kb_list s"; cases "free_2mb_list s"; cases "kernel_end s";
      cases "data (page_array s)") (simp add: unlocked_def)

lemmas lock_exec =
  lock_page_array_def drop_page_array_def lock_4kb_def drop_4kb_def lock_2mb_def drop_2mb_def
  lock_kernel_end_def drop_kernel_end_def lock_in_def drop_in_def lock_def drop_guard_def Let_def

lemmas access_exec =
  pages_def set_pages_def head_4kb_def set_head_4kb_def head_2mb_def set_head_2mb_def
  deref_def deref_mut_def as_slice_def

lemma alloc_2mb_empty:
  assumes "unlocked s" and "head_2mb s = None"
  shows "alloc_2mb s = Inr (None, s)"
  using assms by (elim unlocked_cases) (simp add: alloc_2mb_def lock_exec access_exec)

definition taken :: "page_metadata \<Rightarrow> page_metadata" where
  "taken m = m\<lparr>state := Allocated, next_pg := None, prev_pg := None\<rparr>"

lemma alloc_2mb_exec:
  assumes "unlocked s" and "head_2mb s = Some p" and "unlink_front p (pages s) = Inr (ps, h)"
    and "p < length ps" and "p * PAGE_SIZE_4KB < usize_limit"
  shows "alloc_2mb s = Inr (Some (p * PAGE_SIZE_4KB), set_head_2mb h (set_pages (ps[p := taken (ps ! p)]) s))"
  using assms
  by (elim unlocked_cases) (simp add: alloc_2mb_def taken_def modify_page_def lock_exec access_exec)

lemma load_2mb_exec: "unlocked s \<Longrightarrow> load_2mb s = Inr (head_2mb s, s)"
  by (elim unlocked_cases) (simp add: load_2mb_def lock_exec access_exec)

lemma store_4kb_exec:
  "\<not> locked (free_4kb_list s) \<Longrightarrow> store_4kb h s = Inr (set_head_4kb h s)"
  unfolding store_4kb_def lock_4kb_def drop_4kb_def set_head_4kb_def
  using free_4kb_mutex.critical_section [of s _ _ "\<lambda>_. h"]
  by (auto simp: free_4kb_mutex.lock_in_free)

lemma lock_4kb_unlocked:
  assumes "unlocked s"
  obtains g t where "lock_4kb s = Inr (g, t)" and "head_4kb t = head_4kb s" and "drop_4kb g t = s"
proof -
  have "\<not> locked (free_4kb_list s)" using assms by (simp add: unlocked_def)
  then obtain g t where l: "lock_4kb s = Inr (g, t)" and "head_4kb t = head_4kb s"
    by (auto simp: lock_4kb_def free_4kb_mutex.lock_in_free head_4kb_def deref_def)
  moreover have "drop_4kb g t = s"
    using free_4kb_mutex.drop_lock_in l unfolding lock_4kb_def drop_4kb_def by blast
  ultimately show ?thesis by (rule that)
qed

lemma alloc_4kb_nonempty:
  assumes "unlocked s" and "head_4kb s = Some p"
  shows "alloc_4kb s = and_then (lock_4kb s) (\<lambda>(head, s). alloc_4kb_take head p s)"
  using assms(1)
proof (rule lock_4kb_unlocked)
  fix g t
  assume "lock_4kb s = Inr (g, t)" and "head_4kb t = head_4kb s" and "drop_4kb g t = s"
  with assms(2) show ?thesis by (subst alloc_4kb.simps) simp
qed

lemma alloc_4kb_empty:
  assumes "unlocked s" and "head_4kb s = None"
  shows "alloc_4kb s = (if head_2mb s = None then Inr (None, s)
    else and_then (split_2mb s) (\<lambda>(r, t). if r = None then Inr (None, t) else alloc_4kb t))"
  using assms(1)
proof (rule lock_4kb_unlocked)
  fix g t
  assume "lock_4kb s = Inr (g, t)" and "head_4kb t = head_4kb s" and "drop_4kb g t = s"
  with assms show ?thesis
    by (subst alloc_4kb.simps)
      (auto simp: load_2mb_exec and_then_def split: sum.splits option.splits)
qed

lemma alloc_4kb_exec:
  assumes "unlocked s" and "head_4kb s = Some p" and "unlink_front p (pages s) = Inr (ps, h)"
    and "p < length ps" and "p * PAGE_SIZE_4KB < usize_limit" and "sp = p div PAGES_PER_2MB * PAGES_PER_2MB"
  shows "alloc_4kb s = Inr (Some (p * PAGE_SIZE_4KB), set_head_4kb h (set_pages
    (let ps = ps[p := taken (ps ! p)] in ps[sp := (ps ! sp)\<lparr>counter := saturating_sub (counter (ps ! sp)) 1\<rparr>]) s))"
proof -
  have sp: "sp < length ps" using assms(4,6) by (metis div_times_less_eq_dividend le_less_trans)
  show ?thesis
    unfolding alloc_4kb_nonempty [OF assms(1,2)]
    using assms sp
    by (elim unlocked_cases)
      (simp add: alloc_4kb_take_def alloc_4kb_unlink_def alloc_4kb_count_def taken_def modify_page_def
        lock_exec access_exec)
qed

section \<open>Loops on the page array and the 4KB head\<close>

type_synonym free_pages = "page_slice \<times> usize option"

definition free_part :: "page_allocator \<Rightarrow> free_pages" where
  "free_part s = (pages s, head_4kb s)"

definition put_free_part :: "free_pages \<Rightarrow> page_allocator \<Rightarrow> page_allocator" where
  "put_free_part v s = set_head_4kb (snd v) (set_pages (fst v) s)"

lemma free_part_laws [simp]:
  "free_part (put_free_part v s) = v" "put_free_part v (put_free_part w s) = put_free_part v s"
  "put_free_part (free_part s) s = s"
  "locked (free_4kb_list (put_free_part v s)) = locked (free_4kb_list s)"
  by (simp_all add: free_part_def put_free_part_def)
    (simp add: set_head_4kb_def set_pages_def deref_mut_def)

definition split_link :: "usize \<Rightarrow> free_pages \<Rightarrow> free_pages result" where
  "split_link p v = and_then (modify_at (\<lambda>m. m\<lparr>state := Free4KB\<rparr>) p (fst v)) (link_front p (snd v))"

lemma split_body_lift: "split_body p s = and_then (split_link p (free_part s)) (\<lambda>v. Inr (put_free_part v s))"
  by (cases "p < length (pages s)")
    (auto simp: split_body_def split_link_def free_part_def put_free_part_def modify_page_def and_then_def
      split: sum.splits)

lemma split_loop_lift:
  "for_each xs split_body s = and_then (for_each xs split_link (free_part s)) (\<lambda>v. Inr (put_free_part v s))"
  by (rule for_each_lift [where Q = "\<lambda>_. True"]) (simp_all add: split_body_lift)

lemma split_2mb_empty:
  assumes "unlocked s" and "head_2mb s = None"
  shows "split_2mb s = Inr (None, s)"
  using assms by (elim unlocked_cases) (simp add: split_2mb_def lock_exec access_exec)

lemma split_2mb_exec:
  assumes "unlocked s" and "head_2mb s = Some p" and "unlink_front p (pages s) = Inr (ps, h)" and "p < length ps"
    and "for_each [p..<p + PAGES_PER_2MB] split_link
           (ps[p := (ps ! p)\<lparr>counter := of_nat PAGES_PER_2MB\<rparr>], head_4kb s) = Inr v"
  shows "split_2mb s = Inr (Some (), put_free_part v (set_head_2mb h s))"
  using assms
  by (elim unlocked_cases)
    (simp add: split_2mb_def split_loop_lift free_part_def put_free_part_def modify_page_def lock_exec access_exec)

definition unlink_link :: "usize \<Rightarrow> free_pages \<Rightarrow> free_pages result" where
  "unlink_link p v = unlink p (snd v) (fst v)"

lemma merge_unlink_lift:
  assumes "\<not> locked (free_4kb_list s)"
  shows "merge_unlink p s = and_then (unlink_link p (free_part s)) (\<lambda>v. Inr (put_free_part v s))"
  using assms
  by (auto simp: merge_unlink_def unlink_link_def unlink_def free_part_def put_free_part_def modify_page_def
      modify_opt_def store_4kb_exec and_then_def get_at_def modify_at_def Let_def split: sum.splits option.splits)

lemma merge_loop_lift:
  assumes "\<not> locked (free_4kb_list s)"
  shows "for_each xs merge_unlink s = and_then (for_each xs unlink_link (free_part s)) (\<lambda>v. Inr (put_free_part v s))"
  by (rule for_each_lift [where Q = "\<lambda>s. \<not> locked (free_4kb_list s)"])
    (simp_all add: merge_unlink_lift assms)

section \<open>Release\<close>

lemma all_free_iff:
  "(\<And>p. p \<in> set xs \<Longrightarrow> p < length ps) \<Longrightarrow> all_free xs ps = Inr (\<forall>p\<in>set xs. state (ps ! p) = Free4KB)"
  by (induction xs) auto

lemma try_merge_skip:
  assumes "unlocked s" and "all_free [sp..<sp + PAGES_PER_2MB] (pages s) = Inr False"
    and "sp = p div PAGES_PER_2MB * PAGES_PER_2MB"
  shows "try_merge p s = Inr s"
  using assms by (elim unlocked_cases) (simp add: try_merge_def lock_exec access_exec)

lemma try_merge_exec:
  assumes "unlocked s" and "sp = p div PAGES_PER_2MB * PAGES_PER_2MB"
    and "all_free [sp..<sp + PAGES_PER_2MB] (pages s) = Inr True"
    and "for_each [sp..<sp + PAGES_PER_2MB] unlink_link (pages s, head_4kb s) = Inr (ps, h4)"
    and "sp < length ps"
    and "link_front sp (head_2mb s) (ps[sp := (ps ! sp)\<lparr>state := Free2MB, counter := of_nat PAGES_PER_2MB\<rparr>])
      = Inr (ps', h2)"
  shows "try_merge p s = Inr (set_head_2mb h2 (set_head_4kb h4 (set_pages ps' s)))"
  using assms
  by (elim unlocked_cases)
    (simp add: try_merge_def merge_loop_lift free_part_def put_free_part_def modify_page_def lock_exec access_exec)

lemma link_front_checked_eq:
  "(\<And>x. h = Some x \<Longrightarrow> x < length ps) \<Longrightarrow> link_front_checked p h ps = link_front p h ps"
  by (auto simp: link_front_checked_def link_front_def modify_opt_def and_then_def modify_at_def
      split: sum.splits option.splits)

lemma free_4kb_out_of_range: "unlocked s \<Longrightarrow> length (pages s) \<le> p \<Longrightarrow> free_4kb p s = Inr s"
  by (elim unlocked_cases) (simp add: free_4kb_def free_4kb_insert_def lock_exec access_exec)

lemma free_4kb_already:
  "unlocked s \<Longrightarrow> p < length (pages s) \<Longrightarrow> state (pages s ! p) = Free4KB \<Longrightarrow> free_4kb p s = Inr s"
  by (elim unlocked_cases) (simp add: free_4kb_def free_4kb_insert_def lock_exec access_exec)

lemma free_4kb_insert_exec:
  assumes "unlocked s" and "p < length (pages s)" and "state (pages s ! p) \<noteq> Free4KB"
    and "sp = p div PAGES_PER_2MB * PAGES_PER_2MB"
    and "ps = (pages s)[p := (pages s ! p)\<lparr>state := Free4KB\<rparr>]"
    and "ps' = ps[sp := (ps ! sp)\<lparr>counter := saturating_add (counter (ps ! sp)) 1\<rparr>]"
    and "link_front_checked p (head_4kb s) ps' = Inr (ps'', h)"
  shows "free_4kb_insert p s =
    Inr (counter (ps' ! sp) = of_nat PAGES_PER_2MB, set_head_4kb h (set_pages ps'' s))"
proof -
  have sp: "sp < length (pages s)" using assms(2,4) by (metis div_times_less_eq_dividend le_less_trans)
  show ?thesis
    using assms sp
    by (elim unlocked_cases) (simp add: free_4kb_insert_def modify_page_def lock_exec access_exec)
qed

lemma free_2mb_out_of_range:
  "unlocked s \<Longrightarrow> length (pages s) \<le> p div PAGES_PER_2MB * PAGES_PER_2MB \<Longrightarrow> free_2mb p s = Inl IndexOutOfBounds"
  by (elim unlocked_cases) (simp add: free_2mb_def lock_exec access_exec)

lemma free_2mb_exec:
  assumes "unlocked s" and "sp = p div PAGES_PER_2MB * PAGES_PER_2MB" and "sp < length (pages s)"
    and "state (pages s ! sp) \<noteq> Free2MB"
    and "link_front sp (head_2mb s)
       ((pages s)[sp := (pages s ! sp)\<lparr>state := Free2MB, counter := of_nat PAGES_PER_2MB\<rparr>]) = Inr (ps, h)"
  shows "free_2mb p s = Inr (set_head_2mb h (set_pages ps s))"
  using assms by (elim unlocked_cases) (simp add: free_2mb_def modify_page_def lock_exec access_exec)

end
