(* ===== verification/Page_Spec.thy ===== *)
theory Page_Spec
  imports Page_Exec
begin

text \<open>
  What the page allocator promises. The abstract state \<^verbatim>\<open>frames\<close> says which 4KB frames and which 2MB
  superpages are free (in the order they will be handed out), which are owned by callers, and how
  many free 4KB frames each superpage is credited with. The abstract operations work on this state
  alone; the predicate \<^verbatim>\<open>wf_frames\<close> says that no frame has two roles.
\<close>

section \<open>Abstract state\<close>

record frames =
  free4 :: "usize list"
  free2 :: "usize list"
  used4 :: "usize set"
  used2 :: "usize set"
  credit :: "usize \<Rightarrow> nat"

definition sp_of :: "usize \<Rightarrow> usize" where
  "sp_of p = p div PAGES_PER_2MB * PAGES_PER_2MB"

definition block :: "usize \<Rightarrow> usize set" where
  "block h = {h..<h + PAGES_PER_2MB}"

abbreviation small :: "frames \<Rightarrow> usize set" where
  "small a \<equiv> set (free4 a) \<union> used4 a"

abbreviation large :: "frames \<Rightarrow> usize set" where
  "large a \<equiv> set (free2 a) \<union> used2 a"

definition free_in :: "frames \<Rightarrow> usize \<Rightarrow> usize set" where
  "free_in a h = {p \<in> set (free4 a). sp_of p = h}"

text \<open>
  \<open>wf_frames lo n a\<close>: every frame lies between \<open>lo\<close> and \<open>n\<close>, superpages are aligned, no frame is both
  free and owned, no 4KB frame lies in a superpage that is kept whole, and no superpage is credited
  with more free frames than it has.
\<close>

definition wf_frames :: "usize \<Rightarrow> usize \<Rightarrow> frames \<Rightarrow> bool" where
  "wf_frames lo n a \<longleftrightarrow>
     PAGES_PER_2MB dvd n \<and> n * PAGE_SIZE_4KB < usize_limit \<and>
     distinct (free4 a) \<and> distinct (free2 a) \<and>
     set (free4 a) \<inter> used4 a = {} \<and> set (free2 a) \<inter> used2 a = {} \<and>
     (\<forall>p\<in>small a. lo \<le> p \<and> p < n \<and> sp_of p \<notin> large a) \<and>
     (\<forall>h\<in>large a. lo \<le> h \<and> h < n \<and> PAGES_PER_2MB dvd h) \<and>
     (\<forall>h. h \<notin> large a \<longrightarrow> credit a h \<le> card (free_in a h))"

lemma wf_D:
  assumes "wf_frames lo n a"
  shows "PAGES_PER_2MB dvd n" "n * PAGE_SIZE_4KB < usize_limit" "distinct (free4 a)" "distinct (free2 a)"
    "set (free4 a) \<inter> used4 a = {}" "set (free2 a) \<inter> used2 a = {}"
    "p \<in> small a \<Longrightarrow> lo \<le> p" "p \<in> small a \<Longrightarrow> p < n" "p \<in> small a \<Longrightarrow> sp_of p \<notin> large a"
    "h \<in> large a \<Longrightarrow> lo \<le> h" "h \<in> large a \<Longrightarrow> h < n" "h \<in> large a \<Longrightarrow> PAGES_PER_2MB dvd h"
    "k \<notin> large a \<Longrightarrow> credit a k \<le> card (free_in a k)"
  using assms unfolding wf_frames_def by blast+

section \<open>Abstract operations\<close>

definition spec_alloc_2mb :: "frames \<Rightarrow> usize option \<times> frames" where
  "spec_alloc_2mb a = (case free2 a of
       [] \<Rightarrow> (None, a)
     | h # hs \<Rightarrow> (Some h, a\<lparr>free2 := hs, used2 := insert h (used2 a)\<rparr>))"

definition spec_split :: "frames \<Rightarrow> frames" where
  "spec_split a = (case free2 a of
       [] \<Rightarrow> a
     | h # hs \<Rightarrow> a\<lparr>free2 := hs, free4 := rev [h..<h + PAGES_PER_2MB] @ free4 a,
                    credit := (credit a)(h := PAGES_PER_2MB)\<rparr>)"

definition spec_take :: "frames \<Rightarrow> usize option \<times> frames" where
  "spec_take a = (case free4 a of
       [] \<Rightarrow> (None, a)
     | p # ps \<Rightarrow> (Some p, a\<lparr>free4 := ps, used4 := insert p (used4 a),
                             credit := (credit a)(sp_of p := credit a (sp_of p) - 1)\<rparr>))"

definition spec_alloc_4kb :: "frames \<Rightarrow> usize option \<times> frames" where
  "spec_alloc_4kb a = spec_take (if free4 a = [] then spec_split a else a)"

definition spec_merge :: "usize \<Rightarrow> frames \<Rightarrow> frames" where
  "spec_merge h a = a\<lparr>free4 := filter (\<lambda>q. sp_of q \<noteq> h) (free4 a), free2 := h # free2 a\<rparr>"

definition spec_give :: "usize \<Rightarrow> frames \<Rightarrow> frames" where
  "spec_give p a = a\<lparr>free4 := p # free4 a, used4 := used4 a - {p},
                       credit := (credit a)(sp_of p := Suc (credit a (sp_of p)))\<rparr>"

definition spec_free_4kb :: "usize \<Rightarrow> frames \<Rightarrow> frames" where
  "spec_free_4kb p a =
     (let b = spec_give p a in if credit b (sp_of p) = PAGES_PER_2MB then spec_merge (sp_of p) b else b)"

definition spec_free_2mb :: "usize \<Rightarrow> frames \<Rightarrow> frames" where
  "spec_free_2mb h a = a\<lparr>free2 := h # free2 a, used2 := used2 a - {h}\<rparr>"

section \<open>Superpages\<close>

lemma sp_of_dvd [simp]: "PAGES_PER_2MB dvd sp_of p"
  by (simp add: sp_of_def)

lemma sp_of_le: "sp_of p \<le> p"
  by (simp add: sp_of_def)

lemma sp_of_aligned: "PAGES_PER_2MB dvd h \<Longrightarrow> sp_of h = h"
  by (simp add: sp_of_def)

lemma sp_of_idem [simp]: "sp_of (sp_of p) = sp_of p"
  by (simp add: sp_of_aligned)

lemma sp_of_eq_iff: "PAGES_PER_2MB dvd h \<Longrightarrow> sp_of p = h \<longleftrightarrow> p \<in> block h"
  by (auto simp: sp_of_def block_def page_consts elim!: dvdE)

lemma block_in_range: "PAGES_PER_2MB dvd n \<Longrightarrow> PAGES_PER_2MB dvd h \<Longrightarrow> h < n \<Longrightarrow> h + PAGES_PER_2MB \<le> n"
  by (auto simp: page_consts elim!: dvdE)

lemma card_block [simp]: "card (block h) = PAGES_PER_2MB"
  by (simp add: block_def)

lemma set_block_list: "set [h..<h + PAGES_PER_2MB] = block h"
  by (auto simp: block_def)

lemma mem_block_self [simp]: "h \<in> block h"
  by (simp add: block_def page_consts)

lemma free_in_finite [simp]: "finite (free_in a h)"
  by (simp add: free_in_def)

lemma free_in_subset_block: "PAGES_PER_2MB dvd h \<Longrightarrow> free_in a h \<subseteq> block h"
  by (auto simp: free_in_def sp_of_eq_iff)

text \<open>A superpage with full credit has all of its frames free.\<close>

lemma full_credit:
  assumes "wf_frames lo n a" and "PAGES_PER_2MB dvd h" and "h \<notin> large a" and "credit a h = PAGES_PER_2MB"
  shows "block h \<subseteq> set (free4 a)"
proof -
  have "PAGES_PER_2MB \<le> card (free_in a h)"
    using assms by (auto simp: wf_frames_def)
  then have "free_in a h = block h"
    using free_in_subset_block [OF assms(2)] by (intro card_seteq) (auto simp: block_def)
  then show ?thesis by (auto simp: free_in_def)
qed

section \<open>The abstract operations keep the abstract invariant\<close>

lemma wf_spec_alloc_2mb: "wf_frames lo n a \<Longrightarrow> wf_frames lo n (snd (spec_alloc_2mb a))"
  by (cases "free2 a") (auto simp: spec_alloc_2mb_def wf_frames_def free_in_def)

lemma wf_spec_free_2mb: "wf_frames lo n a \<Longrightarrow> h \<in> used2 a \<Longrightarrow> wf_frames lo n (spec_free_2mb h a)"
  by (auto simp: spec_free_2mb_def wf_frames_def free_in_def)

lemma free_in_Cons: "free_in (a\<lparr>free4 := p # ps\<rparr>) h =
    (if sp_of p = h then insert p (free_in (a\<lparr>free4 := ps\<rparr>) h) else free_in (a\<lparr>free4 := ps\<rparr>) h)"
  by (auto simp: free_in_def)

lemma free_in_more [simp]:
  "free_in (a\<lparr>free2 := x\<rparr>) = free_in a" "free_in (a\<lparr>used2 := y\<rparr>) = free_in a"
  "free_in (a\<lparr>used4 := y\<rparr>) = free_in a" "free_in (a\<lparr>credit := c\<rparr>) = free_in a"
  by (auto simp: free_in_def)


lemma wf_spec_take:
  assumes "wf_frames lo n a"
  shows "wf_frames lo n (snd (spec_take a))"
proof (cases "free4 a")
  case Nil
  then show ?thesis using assms by (simp add: spec_take_def)
next
  case (Cons p ps)
  let ?b = "snd (spec_take a)"
  have fi: "free_in a (sp_of p) = insert p (free_in ?b (sp_of p))" "p \<notin> free_in ?b (sp_of p)"
    "h \<noteq> sp_of p \<Longrightarrow> free_in a h = free_in ?b h" for h
    using Cons assms by (auto simp: spec_take_def free_in_def wf_frames_def)
  then have "card (free_in a (sp_of p)) = Suc (card (free_in ?b (sp_of p)))"
    by simp
  moreover have "large ?b = large a" "credit ?b = (credit a)(sp_of p := credit a (sp_of p) - 1)"
    using Cons by (simp_all add: spec_take_def)
  ultimately have "\<forall>h. h \<notin> large ?b \<longrightarrow> credit ?b h \<le> card (free_in ?b h)"
    using assms fi(3) unfolding wf_frames_def by (metis diff_Suc_1 diff_le_mono fun_upd_apply)
  moreover have "distinct (free4 ?b)" "set (free4 ?b) \<inter> used4 ?b = {}" "small ?b = small a" "free2 ?b = free2 a" "used2 ?b = used2 a"
    using Cons assms by (auto simp: spec_take_def wf_frames_def)
  ultimately show ?thesis using assms unfolding wf_frames_def by simp
qed

lemma wf_large_disjoint:
  assumes "wf_frames lo n a" and "h \<in> large a"
  shows "block h \<inter> small a = {}"
proof -
  have h: "PAGES_PER_2MB dvd h" using assms unfolding wf_frames_def by blast
  have "sp_of p \<noteq> h" if "p \<in> small a" for p
    using assms that unfolding wf_frames_def by blast
  then show ?thesis using h by (auto simp: sp_of_eq_iff)
qed

lemma wf_spec_split:
  assumes "wf_frames lo n a"
  shows "wf_frames lo n (spec_split a)"
proof (cases "free2 a")
  case Nil
  then show ?thesis using assms by (simp add: spec_split_def)
next
  case (Cons h hs)
  let ?b = "spec_split a"
  have h: "PAGES_PER_2MB dvd h" "lo \<le> h" "h < n" "h \<notin> set hs" "h \<notin> used2 a" "h + PAGES_PER_2MB \<le> n"
    using Cons assms by (auto simp: wf_frames_def intro: block_in_range)
  have disj: "block h \<inter> small a = {}"
    using wf_large_disjoint [OF assms] Cons by simp
  have b: "set (free4 ?b) = block h \<union> set (free4 a)" "used4 ?b = used4 a" "free2 ?b = hs" "used2 ?b = used2 a"
    "credit ?b = (credit a)(h := PAGES_PER_2MB)" "distinct (free4 ?b)"
    using Cons assms disj unfolding block_def by (auto simp: spec_split_def wf_frames_def)
  have small: "lo \<le> p \<and> p < n \<and> sp_of p \<notin> large ?b" if "p \<in> small ?b" for p
  proof (cases "p \<in> block h")
    case True
    then have "sp_of p = h" using h(1) by (simp add: sp_of_eq_iff)
    then show ?thesis using True h b by (auto simp: block_def)
  next
    case False
    then show ?thesis using that b assms Cons by (auto simp: wf_frames_def)
  qed
  have "credit ?b k \<le> card (free_in ?b k)" if "k \<notin> large ?b" for k
  proof (cases "k = h")
    case True
    have "block h \<subseteq> free_in ?b h" using b h(1) by (auto simp: free_in_def sp_of_eq_iff)
    then have "card (block h) \<le> card (free_in ?b h)" by (rule card_mono [OF free_in_finite])
    then show ?thesis using True b by simp
  next
    case False
    then have "credit a k \<le> card (free_in a k)" using that b Cons assms by (auto simp: wf_frames_def)
    also have "\<dots> \<le> card (free_in ?b k)" using b by (intro card_mono [OF free_in_finite]) (auto simp: free_in_def)
    finally show ?thesis using False b by simp
  qed
  moreover have "\<forall>k\<in>large ?b. lo \<le> k \<and> k < n \<and> PAGES_PER_2MB dvd k"
    using b Cons assms by (auto simp: wf_frames_def)
  moreover have "distinct (free2 ?b)" "set (free2 ?b) \<inter> used2 ?b = {}" "set (free4 ?b) \<inter> used4 ?b = {}"
    using b Cons assms disj by (auto simp: wf_frames_def)
  ultimately show ?thesis using assms b small unfolding wf_frames_def by blast
qed

lemma wf_spec_alloc_4kb: "wf_frames lo n a \<Longrightarrow> wf_frames lo n (snd (spec_alloc_4kb a))"
  by (simp add: spec_alloc_4kb_def wf_spec_take wf_spec_split)

lemma wf_spec_give:
  assumes "wf_frames lo n a" and "p \<in> used4 a"
  shows "wf_frames lo n (spec_give p a)"
proof -
  let ?b = "spec_give p a"
  have "p \<notin> set (free4 a)" using assms by (auto simp: wf_frames_def)
  then have fi: "card (free_in ?b (sp_of p)) = Suc (card (free_in a (sp_of p)))"
    "h \<noteq> sp_of p \<Longrightarrow> free_in ?b h = free_in a h" for h
  proof -
    have "free_in ?b (sp_of p) = insert p (free_in a (sp_of p))" "p \<notin> free_in a (sp_of p)"
      using \<open>p \<notin> set (free4 a)\<close> by (auto simp: spec_give_def free_in_def)
    then show "card (free_in ?b (sp_of p)) = Suc (card (free_in a (sp_of p)))" by simp
  qed (auto simp: spec_give_def free_in_def)
  have b: "large ?b = large a" "credit ?b = (credit a)(sp_of p := Suc (credit a (sp_of p)))" "small ?b = small a"
    using assms(2) by (auto simp: spec_give_def)
  then have "\<forall>h. h \<notin> large ?b \<longrightarrow> credit ?b h \<le> card (free_in ?b h)"
    using assms(1) fi unfolding wf_frames_def by (metis Suc_le_mono fun_upd_apply)
  moreover have "distinct (free4 ?b)" "set (free4 ?b) \<inter> used4 ?b = {}" "free2 ?b = free2 a" "used2 ?b = used2 a"
    using assms by (auto simp: spec_give_def wf_frames_def)
  ultimately show ?thesis using assms(1) b unfolding wf_frames_def by simp
qed

lemma wf_spec_merge:
  assumes "wf_frames lo n a" and "PAGES_PER_2MB dvd h" and "h \<notin> large a" and "block h \<subseteq> set (free4 a)"
  shows "wf_frames lo n (spec_merge h a)"
proof -
  let ?b = "spec_merge h a"
  have "h \<in> set (free4 a)" using assms(4) by auto
  then have h: "lo \<le> h" "h < n" using assms(1) by (auto simp: wf_frames_def)
  have b: "used4 ?b = used4 a" "used2 ?b = used2 a" "free2 ?b = h # free2 a" "credit ?b = credit a"
    "set (free4 ?b) = set (free4 a) - block h" "distinct (free4 ?b)"
    using assms(1,2) by (auto simp: spec_merge_def sp_of_eq_iff wf_frames_def)
  have "used4 a \<inter> block h = {}" using assms(1,4) by (auto simp: wf_frames_def)
  then have small: "\<forall>p\<in>small ?b. lo \<le> p \<and> p < n \<and> sp_of p \<notin> large ?b"
    using b assms(1,2) by (auto simp: wf_frames_def sp_of_eq_iff)
  have "free_in ?b k = free_in a k" if "k \<noteq> h" for k
    using that by (auto simp: spec_merge_def free_in_def)
  then have "\<forall>k. k \<notin> large ?b \<longrightarrow> credit ?b k \<le> card (free_in ?b k)"
    using b assms(1) by (auto simp: wf_frames_def)
  moreover have "\<forall>k\<in>large ?b. lo \<le> k \<and> k < n \<and> PAGES_PER_2MB dvd k"
    using b h assms(1,2) by (auto simp: wf_frames_def)
  moreover have "distinct (free2 ?b)" "set (free2 ?b) \<inter> used2 ?b = {}" "set (free4 ?b) \<inter> used4 ?b = {}"
    using b assms(1,3) by (auto simp: wf_frames_def)
  ultimately show ?thesis using assms(1) b small unfolding wf_frames_def by blast
qed

lemma spec_give_merge_ready:
  assumes "wf_frames lo n a" and "p \<in> used4 a" and "credit (spec_give p a) (sp_of p) = PAGES_PER_2MB"
  shows "sp_of p \<notin> large (spec_give p a)" and "block (sp_of p) \<subseteq> set (free4 (spec_give p a))"
proof -
  have "sp_of p \<notin> large a" using assms(1,2) by (auto simp: wf_frames_def)
  then show n: "sp_of p \<notin> large (spec_give p a)" by (simp add: spec_give_def)
  show "block (sp_of p) \<subseteq> set (free4 (spec_give p a))"
    using wf_spec_give [OF assms(1,2)] n assms(3) by (intro full_credit) auto
qed

lemma wf_spec_free_4kb:
  assumes "wf_frames lo n a" and "p \<in> used4 a"
  shows "wf_frames lo n (spec_free_4kb p a)"
proof (cases "credit (spec_give p a) (sp_of p) = PAGES_PER_2MB")
  case True
  with wf_spec_merge [OF wf_spec_give [OF assms] sp_of_dvd spec_give_merge_ready [OF assms True]]
  show ?thesis by (simp add: spec_free_4kb_def)
next
  case False
  with wf_spec_give [OF assms] show ?thesis by (simp add: spec_free_4kb_def)
qed

end
