(* ===== verification/Page_Refine.thy ===== *)
theory Page_Refine
  imports Page_Spec
begin

text \<open>
  The page allocator implements its abstract specification. \<^verbatim>\<open>rep lo s a\<close> relates a concrete state to an
  abstract one: the two linked lists hold exactly the free frames in their order, the metadata
  agree with the roles, and no lock is held. Each operation of the allocator, started in related
  states, terminates without a panic and ends in related states.
\<close>

section \<open>The representation relation\<close>

definition meta_ok :: "page_slice \<Rightarrow> frames \<Rightarrow> bool" where
  "meta_ok ps a \<longleftrightarrow>
     (\<forall>p\<in>set (free4 a). state (ps ! p) = Free4KB) \<and>
     (\<forall>h\<in>set (free2 a). state (ps ! h) = Free2MB) \<and>
     (\<forall>p\<in>used4 a \<union> used2 a. state (ps ! p) = Allocated) \<and>
     (\<forall>p<length ps. state (ps ! p) = Free4KB \<longrightarrow> sp_of p \<notin> large a \<longrightarrow> p \<in> set (free4 a)) \<and>
     (\<forall>h<length ps. PAGES_PER_2MB dvd h \<longrightarrow> h \<notin> large a \<longrightarrow> unat (counter (ps ! h)) = credit a h)"

definition rep :: "usize \<Rightarrow> page_allocator \<Rightarrow> frames \<Rightarrow> bool" where
  "rep lo s a \<longleftrightarrow> unlocked s \<and> wf_frames lo (length (pages s)) a \<and>
     dll (pages s) (head_4kb s) (free4 a) \<and> dll (pages s) (head_2mb s) (free2 a) \<and> meta_ok (pages s) a"

text \<open>What an operation leaves alone: the processor's flags, the kernel's end and the array's size.\<close>

definition same_env :: "page_allocator \<Rightarrow> page_allocator \<Rightarrow> bool" where
  "same_env s t \<longleftrightarrow> rflags t = rflags s \<and> kernel_end t = kernel_end s \<and> length (pages t) = length (pages s)"

lemma same_env_refl [simp]: "same_env s s"
  by (simp add: same_env_def)

lemma same_env_trans: "same_env s t \<Longrightarrow> same_env t u \<Longrightarrow> same_env s u"
  by (simp add: same_env_def)

lemma meta_okI:
  assumes "\<And>p. p \<in> set (free4 a) \<Longrightarrow> state (ps ! p) = Free4KB"
    and "\<And>h. h \<in> set (free2 a) \<Longrightarrow> state (ps ! h) = Free2MB"
    and "\<And>p. p \<in> used4 a \<Longrightarrow> state (ps ! p) = Allocated"
    and "\<And>p. p \<in> used2 a \<Longrightarrow> state (ps ! p) = Allocated"
    and "\<And>p. p < length ps \<Longrightarrow> state (ps ! p) = Free4KB \<Longrightarrow> sp_of p \<notin> large a \<Longrightarrow> p \<in> set (free4 a)"
    and "\<And>h. h < length ps \<Longrightarrow> PAGES_PER_2MB dvd h \<Longrightarrow> h \<notin> large a \<Longrightarrow> unat (counter (ps ! h)) = credit a h"
  shows "meta_ok ps a"
  using assms unfolding meta_ok_def by blast

lemma meta_okD:
  assumes "meta_ok ps a"
  shows "p \<in> set (free4 a) \<Longrightarrow> state (ps ! p) = Free4KB"
    "p \<in> set (free2 a) \<Longrightarrow> state (ps ! p) = Free2MB"
    "p \<in> used4 a \<Longrightarrow> state (ps ! p) = Allocated"
    "p \<in> used2 a \<Longrightarrow> state (ps ! p) = Allocated"
    "p < length ps \<Longrightarrow> state (ps ! p) = Free4KB \<Longrightarrow> sp_of p \<notin> large a \<Longrightarrow> p \<in> set (free4 a)"
    "p < length ps \<Longrightarrow> PAGES_PER_2MB dvd p \<Longrightarrow> p \<notin> large a \<Longrightarrow> unat (counter (ps ! p)) = credit a p"
  using assms unfolding meta_ok_def by blast+

lemma meta_ok_same_meta:
  assumes "meta_ok ps a" and "same_meta ps ps'" and "\<And>p. p \<in> small a \<union> large a \<Longrightarrow> p < length ps"
  shows "meta_ok ps' a"
proof -
  note st = same_meta_nth(1) [OF assms(2)] and len = same_meta_length [OF assms(2)]
  show ?thesis
  proof (rule meta_okI, goal_cases)
    case (1 p)
    then show ?case using meta_okD(1) [OF assms(1)] st assms(3) by simp
  next
    case (2 p)
    then show ?case using meta_okD(2) [OF assms(1)] st assms(3) by simp
  next
    case (3 p)
    then show ?case using meta_okD(3) [OF assms(1)] st assms(3) by simp
  next
    case (4 p)
    then show ?case using meta_okD(4) [OF assms(1)] st assms(3) by simp
  next
    case (5 p)
    then show ?case using meta_okD(5) [OF assms(1), of p] st [of p] len by simp
  next
    case (6 p)
    then show ?case using meta_okD(6) [OF assms(1), of p] same_meta_nth(2) [OF assms(2), of p] len by simp
  qed
qed

lemma repD:
  assumes "rep lo s a"
  shows "unlocked s" "wf_frames lo (length (pages s)) a" "dll (pages s) (head_4kb s) (free4 a)"
    "dll (pages s) (head_2mb s) (free2 a)" "meta_ok (pages s) a"
  using assms by (auto simp: rep_def)

lemma wf_small_large:
  assumes "wf_frames lo n a" and "p \<in> small a"
  shows "p \<notin> large a"
proof
  assume "p \<in> large a"
  then have "sp_of p \<in> large a" using wf_D(12) [OF assms(1)] by (metis sp_of_aligned)
  then show False using wf_D(9) [OF assms] by blast
qed

lemma wf_range: "wf_frames lo n a \<Longrightarrow> p \<in> small a \<union> large a \<Longrightarrow> p < n"
  using wf_D(8,11) by (metis UnE)

lemma wf_no_overflow:
  assumes "wf_frames lo n a" and "p < n"
  shows "p * PAGE_SIZE_4KB < usize_limit"
proof -
  have "p * PAGE_SIZE_4KB \<le> n * PAGE_SIZE_4KB" using assms(2) by simp
  then show ?thesis using wf_D(2) [OF assms(1)] by linarith
qed

section \<open>Allocating a 2MB page\<close>

lemma alloc_2mb_refines:
  assumes "rep lo s a"
  shows "\<exists>t. alloc_2mb s = Inr (map_option (\<lambda>h. h * PAGE_SIZE_4KB) (fst (spec_alloc_2mb a)), t) \<and>
    rep lo t (snd (spec_alloc_2mb a)) \<and> same_env s t"
proof (cases "free2 a")
  case Nil
  then have "head_2mb s = None" using assms by (simp add: rep_def)
  then show ?thesis using assms Nil by (simp add: rep_def alloc_2mb_empty spec_alloc_2mb_def)
next
  case (Cons h hs)
  note wf = repD(2) [OF assms] and m = repD(5) [OF assms]
  have head: "head_2mb s = Some h" using repD(4) [OF assms] Cons by (auto dest: dll_head_iff)
  then have "dll (pages s) (Some h) (h # hs)" using repD(4) [OF assms] Cons by simp
  from unlink_front_ok [OF this] obtain ps h' where
    1: "unlink_front h (pages s) = Inr (ps, h')" "dll ps h' hs" "same_links (- set hs) (pages s) ps" "same_meta (pages s) ps"
    by blast
  have h: "h < length (pages s)" "h \<notin> set hs" "h \<notin> used2 a" "h \<notin> set (free4 a)" "set (free4 a) \<subseteq> - set hs"
    using wf_range [OF wf, of h] wf_D(4,6) [OF wf] wf_small_large [OF wf] Cons by auto
  have len: "length ps = length (pages s)" using 1(4) by (rule same_meta_length)
  let ?ps = "ps[h := taken (ps ! h)]"
  let ?t = "set_head_2mb h' (set_pages ?ps s)"
  have "alloc_2mb s = Inr (Some (h * PAGE_SIZE_4KB), ?t)"
    using repD(1) [OF assms] head 1(1) h(1) len wf_no_overflow [OF wf] by (intro alloc_2mb_exec) simp_all
  moreover have "dll ?ps h' hs"
    using h(2) 1(2) by (intro dll_same_links [OF same_links_update]) auto
  moreover have "dll ?ps (head_4kb s) (free4 a)"
  proof (rule dll_same_links [OF _ repD(3) [OF assms]])
    have "same_links (set (free4 a)) (pages s) ps"
      using 1(3) h(5) by (rule same_links_mono)
    then show "same_links (set (free4 a)) (pages s) ?ps"
      using h(4) by (auto intro: same_links_trans same_links_update)
  qed
  moreover have "meta_ok ?ps (snd (spec_alloc_2mb a))"
  proof -
    have "meta_ok ps a"
      using m 1(4) wf_range [OF wf] by (auto intro: meta_ok_same_meta)
    note mD = meta_okD [OF this]
    have b: "snd (spec_alloc_2mb a) = a\<lparr>free2 := hs, used2 := insert h (used2 a)\<rparr>"
      using Cons by (simp add: spec_alloc_2mb_def)
    have r: "p < length ps" if "p \<in> small a \<union> large a" for p
      using wf_range [OF wf that] len by simp
    have n: "p \<noteq> h" if "p \<in> small a" for p
      using wf_small_large [OF wf that] Cons by auto
    show ?thesis unfolding b
    proof (rule meta_okI, goal_cases)
      case (1 p)
      then show ?case using mD(1) [of p] n [of p] r [of p] by simp
    next
      case (2 p)
      then show ?case using mD(2) [of p] h(2) r [of p] Cons by auto
    next
      case (3 p)
      then show ?case using mD(3) [of p] n [of p] r [of p] by simp
    next
      case (4 p)
      then show ?case using mD(4) [of p] r [of p] r [of h] Cons by (auto simp: taken_def)
    next
      case (5 p)
      then show ?case using mD(5) [of p] Cons by (auto simp: taken_def split: if_splits)
    next
      case (6 p)
      then show ?case using mD(6) [of p] Cons by auto
    qed
  qed
  moreover have "wf_frames lo (length ?ps) (snd (spec_alloc_2mb a))"
    using wf_spec_alloc_2mb [OF wf] len by simp
  ultimately have "alloc_2mb s = Inr (map_option (\<lambda>h. h * PAGE_SIZE_4KB) (fst (spec_alloc_2mb a)), ?t)"
    and "rep lo ?t (snd (spec_alloc_2mb a))"
    using repD(1) [OF assms] Cons by (simp_all add: rep_def spec_alloc_2mb_def)
  moreover have "same_env s ?t" using len by (simp add: same_env_def)
  ultimately show ?thesis by blast
qed

section \<open>Allocating a 4KB page\<close>

lemma sp_of_small_range: "p < n \<Longrightarrow> sp_of p < n"
  using sp_of_le by (rule le_less_trans)

lemma alloc_4kb_take_refines:
  assumes "rep lo s a" and "free4 a = p # ps4"
  shows "\<exists>t. alloc_4kb s = Inr (Some (p * PAGE_SIZE_4KB), t) \<and> rep lo t (snd (spec_take a)) \<and> same_env s t"
proof -
  note wf = repD(2) [OF assms(1)]
  let ?sp = "sp_of p"
  have head: "head_4kb s = Some p" using repD(3) [OF assms(1)] assms(2) by (auto dest: dll_head_iff)
  then have "dll (pages s) (Some p) (p # ps4)" using repD(3) [OF assms(1)] assms(2) by simp
  from unlink_front_ok [OF this] obtain ps h where
    1: "unlink_front p (pages s) = Inr (ps, h)" "dll ps h ps4" "same_links (- set ps4) (pages s) ps" "same_meta (pages s) ps"
    by blast
  have len: "length ps = length (pages s)" using 1(4) by (rule same_meta_length)
  have p: "p < length ps" "p \<notin> set ps4" "p \<notin> used4 a" "p \<notin> large a" "?sp < length ps" "?sp \<notin> large a"
    using wf_range [OF wf, of p] wf_D(3,5) [OF wf] wf_D(9) [OF wf, of p] wf_small_large [OF wf, of p] assms(2) len
    by (auto intro: sp_of_small_range)
  define qs where "qs = ps[p := taken (ps ! p)]"
  define rs where "rs = qs[?sp := (qs ! ?sp)\<lparr>counter := saturating_sub (counter (qs ! ?sp)) 1\<rparr>]"
  let ?t = "set_head_4kb h (set_pages rs s)"
  have run: "alloc_4kb s = Inr (Some (p * PAGE_SIZE_4KB), ?t)"
    using alloc_4kb_exec [OF repD(1) [OF assms(1)] head 1(1) p(1) wf_no_overflow [OF wf] sp_of_def] p(1) len
    unfolding rs_def qs_def Let_def by simp
  have st: "state (rs ! x) = (if x = p then Allocated else state (ps ! x))"
    and ct: "counter (rs ! x) = (if x = ?sp then saturating_sub (counter (ps ! x)) 1 else counter (ps ! x))"
    if "x < length ps" for x
    using that p(1,5) by (simp_all add: rs_def qs_def taken_def)
  have lenr: "length rs = length ps" by (simp add: rs_def qs_def)
  have lk: "same_links (- {p}) ps rs"
    using p(1,5) by (auto simp: same_links_def rs_def qs_def taken_def)
  have d4: "dll rs h ps4"
    using p(2) 1(2) by (intro dll_same_links [OF same_links_mono [OF lk]]) auto
  have d2: "dll rs (head_2mb s) (free2 a)"
  proof (rule dll_same_links [OF same_links_trans repD(4) [OF assms(1)]])
    show "same_links (set (free2 a)) (pages s) ps"
      using wf_small_large [OF wf] assms(2) by (intro same_links_mono [OF 1(3)]) auto
    show "same_links (set (free2 a)) ps rs"
      using p(4) by (intro same_links_mono [OF lk]) auto
  qed
  have "meta_ok ps a"
    using repD(5) [OF assms(1)] 1(4) wf_range [OF wf] by (rule meta_ok_same_meta)
  note mD = meta_okD [OF this]
  have b: "snd (spec_take a) = a\<lparr>free4 := ps4, used4 := insert p (used4 a),
      credit := (credit a)(?sp := credit a ?sp - 1)\<rparr>"
    using assms(2) by (simp add: spec_take_def)
  have r: "x < length ps" if "x \<in> small a \<union> large a" for x
    using wf_range [OF wf that] len by simp
  have "meta_ok rs (snd (spec_take a))" unfolding b
  proof (rule meta_okI, goal_cases)
    case (1 x)
    then show ?case using mD(1) [of x] st [of x] r [of x] p(2) assms(2) by auto
  next
    case (2 x)
    then show ?case using mD(2) [of x] st [of x] r [of x] p(4) by auto
  next
    case (3 x)
    then show ?case using mD(3) [of x] st [of x] r [of x] p(1) by auto
  next
    case (4 x)
    then show ?case using mD(4) [of x] st [of x] r [of x] p(4) by auto
  next
    case (5 x)
    then show ?case using mD(5) [of x] st [of x] lenr assms(2) by (auto split: if_splits)
  next
    case (6 x)
    then show ?case using mD(6) [of x] ct [of x] lenr by (auto simp: unat_saturating_sub)
  qed
  moreover have "wf_frames lo (length rs) (snd (spec_take a))"
    using wf_spec_take [OF wf] len lenr by simp
  ultimately have "rep lo ?t (snd (spec_take a))"
    using repD(1) [OF assms(1)] d2 d4 by (simp add: rep_def b)
  moreover have "same_env s ?t" using len lenr by (simp add: same_env_def)
  ultimately show ?thesis using run by blast
qed

section \<open>Splitting a 2MB page\<close>

lemma split_loop_ok:
  assumes "dll ps head xs" and "block h \<inter> set xs = {}" and "h + PAGES_PER_2MB \<le> length ps"
  shows "\<exists>v. for_each [h..<h + PAGES_PER_2MB] split_link (ps, head) = Inr v \<and>
    dll (fst v) (snd v) (rev [h..<h + PAGES_PER_2MB] @ xs) \<and> length (fst v) = length ps \<and>
    same_links (- (block h \<union> set xs)) ps (fst v) \<and>
    (\<forall>x<length ps. state (fst v ! x) = (if x \<in> block h then Free4KB else state (ps ! x)) \<and>
                   counter (fst v ! x) = counter (ps ! x))"
proof -
  let ?P = "\<lambda>done v. dll (fst v) (snd v) (rev done @ xs) \<and> length (fst v) = length ps \<and>
    same_links (- (set done \<union> set xs)) ps (fst v) \<and>
    (\<forall>x<length ps. state (fst v ! x) = (if x \<in> set done then Free4KB else state (ps ! x)) \<and>
                   counter (fst v ! x) = counter (ps ! x))"
  have "\<exists>v. for_each [h..<h + PAGES_PER_2MB] split_link (ps, head) = Inr v \<and> ?P [h..<h + PAGES_PER_2MB] v"
  proof (rule for_each_invariant)
    show "?P [] (ps, head)" using assms(1) by simp
  next
    fix "done" x rest and v :: free_pages
    assume eq: "[h..<h + PAGES_PER_2MB] = done @ x # rest" and P: "?P done v"
    have "x \<in> block h" using arg_cong [OF eq, of set] by (auto simp: block_def)
    moreover have "x \<notin> set done" using arg_cong [OF eq, of distinct] by auto
    ultimately have x: "x < length (fst v)" "x \<notin> set (rev done @ xs)"
      using assms(2,3) P by (auto simp: block_def)
    let ?qs = "(fst v)[x := (fst v ! x)\<lparr>state := Free4KB\<rparr>]"
    have "dll ?qs (snd v) (rev done @ xs)"
      using P by (intro dll_same_links [OF same_links_update]) auto
    from link_front_ok [OF this _ x(2)] x(1) obtain rs where
      rs: "link_front x (snd v) ?qs = Inr (rs, Some x)" "dll rs (Some x) (x # rev done @ xs)"
        "same_links (- insert x (set (rev done @ xs))) ?qs rs" "same_meta ?qs rs"
      by auto
    have "split_link x v = Inr (rs, Some x)"
      using x(1) rs(1) by (simp add: split_link_def)
    moreover have "same_links (- (set (done @ [x]) \<union> set xs)) ps rs"
    proof (rule same_links_trans)
      show "same_links (- (set (done @ [x]) \<union> set xs)) ps ?qs"
        using P by (auto simp: same_links_def)
      show "same_links (- (set (done @ [x]) \<union> set xs)) ?qs rs"
        by (rule same_links_mono [OF rs(3)]) auto
    qed
    moreover have "length rs = length ps" using same_meta_length [OF rs(4)] P by simp
    moreover have "\<forall>y<length ps. state (rs ! y) = (if y \<in> set (done @ [x]) then Free4KB else state (ps ! y)) \<and>
                   counter (rs ! y) = counter (ps ! y)"
      using same_meta_nth [OF rs(4)] P by auto
    ultimately show "\<exists>t. split_link x v = Inr t \<and> ?P (done @ [x]) t"
      using rs(2) by auto
  qed
  then show ?thesis by (simp add: set_block_list [symmetric] del: set_upt)
qed

lemma split_2mb_refines:
  assumes "rep lo s a" and "free2 a = h # hs"
  shows "\<exists>t. split_2mb s = Inr (Some (), t) \<and> rep lo t (spec_split a) \<and> same_env s t"
proof -
  note wf = repD(2) [OF assms(1)]
  have head: "head_2mb s = Some h" using repD(4) [OF assms(1)] assms(2) by (auto dest: dll_head_iff)
  then have "dll (pages s) (Some h) (h # hs)" using repD(4) [OF assms(1)] assms(2) by simp
  from unlink_front_ok [OF this] obtain ps h' where
    1: "unlink_front h (pages s) = Inr (ps, h')" "dll ps h' hs" "same_links (- set hs) (pages s) ps" "same_meta (pages s) ps"
    by blast
  have len: "length ps = length (pages s)" using 1(4) by (rule same_meta_length)
  have hl: "h \<in> large a" using assms(2) by simp
  have h: "h < length ps" "PAGES_PER_2MB dvd h" "h \<notin> set hs" "h \<notin> used2 a" "h + PAGES_PER_2MB \<le> length ps"
    using wf_D(4,6) [OF wf] wf_D(11,12) [OF wf hl] block_in_range [OF wf_D(1) [OF wf]] assms(2) len by auto
  have disj: "block h \<inter> small a = {}" using wf_large_disjoint [OF wf hl] .
  have hs: "block h \<inter> set hs = {}" "set hs \<inter> small a = {}"
  proof -
    have "x = h" if "x \<in> block h" "x \<in> set hs" for x
      using that h(2) wf_D(12) [OF wf, of x] assms(2) by (metis UnI1 list.set_intros(2) sp_of_aligned sp_of_eq_iff)
    then show "block h \<inter> set hs = {}" using h(3) by auto
    show "set hs \<inter> small a = {}" using wf_small_large [OF wf] assms(2) by auto
  qed
  define qs where "qs = ps[h := (ps ! h)\<lparr>counter := of_nat PAGES_PER_2MB\<rparr>]"
  have lk: "same_links UNIV ps qs" unfolding qs_def by (rule same_links_update) simp
  have dq: "dll qs (head_4kb s) (free4 a)"
  proof (rule dll_same_links [OF same_links_trans repD(3) [OF assms(1)]])
    show "same_links (set (free4 a)) (pages s) ps"
      using hs(2) by (intro same_links_mono [OF 1(3)]) auto
    show "same_links (set (free4 a)) ps qs" using lk by (rule same_links_mono) simp
  qed
  have lenq: "length qs = length ps" by (simp add: qs_def)
  have "block h \<inter> set (free4 a) = {}" "h + PAGES_PER_2MB \<le> length qs"
    using disj h(5) lenq by auto
  from split_loop_ok [OF dq this] obtain v where
    v: "for_each [h..<h + PAGES_PER_2MB] split_link (qs, head_4kb s) = Inr v"
      "dll (fst v) (snd v) (rev [h..<h + PAGES_PER_2MB] @ free4 a)" "length (fst v) = length ps"
      "same_links (- (block h \<union> set (free4 a))) qs (fst v)"
      "\<And>x. x < length ps \<Longrightarrow> state (fst v ! x) = (if x \<in> block h then Free4KB else state (qs ! x))"
      "\<And>x. x < length ps \<Longrightarrow> counter (fst v ! x) = counter (qs ! x)"
    unfolding lenq by blast
  let ?t = "put_free_part v (set_head_2mb h' s)"
  have run: "split_2mb s = Inr (Some (), ?t)"
    using split_2mb_exec [OF repD(1) [OF assms(1)] head 1(1) h(1)] v(1) unfolding qs_def by simp
  have b: "spec_split a = a\<lparr>free2 := hs, free4 := rev [h..<h + PAGES_PER_2MB] @ free4 a,
      credit := (credit a)(h := PAGES_PER_2MB)\<rparr>"
    using assms(2) by (simp add: spec_split_def)
  have d2: "dll (fst v) h' hs"
  proof (rule dll_same_links [OF same_links_trans 1(2)])
    show "same_links (set hs) ps qs" using lk by (rule same_links_mono) simp
    show "same_links (set hs) qs (fst v)" using hs by (intro same_links_mono [OF v(4)]) auto
  qed
  have "meta_ok ps a"
    using repD(5) [OF assms(1)] 1(4) wf_range [OF wf] by (rule meta_ok_same_meta)
  note mD = meta_okD [OF this]
  have r: "x < length ps" if "x \<in> small a \<union> large a" for x
    using wf_range [OF wf that] len by simp
  have sq: "state (qs ! x) = state (ps ! x)"
    and cq: "counter (qs ! x) = (if x = h then of_nat PAGES_PER_2MB else counter (ps ! x))" if "x < length ps" for x
    using that by (auto simp: qs_def)
  have "block h \<inter> used2 a = {}"
  proof -
    have "x = h" if "x \<in> block h" "x \<in> used2 a" for x
      using that h(2) wf_D(12) [OF wf, of x] by (metis UnI2 sp_of_aligned sp_of_eq_iff)
    then show ?thesis using h(4) by auto
  qed
  have "meta_ok (fst v) (spec_split a)" unfolding b
  proof (rule meta_okI, goal_cases)
    case (1 x)
    then show ?case using mD(1) [of x] v(5) [of x] sq [of x] r [of x] h(5) by (auto simp: block_def)
  next
    case (2 x)
    then show ?case using mD(2) [of x] v(5) [of x] sq [of x] r [of x] hs(1) assms(2) by auto
  next
    case (3 x)
    then show ?case using mD(3) [of x] v(5) [of x] sq [of x] r [of x] disj by auto
  next
    case (4 x)
    then show ?case using mD(4) [of x] v(5) [of x] sq [of x] r [of x] \<open>block h \<inter> used2 a = {}\<close> by auto
  next
    case (5 x)
    then show ?case
      using mD(5) [of x] v(3) v(5) [of x] sq [of x] sp_of_eq_iff [OF h(2), of x] assms(2)
      by (auto simp: block_def split: if_splits)
  next
    case (6 x)
    then show ?case using mD(6) [of x] v(3) v(6) [of x] cq [of x] assms(2) by (auto simp: page_consts)
  qed
  moreover have "wf_frames lo (length (fst v)) (spec_split a)"
    using wf_spec_split [OF wf] len v(3) by simp
  ultimately have "rep lo ?t (spec_split a)"
    using repD(1) [OF assms(1)] d2 v(2) by (simp add: rep_def b put_free_part_def)
  moreover have "same_env s ?t" using len v(3) by (simp add: same_env_def put_free_part_def)
  ultimately show ?thesis using run by blast
qed

lemma spec_split_free4:
  assumes "free2 a = h # hs"
  shows "free4 (spec_split a) = (h + 511) # rev [h..<h + 511] @ free4 a"
proof -
  have e: "h + PAGES_PER_2MB = Suc (h + 511)" by (simp add: page_consts)
  have "[h..<h + PAGES_PER_2MB] = [h..<h + 511] @ [h + 511]"
    unfolding e by (rule upt_Suc_append) simp
  then show ?thesis using assms by (simp add: spec_split_def)
qed

lemma alloc_4kb_refines:
  assumes "rep lo s a"
  shows "\<exists>t. alloc_4kb s = Inr (map_option (\<lambda>p. p * PAGE_SIZE_4KB) (fst (spec_alloc_4kb a)), t) \<and>
    rep lo t (snd (spec_alloc_4kb a)) \<and> same_env s t"
proof (cases "free4 a")
  case (Cons p ps)
  with alloc_4kb_take_refines [OF assms Cons] show ?thesis
    by (simp add: spec_alloc_4kb_def spec_take_def)
next
  case Nil
  then have e: "head_4kb s = None" using repD(3) [OF assms] by simp
  show ?thesis
  proof (cases "free2 a")
    case Nil2: Nil
    then have "head_2mb s = None" using repD(4) [OF assms] by simp
    then have "alloc_4kb s = Inr (None, s)"
      using alloc_4kb_empty [OF repD(1) [OF assms] e] by simp
    then show ?thesis
      using Nil Nil2 assms by (simp add: spec_alloc_4kb_def spec_split_def spec_take_def)
  next
    case (Cons h hs)
    then have h2: "head_2mb s = Some h" using repD(4) [OF assms] by (auto dest: dll_head_iff)
    from split_2mb_refines [OF assms Cons] obtain t where
      t: "split_2mb s = Inr (Some (), t)" "rep lo t (spec_split a)" "same_env s t" by blast
    from alloc_4kb_take_refines [OF t(2) spec_split_free4 [OF Cons]] obtain u where
      u: "alloc_4kb t = Inr (Some ((h + 511) * PAGE_SIZE_4KB), u)" "rep lo u (snd (spec_take (spec_split a)))" "same_env t u"
      by blast
    have "alloc_4kb s = alloc_4kb t"
      using alloc_4kb_empty [OF repD(1) [OF assms] e] h2 t(1) by simp
    moreover have "fst (spec_take (spec_split a)) = Some (h + 511)"
      by (simp add: spec_take_def spec_split_free4 [OF Cons])
    ultimately show ?thesis
      using Nil u same_env_trans [OF t(3) u(3)] by (simp add: spec_alloc_4kb_def)
  qed
qed

section \<open>Releasing a 2MB page\<close>

lemma free_2mb_refines:
  assumes "rep lo s a" and "sp_of p \<in> used2 a"
  shows "\<exists>t. free_2mb p s = Inr t \<and> rep lo t (spec_free_2mb (sp_of p) a) \<and> same_env s t"
proof -
  note wf = repD(2) [OF assms(1)] and mD = meta_okD [OF repD(5) [OF assms(1)]]
  let ?h = "sp_of p"
  define qs where "qs = (pages s)[?h := (pages s ! ?h)\<lparr>state := Free2MB, counter := of_nat PAGES_PER_2MB\<rparr>]"
  have lk: "same_links UNIV (pages s) qs" unfolding qs_def by (rule same_links_update) simp
  have h: "?h < length (pages s)" "?h \<notin> set (free2 a)" "?h \<notin> small a" "state (pages s ! ?h) \<noteq> Free2MB"
    using assms(2) wf_range [OF wf, of ?h] wf_D(6) [OF wf] wf_small_large [OF wf] mD(4) [of ?h] by auto
  have lenq: "length qs = length (pages s)" by (simp add: qs_def)
  have d2: "dll qs (head_2mb s) (free2 a)"
    by (rule dll_same_links [OF same_links_mono [OF lk] repD(4) [OF assms(1)]]) simp
  from link_front_ok [OF this _ h(2)] h(1) lenq obtain rs where
    rs: "link_front ?h (head_2mb s) qs = Inr (rs, Some ?h)" "dll rs (Some ?h) (?h # free2 a)"
      "same_links (- insert ?h (set (free2 a))) qs rs" "same_meta qs rs"
    by auto
  let ?t = "set_head_2mb (Some ?h) (set_pages rs s)"
  have run: "free_2mb p s = Inr ?t"
    using free_2mb_exec [OF repD(1) [OF assms(1)] sp_of_def h(1,4)] rs(1) unfolding qs_def by simp
  have len: "length rs = length (pages s)" using same_meta_length [OF rs(4)] lenq by simp
  have st: "state (rs ! x) = (if x = ?h then Free2MB else state (pages s ! x))"
    and ct: "counter (rs ! x) = (if x = ?h then of_nat PAGES_PER_2MB else counter (pages s ! x))"
    if "x < length (pages s)" for x
    using that same_meta_nth [OF rs(4), of x] lenq by (simp_all add: qs_def)
  have d4: "dll rs (head_4kb s) (free4 a)"
  proof (rule dll_same_links [OF same_links_trans repD(3) [OF assms(1)]])
    show "same_links (set (free4 a)) (pages s) qs" using lk by (rule same_links_mono) simp
    show "same_links (set (free4 a)) qs rs"
      using wf_small_large [OF wf] h(3) by (intro same_links_mono [OF rs(3)]) auto
  qed
  have r: "x < length (pages s)" if "x \<in> small a \<union> large a" for x
    using wf_range [OF wf that] .
  have "meta_ok rs (spec_free_2mb ?h a)" unfolding spec_free_2mb_def
  proof (rule meta_okI, goal_cases)
    case (1 x)
    then show ?case using mD(1) [of x] st [of x] r [of x] h(3) by auto
  next
    case (2 x)
    then show ?case using mD(2) [of x] st [of x] r [of x] h(1) by auto
  next
    case (3 x)
    then show ?case using mD(3) [of x] st [of x] r [of x] h(3) by auto
  next
    case (4 x)
    then show ?case using mD(4) [of x] st [of x] r [of x] by auto
  next
    case (5 x)
    then have "x \<noteq> ?h" "x < length (pages s)" "sp_of x \<notin> large a" using st [of x] len by auto
    with 5 show ?case using mD(5) [of x] st [of x] by simp
  next
    case (6 x)
    then have "x \<noteq> ?h" "x < length (pages s)" "x \<notin> large a" using len by auto
    with 6 show ?case using mD(6) [of x] ct [of x] by simp
  qed
  moreover have "wf_frames lo (length rs) (spec_free_2mb ?h a)"
    using wf_spec_free_2mb [OF wf assms(2)] len by simp
  ultimately have "rep lo ?t (spec_free_2mb ?h a)"
    using repD(1) [OF assms(1)] d4 rs(2) by (simp add: rep_def spec_free_2mb_def)
  moreover have "same_env s ?t" using len by (simp add: same_env_def)
  ultimately show ?thesis using run by blast
qed

section \<open>Releasing a 4KB page\<close>

lemma credit_bound:
  assumes "wf_frames lo n a" and "PAGES_PER_2MB dvd h" and "h \<notin> large a"
  shows "credit a h \<le> PAGES_PER_2MB"
proof -
  have "credit a h \<le> card (free_in a h)" using wf_D(13) [OF assms(1,3)] .
  also have "\<dots> \<le> card (block h)"
    by (rule card_mono [OF _ free_in_subset_block [OF assms(2)]]) (simp add: block_def)
  finally show ?thesis by simp
qed

lemma free_4kb_insert_refines:
  assumes "rep lo s a" and "p \<in> used4 a"
  shows "\<exists>t. free_4kb_insert p s = Inr (credit (spec_give p a) (sp_of p) = PAGES_PER_2MB, t) \<and>
    rep lo t (spec_give p a) \<and> same_env s t"
proof -
  note wf = repD(2) [OF assms(1)] and mD = meta_okD [OF repD(5) [OF assms(1)]]
  let ?sp = "sp_of p"
  define qs where "qs = (pages s)[p := (pages s ! p)\<lparr>state := Free4KB\<rparr>]"
  define rs where "rs = qs[?sp := (qs ! ?sp)\<lparr>counter := saturating_add (counter (qs ! ?sp)) 1\<rparr>]"
  have p: "p < length (pages s)" "p \<notin> set (free4 a)" "p \<notin> large a" "state (pages s ! p) \<noteq> Free4KB"
    "?sp < length (pages s)" "?sp \<notin> large a"
    using assms(2) wf_range [OF wf, of p] wf_D(5,9) [OF wf] wf_small_large [OF wf, of p] mD(3) [of p]
    by (auto intro: sp_of_small_range)
  have lk: "same_links UNIV (pages s) rs"
    using p(1,5) by (auto simp: same_links_def rs_def qs_def)
  have lenr: "length rs = length (pages s)" by (simp add: rs_def qs_def)
  have d4: "dll rs (head_4kb s) (free4 a)"
    by (rule dll_same_links [OF same_links_mono [OF lk] repD(3) [OF assms(1)]]) simp
  from link_front_ok [OF this _ p(2)] p(1) lenr obtain us where
    us: "link_front p (head_4kb s) rs = Inr (us, Some p)" "dll us (Some p) (p # free4 a)"
      "same_links (- insert p (set (free4 a))) rs us" "same_meta rs us"
    by auto
  have "link_front_checked p (head_4kb s) rs = Inr (us, Some p)"
  proof (subst link_front_checked_eq)
    show "x < length rs" if "head_4kb s = Some x" for x
      using dll_head [of rs x "free4 a"] dll_in_range [OF d4, of x] d4 that by auto
  qed (rule us(1))
  note run = free_4kb_insert_exec [OF repD(1) [OF assms(1)] p(1,4) sp_of_def qs_def rs_def this]
  have len: "length us = length (pages s)" using same_meta_length [OF us(4)] lenr by simp
  have st: "state (us ! x) = (if x = p then Free4KB else state (pages s ! x))"
    and ct: "counter (us ! x) = (if x = ?sp then saturating_add (counter (pages s ! x)) 1 else counter (pages s ! x))"
    if "x < length (pages s)" for x
    using that p(1,5) same_meta_nth [OF us(4), of x] lenr by (simp_all add: rs_def qs_def)
  have cr: "unat (counter (pages s ! ?sp)) = credit a ?sp" "credit a ?sp \<le> PAGES_PER_2MB"
    using mD(6) [of ?sp] credit_bound [OF wf _ p(6)] p(5,6) by auto
  have "counter (rs ! ?sp) = saturating_add (counter (pages s ! ?sp)) 1"
    using p(1,5) by (simp add: rs_def qs_def)
  then have "unat (counter (rs ! ?sp)) = Suc (credit a ?sp)"
    using cr by (simp add: unat_saturating_add page_consts)
  then have due: "counter (rs ! ?sp) = of_nat PAGES_PER_2MB \<longleftrightarrow> credit (spec_give p a) ?sp = PAGES_PER_2MB"
    by (auto simp: spec_give_def page_consts word_unat_eq_iff)
  let ?t = "set_head_4kb (Some p) (set_pages us s)"
  have d2: "dll us (head_2mb s) (free2 a)"
  proof (rule dll_same_links [OF same_links_trans repD(4) [OF assms(1)]])
    show "same_links (set (free2 a)) (pages s) rs" using lk by (rule same_links_mono) simp
    show "same_links (set (free2 a)) rs us"
      using wf_small_large [OF wf] p(3) by (intro same_links_mono [OF us(3)]) auto
  qed
  have r: "x < length (pages s)" if "x \<in> small a \<union> large a" for x
    using wf_range [OF wf that] .
  have "meta_ok us (spec_give p a)" unfolding spec_give_def
  proof (rule meta_okI, goal_cases)
    case (1 x)
    then show ?case using mD(1) [of x] st [of x] r [of x] p(1) by auto
  next
    case (2 x)
    then show ?case using mD(2) [of x] st [of x] r [of x] p(3) by auto
  next
    case (3 x)
    then show ?case using mD(3) [of x] st [of x] r [of x] by auto
  next
    case (4 x)
    then show ?case using mD(4) [of x] st [of x] r [of x] p(3) by auto
  next
    case (5 x)
    then have "x = p \<or> state (pages s ! x) = Free4KB" "x < length (pages s)" "sp_of x \<notin> large a"
      using st [of x] len by (auto split: if_splits)
    then show ?case using mD(5) [of x] by auto
  next
    case (6 x)
    then have x: "x < length (pages s)" "x \<notin> large a" using len by auto
    then show ?case using mD(6) [of x] ct [of x] cr 6(2) by (simp add: unat_saturating_add page_consts)
  qed
  moreover have "wf_frames lo (length us) (spec_give p a)"
    using wf_spec_give [OF wf assms(2)] len by simp
  ultimately have "rep lo ?t (spec_give p a)"
    using repD(1) [OF assms(1)] d2 us(2) by (simp add: rep_def spec_give_def)
  moreover have "same_env s ?t" using len by (simp add: same_env_def)
  ultimately show ?thesis using run due by auto
qed

end
