(* ===== verification/Page_Merge.thy ===== *)
theory Page_Merge
  imports Page_Refine
begin

text \<open>
  Merging: when the last frame of a superpage comes back, \<^verbatim>\<open>try_merge\<close> of
  \<^verbatim>\<open>src/src/memory/page_allocator.rs\<close> takes all 512 frames out of the 4KB list and puts the superpage
  on the 2MB list. With it the release of a 4KB page, and the two public entry points.
\<close>

section \<open>Taking a set of entries out of a list\<close>

lemma unlink_loop_ok:
  assumes "dll ps head xs" and "set rs \<subseteq> set xs" and "distinct rs"
  shows "\<exists>v. for_each rs unlink_link (ps, head) = Inr v \<and> dll (fst v) (snd v) (filter (\<lambda>x. x \<notin> set rs) xs) \<and>
    same_links (- set xs) ps (fst v) \<and> same_meta ps (fst v)"
proof -
  let ?P = "\<lambda>done v. dll (fst v) (snd v) (filter (\<lambda>x. x \<notin> set done) xs) \<and>
    same_links (- set xs) ps (fst v) \<and> same_meta ps (fst v)"
  have "\<exists>v. for_each rs unlink_link (ps, head) = Inr v \<and> ?P rs v"
  proof (rule for_each_invariant)
    show "?P [] (ps, head)" using assms(1) by simp
  next
    fix "done" x rest and v :: free_pages
    assume eq: "rs = done @ x # rest" and P: "?P done v"
    let ?ys = "filter (\<lambda>x. x \<notin> set done) xs"
    have x: "x \<in> set ?ys" using eq assms(2,3) by auto
    from unlink_ok [OF _ x] P obtain qs h where
      q: "unlink x (snd v) (fst v) = Inr (qs, h)" "dll qs h (remove1 x ?ys)" "same_links (- set ?ys) (fst v) qs"
        "same_meta (fst v) qs"
      by blast
    have "distinct ?ys" using assms(1) by (simp add: dll_def)
    then have "remove1 x ?ys = filter (\<lambda>y. x \<noteq> y) ?ys"
      by (simp add: distinct_remove1_removeAll removeAll_filter_not_eq)
    also have "\<dots> = filter (\<lambda>y. y \<notin> set (done @ [x])) xs"
      by (auto intro!: filter_cong)
    finally have "dll qs h (filter (\<lambda>y. y \<notin> set (done @ [x])) xs)" using q(2) by simp
    moreover have "same_links (- set xs) (fst v) qs" by (rule same_links_mono [OF q(3)]) auto
    ultimately show "\<exists>t. unlink_link x v = Inr t \<and> ?P (done @ [x]) t"
      using q(1) P same_meta_trans [OF _ q(4), of ps] same_links_trans [of "- set xs" ps "fst v" qs]
      by (auto simp: unlink_link_def)
  qed
  then show ?thesis .
qed

section \<open>Merging a superpage\<close>

lemma try_merge_refines:
  assumes "rep lo s a" and "sp_of p \<notin> large a" and "block (sp_of p) \<subseteq> set (free4 a)"
  shows "\<exists>t. try_merge p s = Inr t \<and> rep lo t (spec_merge (sp_of p) a) \<and> same_env s t"
proof -
  note wf = repD(2) [OF assms(1)] and mD = meta_okD [OF repD(5) [OF assms(1)]]
  define h where "h = sp_of p"
  have h: "PAGES_PER_2MB dvd h" "h \<notin> large a" "block h \<subseteq> set (free4 a)" "h \<in> set (free4 a)"
    using assms(2,3) mem_block_self [of h] by (auto simp: h_def)
  let ?bs = "[h..<h + PAGES_PER_2MB]"
  have free: "all_free ?bs (pages s) = Inr True"
  proof (subst all_free_iff)
    show "q < length (pages s)" if "q \<in> set ?bs" for q
      using that h(3) wf_range [OF wf, of q] unfolding set_block_list by auto
    show "Inr (\<forall>q\<in>set ?bs. state (pages s ! q) = Free4KB) = (Inr True :: bool result)"
      using h(3) mD(1) unfolding set_block_list by auto
  qed
  have "set ?bs \<subseteq> set (free4 a)" using h(3) unfolding set_block_list .
  from unlink_loop_ok [OF repD(3) [OF assms(1)] this] obtain v where
    v: "for_each ?bs unlink_link (pages s, head_4kb s) = Inr v"
      "dll (fst v) (snd v) (filter (\<lambda>x. x \<notin> block h) (free4 a))"
      "same_links (- set (free4 a)) (pages s) (fst v)" "same_meta (pages s) (fst v)"
    unfolding set_block_list by auto
  have fl: "filter (\<lambda>x. x \<notin> block h) (free4 a) = filter (\<lambda>q. sp_of q \<noteq> h) (free4 a)"
    using h(1) by (simp add: sp_of_eq_iff)
  have len: "length (fst v) = length (pages s)" using v(4) by (rule same_meta_length)
  have hr: "h < length (fst v)" using wf_range [OF wf, of h] h(4) len by simp
  define qs where "qs = (fst v)[h := (fst v ! h)\<lparr>state := Free2MB, counter := of_nat PAGES_PER_2MB\<rparr>]"
  have lk: "same_links UNIV (fst v) qs" unfolding qs_def by (rule same_links_update) simp
  have "dll qs (head_2mb s) (free2 a)"
  proof (rule dll_same_links [OF same_links_trans repD(4) [OF assms(1)]])
    show "same_links (set (free2 a)) (pages s) (fst v)"
      using wf_small_large [OF wf] by (intro same_links_mono [OF v(3)]) auto
    show "same_links (set (free2 a)) (fst v) qs" using lk by (rule same_links_mono) simp
  qed
  from link_front_ok [OF this, of h] h(2) hr obtain rs where
    rs: "link_front h (head_2mb s) qs = Inr (rs, Some h)" "dll rs (Some h) (h # free2 a)"
      "same_links (- insert h (set (free2 a))) qs rs" "same_meta qs rs"
    by (auto simp: qs_def)
  let ?t = "set_head_2mb (Some h) (set_head_4kb (snd v) (set_pages rs s))"
  have run: "try_merge p s = Inr ?t"
  proof (rule try_merge_exec [where sp = h])
    show "h = p div PAGES_PER_2MB * PAGES_PER_2MB" by (simp add: h_def sp_of_def)
    show "for_each ?bs unlink_link (pages s, head_4kb s) = Inr (fst v, snd v)" using v(1) by simp
  qed (use repD(1) [OF assms(1)] free hr rs(1) qs_def in simp_all)
  have lenr: "length rs = length (pages s)" using same_meta_length [OF rs(4)] len by (simp add: qs_def)
  have st: "state (rs ! x) = (if x = h then Free2MB else state (pages s ! x))"
    and ct: "x \<noteq> h \<Longrightarrow> counter (rs ! x) = counter (pages s ! x)"
    if "x < length (pages s)" for x
    using that same_meta_nth [OF rs(4), of x] same_meta_nth [OF v(4), of x] len by (simp_all add: qs_def)
  have d4: "dll rs (snd v) (filter (\<lambda>q. sp_of q \<noteq> h) (free4 a))"
  proof (rule dll_same_links [OF same_links_trans v(2) [unfolded fl]])
    show "same_links (set (filter (\<lambda>q. sp_of q \<noteq> h) (free4 a))) (fst v) qs" using lk by (rule same_links_mono) simp
    show "same_links (set (filter (\<lambda>q. sp_of q \<noteq> h) (free4 a))) qs rs"
      using wf_small_large [OF wf] sp_of_aligned [OF h(1)] by (intro same_links_mono [OF rs(3)]) auto
  qed
  have r: "x < length (pages s)" if "x \<in> small a \<union> large a" for x
    using wf_range [OF wf that] .
  have hu: "h \<notin> used4 a" using h(4) wf_D(5) [OF wf] by auto
  have "meta_ok rs (spec_merge h a)" unfolding spec_merge_def
  proof (rule meta_okI, goal_cases)
    case (1 x)
    then have "x \<in> set (free4 a)" "x \<noteq> h" using sp_of_aligned [OF h(1)] by auto
    then show ?case using mD(1) [of x] st [of x] r [of x] by simp
  next
    case (2 x)
    then show ?case using mD(2) [of x] st [of x] r [of x] r [of h] h(4) by auto
  next
    case (3 x)
    then show ?case using mD(3) [of x] st [of x] r [of x] hu by auto
  next
    case (4 x)
    then show ?case using mD(4) [of x] st [of x] r [of x] h(2) by auto
  next
    case (5 x)
    then have "x \<noteq> h" "x < length (pages s)" "sp_of x \<notin> large a" "sp_of x \<noteq> h"
      using st [of x] lenr sp_of_aligned [OF h(1)] by auto
    with 5 show ?case using mD(5) [of x] st [of x] by simp
  next
    case (6 x)
    then have "x \<noteq> h" "x < length (pages s)" "x \<notin> large a" using lenr by auto
    with 6 show ?case using mD(6) [of x] ct [of x] by simp
  qed
  moreover have "wf_frames lo (length rs) (spec_merge h a)"
    using wf_spec_merge [OF wf h(1-3)] lenr by simp
  ultimately have "rep lo ?t (spec_merge h a)"
    using repD(1) [OF assms(1)] d4 rs(2) by (simp add: rep_def spec_merge_def)
  moreover have "same_env s ?t" using lenr by (simp add: same_env_def)
  ultimately show ?thesis using run unfolding h_def by blast
qed

lemma free_4kb_refines:
  assumes "rep lo s a" and "p \<in> used4 a"
  shows "\<exists>t. free_4kb p s = Inr t \<and> rep lo t (spec_free_4kb p a) \<and> same_env s t"
proof -
  from free_4kb_insert_refines [OF assms] obtain u where
    u: "free_4kb_insert p s = Inr (credit (spec_give p a) (sp_of p) = PAGES_PER_2MB, u)" "rep lo u (spec_give p a)" "same_env s u"
    by blast
  show ?thesis
  proof (cases "credit (spec_give p a) (sp_of p) = PAGES_PER_2MB")
    case True
    note ready = spec_give_merge_ready [OF repD(2) [OF assms(1)] assms(2) True]
    from try_merge_refines [OF u(2) ready] obtain t where
      "try_merge p u = Inr t" "rep lo t (spec_merge (sp_of p) (spec_give p a))" "same_env u t" by blast
    then show ?thesis using True u same_env_trans [OF u(3)] by (simp add: free_4kb_def spec_free_4kb_def)
  next
    case False
    then show ?thesis using u by (simp add: free_4kb_def spec_free_4kb_def)
  qed
qed

end
