(* ===== verification/Page_Provider.thy ===== *)
theory Page_Provider
  imports Page_Merge
begin

text \<open>
  The contract the page allocator gives its clients: an allocated block is fresh, aligned to its size and
  disjoint from every block still owned; releasing an owned block gives back exactly that block; and no
  call panics or waits for ever. The allocator of \<^verbatim>\<open>src/src/memory/page_allocator.rs\<close> satisfies it.
\<close>

section \<open>Blocks\<close>

type_synonym page_block = "usize \<times> page_size"

definition bytes_of :: "page_size \<Rightarrow> usize" where
  "bytes_of sz = (case sz of Size4KB \<Rightarrow> PAGE_SIZE_4KB | Size2MB \<Rightarrow> PAGE_SIZE_2MB)"

definition extent :: "page_block \<Rightarrow> usize set" where
  "extent b = {fst b..<fst b + bytes_of (snd b)}"

section \<open>The contract\<close>

locale page_provider =
  fixes allocate :: "page_size \<Rightarrow> 's \<Rightarrow> (usize option \<times> 's) result"
    and release :: "usize \<Rightarrow> page_size \<Rightarrow> 's \<Rightarrow> 's result"
    and ok :: "'s \<Rightarrow> 'a \<Rightarrow> bool"
    and owned :: "'a \<Rightarrow> page_block set"
  assumes allocate_law: "ok s a \<Longrightarrow> \<exists>r t b. allocate sz s = Inr (r, t) \<and> ok t b \<and>
      (case r of None \<Rightarrow> owned b = owned a
               | Some addr \<Rightarrow> (addr, sz) \<notin> owned a \<and> owned b = insert (addr, sz) (owned a))"
    and release_law: "ok s a \<Longrightarrow> (addr, sz) \<in> owned a \<Longrightarrow>
      \<exists>t b. release addr sz s = Inr t \<and> ok t b \<and> owned b = owned a - {(addr, sz)}"
    and disjoint_law: "ok s a \<Longrightarrow> x \<in> owned a \<Longrightarrow> y \<in> owned a \<Longrightarrow> x \<noteq> y \<Longrightarrow> extent x \<inter> extent y = {}"
    and aligned_law: "ok s a \<Longrightarrow> (addr, sz) \<in> owned a \<Longrightarrow> bytes_of sz dvd addr \<and> 0 < addr"

section \<open>The page allocator satisfies the contract\<close>

definition owned_blocks :: "frames \<Rightarrow> page_block set" where
  "owned_blocks a = (\<lambda>p. (p * PAGE_SIZE_4KB, Size4KB)) ` used4 a \<union> (\<lambda>h. (h * PAGE_SIZE_4KB, Size2MB)) ` used2 a"

text \<open>The state relation seen by clients: the allocator represents \<open>snd a\<close> above the frame \<open>fst a > 0\<close>.\<close>

definition provides :: "page_allocator \<Rightarrow> usize \<times> frames \<Rightarrow> bool" where
  "provides s a \<longleftrightarrow> rep (fst a) s (snd a) \<and> 0 < fst a"

lemma page_size_pos [simp]: "PAGE_SIZE_4KB \<noteq> 0" "0 < PAGE_SIZE_4KB"
  by (simp_all add: PAGE_SIZE_4KB_def)

lemma owned_blocks_iff [simp]:
  "(p * PAGE_SIZE_4KB, Size4KB) \<in> owned_blocks a \<longleftrightarrow> p \<in> used4 a"
  "(p * PAGE_SIZE_4KB, Size2MB) \<in> owned_blocks a \<longleftrightarrow> p \<in> used2 a"
  by (auto simp: owned_blocks_def)

lemma owned_blocks_cases:
  assumes "x \<in> owned_blocks a"
  obtains p where "x = (p * PAGE_SIZE_4KB, Size4KB)" "p \<in> used4 a"
    | h where "x = (h * PAGE_SIZE_4KB, Size2MB)" "h \<in> used2 a"
  using assms by (auto simp: owned_blocks_def)

lemma owned_blocks_update:
  "owned_blocks (a\<lparr>used4 := insert p U\<rparr>) = insert (p * PAGE_SIZE_4KB, Size4KB) (owned_blocks (a\<lparr>used4 := U\<rparr>))"
  "owned_blocks (a\<lparr>used2 := insert p U\<rparr>) = insert (p * PAGE_SIZE_4KB, Size2MB) (owned_blocks (a\<lparr>used2 := U\<rparr>))"
  "owned_blocks (a\<lparr>used4 := U - {p}\<rparr>) = owned_blocks (a\<lparr>used4 := U\<rparr>) - {(p * PAGE_SIZE_4KB, Size4KB)}"
  "owned_blocks (a\<lparr>used2 := U - {p}\<rparr>) = owned_blocks (a\<lparr>used2 := U\<rparr>) - {(p * PAGE_SIZE_4KB, Size2MB)}"
  by (auto simp: owned_blocks_def)

lemma owned_blocks_eq: "used4 b = used4 a \<Longrightarrow> used2 b = used2 a \<Longrightarrow> owned_blocks b = owned_blocks a"
  by (simp add: owned_blocks_def)

definition spec_allocate :: "page_size \<Rightarrow> frames \<Rightarrow> usize option \<times> frames" where
  "spec_allocate sz a = (case sz of Size4KB \<Rightarrow> spec_alloc_4kb a | Size2MB \<Rightarrow> spec_alloc_2mb a)"

definition spec_release :: "usize \<Rightarrow> page_size \<Rightarrow> frames \<Rightarrow> frames" where
  "spec_release p sz a = (case sz of Size4KB \<Rightarrow> spec_free_4kb p a | Size2MB \<Rightarrow> spec_free_2mb p a)"

lemma allocate_page_refines:
  assumes "rep lo s a"
  shows "\<exists>t. allocate_page sz s = Inr (map_option (\<lambda>p. p * PAGE_SIZE_4KB) (fst (spec_allocate sz a)), t) \<and>
    rep lo t (snd (spec_allocate sz a)) \<and> same_env s t"
  using alloc_4kb_refines [OF assms] alloc_2mb_refines [OF assms]
  by (cases sz) (simp_all add: allocate_page_def spec_allocate_def)

lemma free_page_refines:
  assumes "rep lo s a" and "(p * PAGE_SIZE_4KB, sz) \<in> owned_blocks a"
  shows "\<exists>t. free_page (p * PAGE_SIZE_4KB) sz s = Inr t \<and> rep lo t (spec_release p sz a) \<and> same_env s t"
proof -
  have addr: "p * PAGE_SIZE_4KB div PAGE_SIZE_4KB = p" by (simp add: PAGE_SIZE_4KB_def)
  show ?thesis
  proof (cases sz)
    case Size4KB
    then show ?thesis using assms free_4kb_refines [OF assms(1)] by (simp add: free_page_def spec_release_def addr)
  next
    case Size2MB
    then have p: "p \<in> used2 a" using assms(2) by simp
    then have "sp_of p = p" using wf_D(12) [OF repD(2) [OF assms(1)], of p] by (intro sp_of_aligned) simp
    then show ?thesis
      using free_2mb_refines [OF assms(1), of p] p Size2MB by (simp add: free_page_def spec_release_def addr)
  qed
qed

lemma spec_allocate_owned:
  assumes "wf_frames lo n a" and "spec_allocate sz a = (r, b)"
  shows "case r of None \<Rightarrow> owned_blocks b = owned_blocks a
    | Some p \<Rightarrow> (p * PAGE_SIZE_4KB, sz) \<notin> owned_blocks a \<and> owned_blocks b = insert (p * PAGE_SIZE_4KB, sz) (owned_blocks a)"
proof (cases sz)
  case Size2MB
  then show ?thesis using assms wf_D(6) [OF assms(1)]
    by (cases "free2 a") (auto simp: spec_allocate_def spec_alloc_2mb_def owned_blocks_def)
next
  case Size4KB
  define c where "c = (if free4 a = [] then spec_split a else a)"
  have c: "used4 c = used4 a" "used2 c = used2 a" by (auto simp: c_def spec_split_def split: list.splits)
  have wf: "wf_frames lo n c" using assms(1) wf_spec_split by (simp add: c_def)
  have "spec_take c = (r, b)" using assms(2) Size4KB by (simp add: spec_allocate_def spec_alloc_4kb_def c_def)
  then show ?thesis using Size4KB c wf_D(5) [OF wf]
    by (cases "free4 c") (auto simp: spec_take_def owned_blocks_def)
qed

lemma spec_release_owned:
  "owned_blocks (spec_release p sz a) = owned_blocks a - {(p * PAGE_SIZE_4KB, sz)}"
  by (cases sz) (auto simp: spec_release_def spec_free_4kb_def spec_free_2mb_def spec_give_def spec_merge_def
      owned_blocks_def Let_def)

lemma extent_block:
  "extent (p * PAGE_SIZE_4KB, Size4KB) = {x. x div PAGE_SIZE_4KB = p}"
  "extent (h * PAGE_SIZE_4KB, Size2MB) = {x. x div PAGE_SIZE_4KB \<in> block h}"
  by (auto simp: extent_def bytes_of_def page_consts block_def)

lemma owned_disjoint:
  assumes "wf_frames lo n a" and "x \<in> owned_blocks a" and "y \<in> owned_blocks a" and "x \<noteq> y"
  shows "extent x \<inter> extent y = {}"
proof -
  have small_large: "p \<notin> block h" if "p \<in> used4 a" "h \<in> used2 a" for p h
    using wf_large_disjoint [OF assms(1), of h] that by auto
  have large_large: "h = k" if "h \<in> used2 a" "k \<in> used2 a" "q \<in> block h" "q \<in> block k" for h k q
    using wf_D(12) [OF assms(1)] that sp_of_eq_iff by (metis UnI2)
  show ?thesis
    using assms(2,3,4) small_large
    by (elim owned_blocks_cases) (auto simp: extent_block dest: large_large)
qed

lemma owned_aligned:
  assumes "wf_frames lo n a" and "0 < lo" and "(addr, sz) \<in> owned_blocks a"
  shows "bytes_of sz dvd addr \<and> 0 < addr"
  using assms(3)
proof (rule owned_blocks_cases)
  fix p
  assume "(addr, sz) = (p * PAGE_SIZE_4KB, Size4KB)" "p \<in> used4 a"
  then show ?thesis using wf_D(7) [OF assms(1), of p] assms(2) by (simp add: bytes_of_def PAGE_SIZE_4KB_def)
next
  fix h
  assume h: "(addr, sz) = (h * PAGE_SIZE_4KB, Size2MB)" "h \<in> used2 a"
  then have "PAGES_PER_2MB dvd h" "lo \<le> h" using wf_D(10,12) [OF assms(1), of h] by auto
  moreover have "PAGE_SIZE_2MB = PAGES_PER_2MB * PAGE_SIZE_4KB" by (simp add: page_consts)
  ultimately have "PAGE_SIZE_2MB dvd h * PAGE_SIZE_4KB" "0 < h"
    using assms(2) by (metis dvd_refl mult_dvd_mono, linarith)
  then show ?thesis using h by (simp add: bytes_of_def)
qed

interpretation page_pool: page_provider allocate_page free_page provides "\<lambda>a. owned_blocks (snd a)"
proof (unfold_locales, goal_cases)
  case (1 s a sz)
  then have r: "rep (fst a) s (snd a)" and lo: "0 < fst a" by (simp_all add: provides_def)
  obtain q b where qb: "spec_allocate sz (snd a) = (q, b)" by (cases "spec_allocate sz (snd a)")
  from allocate_page_refines [OF r, of sz] obtain t where
    t: "allocate_page sz s = Inr (map_option (\<lambda>p. p * PAGE_SIZE_4KB) q, t)" "rep (fst a) t b" using qb by auto
  have "provides t (fst a, b)" using t(2) lo by (simp add: provides_def)
  then show ?case using t(1) spec_allocate_owned [OF repD(2) [OF r] qb] by (cases q) force+
next
  case (2 s a addr sz)
  then have r: "rep (fst a) s (snd a)" and lo: "0 < fst a" by (simp_all add: provides_def)
  from 2(2) obtain p where p: "addr = p * PAGE_SIZE_4KB" by (auto elim: owned_blocks_cases)
  from free_page_refines [OF r] 2(2) p obtain t where
    t: "free_page addr sz s = Inr t" "rep (fst a) t (spec_release p sz (snd a))" by blast
  then have "provides t (fst a, spec_release p sz (snd a))" using lo by (simp add: provides_def)
  then show ?case using t(1) p spec_release_owned by (metis snd_conv)
next
  case (3 s a x y)
  then show ?case by (auto simp: provides_def rep_def dest: owned_disjoint)
next
  case (4 s a addr sz)
  then show ?case using owned_aligned by (auto simp: provides_def rep_def)
qed

end
