(* ===== verification/Multiboot2.thy ===== *)
theory Multiboot2
  imports Prelude
begin

text \<open>
  The parser of the boot information, \<^verbatim>\<open>src/src/memory/multiboot2.rs\<close>. The boot loader leaves the
  structure in memory, which is a function from addresses to bytes here; structures are read at
  their \<^verbatim>\<open>repr(C)\<close> offsets in little-endian order. The tag search and the iterator over memory areas
  are loops that follow sizes found in memory, so they may run forever: their result is an
  option, with \<^const>\<open>None\<close> for a loop that never ends.
\<close>

section \<open>Reading structures from memory\<close>

type_synonym memory = "usize \<Rightarrow> u8"

fun read_le :: "memory \<Rightarrow> usize \<Rightarrow> nat \<Rightarrow> nat" where
  "read_le mem a 0 = 0"
| "read_le mem a (Suc n) = unat (mem a) + 256 * read_le mem (Suc a) n"

definition read_u32 :: "memory \<Rightarrow> usize \<Rightarrow> u32" where
  "read_u32 mem a = of_nat (read_le mem a 4)"

definition read_u64 :: "memory \<Rightarrow> usize \<Rightarrow> u64" where
  "read_u64 mem a = of_nat (read_le mem a 8)"

record tag_header =
  tag_typ :: u32
  tag_size :: u32

record mmap_tag =
  mmap_typ :: u32
  mmap_size :: u32
  entry_size :: u32
  entry_version :: u32

record memory_area =
  base_addr :: u64
  area_length :: u64
  area_typ :: u32
  area_reserved :: u32

definition read_tag :: "memory \<Rightarrow> usize \<Rightarrow> tag_header" where
  "read_tag mem a = \<lparr>tag_typ = read_u32 mem a, tag_size = read_u32 mem (a + 4)\<rparr>"

definition read_mmap_tag :: "memory \<Rightarrow> usize \<Rightarrow> mmap_tag" where
  "read_mmap_tag mem a = \<lparr>mmap_typ = read_u32 mem a, mmap_size = read_u32 mem (a + 4),
     entry_size = read_u32 mem (a + 8), entry_version = read_u32 mem (a + 12)\<rparr>"

definition read_area :: "memory \<Rightarrow> usize \<Rightarrow> memory_area" where
  "read_area mem a = \<lparr>base_addr = read_u64 mem a, area_length = read_u64 mem (a + 8),
     area_typ = read_u32 mem (a + 16), area_reserved = read_u32 mem (a + 20)\<rparr>"

section \<open>Tags\<close>

definition MULTIBOOT2_TAG_TYPE_END :: u32 where "MULTIBOOT2_TAG_TYPE_END = 0"
definition MULTIBOOT2_TAG_TYPE_MMAP :: u32 where "MULTIBOOT2_TAG_TYPE_MMAP = 6"

text \<open>A \<^verbatim>\<open>BootInfo\<close> is known by its address.\<close>

definition parse :: "usize \<Rightarrow> usize option" where
  "parse p = (if p = 0 then None else Some p)"

partial_function (option) find_tag_loop :: "memory \<Rightarrow> u32 \<Rightarrow> usize \<Rightarrow> usize option result option" where
  "find_tag_loop mem tag_type current =
     (let tag = read_tag mem current in
      if tag_typ tag = MULTIBOOT2_TAG_TYPE_END then Some (Inr None)
      else if tag_typ tag = tag_type then Some (Inr (Some current))
      else case and_then (checked_add current (unat (tag_size tag))) (\<lambda>c. checked_add c 7) of
             Inl e \<Rightarrow> Some (Inl e)
           | Inr c \<Rightarrow> find_tag_loop mem tag_type (and_not c 7))"

definition find_tag :: "memory \<Rightarrow> usize \<Rightarrow> u32 \<Rightarrow> usize option result option" where
  "find_tag mem self tag_type =
     (case checked_add self 8 of
        Inl e \<Rightarrow> Some (Inl e)
      | Inr current \<Rightarrow> find_tag_loop mem tag_type current)"

definition memory_map_tag :: "memory \<Rightarrow> usize \<Rightarrow> usize option result option" where
  "memory_map_tag mem self = find_tag mem self MULTIBOOT2_TAG_TYPE_MMAP"

section \<open>Memory areas\<close>

record memory_area_iter =
  current :: usize
  iter_end :: usize
  iter_entry_size :: usize

definition memory_areas :: "memory \<Rightarrow> usize \<Rightarrow> memory_area_iter result" where
  "memory_areas mem self =
     (let start = self + 16; entry_size = unat (entry_size (read_mmap_tag mem self)) in
      and_then (checked_add self (unat (mmap_size (read_mmap_tag mem self)))) (\<lambda>e.
      Inr \<lparr>current = start, iter_end = e, iter_entry_size = entry_size\<rparr>))"

definition next_area :: "memory \<Rightarrow> memory_area_iter \<Rightarrow> (memory_area option \<times> memory_area_iter) result" where
  "next_area mem it =
     (if iter_end it \<le> current it then Inr (None, it)
      else let area = read_area mem (current it) in
           and_then (checked_add (current it) (iter_entry_size it)) (\<lambda>c.
           Inr (Some area, it\<lparr>current := c\<rparr>)))"

text \<open>\<^verbatim>\<open>for entry in mmap.memory_areas() { body }\<close>\<close>

partial_function (option) for_areas ::
  "memory \<Rightarrow> (memory_area \<Rightarrow> 's \<Rightarrow> 's result) \<Rightarrow> memory_area_iter \<Rightarrow> 's \<Rightarrow> 's result option" where
  "for_areas mem body it s =
     (case next_area mem it of
        Inl e \<Rightarrow> Some (Inl e)
      | Inr (None, _) \<Rightarrow> Some (Inr s)
      | Inr (Some area, it) \<Rightarrow>
          (case body area s of
             Inl e \<Rightarrow> Some (Inl e)
           | Inr s \<Rightarrow> for_areas mem body it s))"


section \<open>The tag search\<close>

text \<open>
  \<open>tags_at mem a ts\<close>: from address \<open>a\<close> on there are the tags \<open>ts\<close>, given as address and type, each at the
  8-byte aligned end of the one before, followed by the end tag.
\<close>

fun tags_at :: "memory \<Rightarrow> usize \<Rightarrow> (usize \<times> u32) list \<Rightarrow> bool" where
  "tags_at mem a [] \<longleftrightarrow> tag_typ (read_tag mem a) = MULTIBOOT2_TAG_TYPE_END"
| "tags_at mem a (t # ts) \<longleftrightarrow>
     t = (a, tag_typ (read_tag mem a)) \<and> snd t \<noteq> MULTIBOOT2_TAG_TYPE_END \<and>
     a + unat (tag_size (read_tag mem a)) + 7 < usize_limit \<and>
     tags_at mem ((a + unat (tag_size (read_tag mem a)) + 7) div 8 * 8) ts"

lemma and_not_7: "x < usize_limit \<Longrightarrow> and_not x 7 = x div 8 * 8"
  using and_not_mask_eq [of x 3] by simp

lemma find_tag_loop_tags:
  assumes "tags_at mem a ts" and "t \<noteq> MULTIBOOT2_TAG_TYPE_END"
  shows "find_tag_loop mem t a = Some (Inr (map_option fst (find (\<lambda>x. snd x = t) ts)))"
  using assms(1)
proof (induction ts arbitrary: a)
  case Nil
  then show ?case by (subst find_tag_loop.simps) simp
next
  case (Cons x ts)
  show ?case
  proof (cases "snd x = t")
    case True
    with Cons.prems assms(2) show ?thesis by (subst find_tag_loop.simps) (auto simp: Let_def)
  next
    case False
    with Cons.prems Cons.IH show ?thesis
      by (subst find_tag_loop.simps) (auto simp: Let_def and_not_7)
  qed
qed

text \<open>A tag that claims size zero at an aligned address leads the search back to itself.\<close>

lemma find_tag_loop_stuck:
  assumes "tag_typ (read_tag mem a) \<noteq> MULTIBOOT2_TAG_TYPE_END" and "tag_typ (read_tag mem a) \<noteq> t"
    and "tag_size (read_tag mem a) = 0" and "8 dvd a" and "a + 7 < usize_limit"
  shows "find_tag_loop mem t a = None"
proof -
  have again: "and_not (a + 7) 7 = a"
    using assms(4,5) by (auto simp: and_not_7 elim!: dvdE)
  have "(mem', t', a') \<noteq> (mem, t, a)" if "find_tag_loop mem' t' a' = Some r" for mem' t' a' r
  proof (rule find_tag_loop.raw_induct [where P = "\<lambda>m u c r. (m, u, c) \<noteq> (mem, t, a)", OF _ that], goal_cases)
    case (1 f mem' t' a' r)
    show ?case
    proof
      assume h: "(mem', t', a') = (mem, t, a)"
      then have "f mem t a = Some r" using 1(2) assms again by (simp add: Let_def)
      then show False using 1(1) by blast
    qed
  qed
  then show ?thesis by fastforce
qed

section \<open>The iterator\<close>

text \<open>The areas an iterator yields when its entries have a positive size.\<close>

definition area_count :: "usize \<Rightarrow> usize \<Rightarrow> usize \<Rightarrow> nat" where
  "area_count c e k = (e - c + (k - 1)) div k"

definition areas_of :: "memory \<Rightarrow> memory_area_iter \<Rightarrow> memory_area list" where
  "areas_of mem it = map (\<lambda>i. read_area mem (current it + i * iter_entry_size it))
     [0..<area_count (current it) (iter_end it) (iter_entry_size it)]"

lemma area_count_done: "0 < k \<Longrightarrow> e \<le> c \<Longrightarrow> area_count c e k = 0"
  by (simp add: area_count_def)

lemma area_count_step:
  assumes "0 < k" and "c < e"
  shows "area_count c e k = Suc (area_count (c + k) e k)"
proof -
  have "area_count c e k = (e - c - 1 + k) div k" using assms by (simp add: area_count_def)
  also have "\<dots> = Suc ((e - c - 1) div k)" using assms(1) by (simp only: div_add_self2)
  also have "(e - c - 1) div k = area_count (c + k) e k"
  proof (cases "e \<le> c + k")
    case False
    then have "e - c - 1 = e - (c + k) + (k - 1)" using assms by simp
    then show ?thesis by (simp only: area_count_def)
  qed (use assms in \<open>simp add: area_count_def\<close>)
  finally show ?thesis .
qed

lemma areas_of_step:
  assumes "0 < iter_entry_size it" and "current it < iter_end it"
  shows "areas_of mem it =
    read_area mem (current it) # areas_of mem (it\<lparr>current := current it + iter_entry_size it\<rparr>)"
  using area_count_step [OF assms]
  by (simp add: areas_of_def upt_conv_Cons map_Suc_upt [symmetric] add.assoc del: upt_Suc map_Suc_upt)

lemma for_areas_for_each:
  assumes "0 < iter_entry_size it" and "iter_end it + iter_entry_size it \<le> usize_limit"
  shows "for_areas mem body it s = Some (for_each (areas_of mem it) body s)"
  using assms
proof (induction "iter_end it - current it" arbitrary: it s rule: less_induct)
  case less
  show ?case
  proof (cases "current it < iter_end it")
    case False
    then show ?thesis
      using less.prems by (subst for_areas.simps) (simp add: next_area_def areas_of_def area_count_done)
  next
    case True
    let ?it = "it\<lparr>current := current it + iter_entry_size it\<rparr>"
    have n: "next_area mem it = Inr (Some (read_area mem (current it)), ?it)"
      using True less.prems by (simp add: next_area_def)
    have "for_areas mem body ?it t = Some (for_each (areas_of mem ?it) body t)" for t
      using True less.prems by (intro less.hyps) auto
    then show ?thesis
      using areas_of_step [OF less.prems(1) True, of mem]
      by (subst for_areas.simps) (simp add: n and_then_def split: sum.splits)
  qed
qed

text \<open>An entry size of zero keeps the iterator at the same entry for ever.\<close>

lemma for_areas_stuck:
  assumes "iter_entry_size it = 0" and "current it < iter_end it" and "current it < usize_limit"
    and "\<And>s. P s \<Longrightarrow> \<exists>s'. body (read_area mem (current it)) s = Inr s' \<and> P s'" and "P s"
  shows "for_areas mem body it s = None"
proof -
  have n: "next_area mem it = Inr (Some (read_area mem (current it)), it)"
    using assms(1-3) by (simp add: next_area_def)
  have "\<not> (mem' = mem \<and> body' = body \<and> it' = it \<and> P s)" if "for_areas mem' body' it' s = Some r"
    for mem' body' it' s r
  proof (rule for_areas.raw_induct
      [where P = "\<lambda>m b i s r. \<not> (m = mem \<and> b = body \<and> i = it \<and> P s)", OF _ that], goal_cases)
    case (1 f mem' body' it' s r)
    show ?case
    proof
      assume h: "mem' = mem \<and> body' = body \<and> it' = it \<and> P s"
      then obtain s' where "body (read_area mem (current it)) s = Inr s'" "P s'" using assms(4) by blast
      then have "f mem body it s' = Some r" using 1(2) h n by simp
      then show False using 1(1) \<open>P s'\<close> by blast
    qed
  qed
  then show ?thesis using assms(5) by fastforce
qed

section \<open>Properties\<close>

text \<open>A minimal boot information: a command-line tag, a memory map with two areas, the end tag.\<close>

definition tiny_bytes :: "u8 list" where
  "tiny_bytes = [80, 0, 0, 0, 0, 0, 0, 0,
     1, 0, 0, 0, 9, 0, 0, 0, 0, 0, 0, 0, 0, 0, 0, 0,
     6, 0, 0, 0, 64, 0, 0, 0, 24, 0, 0, 0, 0, 0, 0, 0,
     0, 0, 0, 0, 0, 0, 0, 0, 0, 0, 0x10, 0, 0, 0, 0, 0, 1, 0, 0, 0, 0, 0, 0, 0,
     0, 0, 0x10, 0, 0, 0, 0, 0, 0, 0, 0x20, 0, 0, 0, 0, 0, 2, 0, 0, 0, 0, 0, 0, 0,
     0, 0, 0, 0, 8, 0, 0, 0]"

definition tiny_memory :: memory where
  "tiny_memory a = (if a < 96 then tiny_bytes ! a else 0)"

lemma read_le_Suc_numeral: "read_le mem a (numeral k) = unat (mem a) + 256 * read_le mem (Suc a) (pred_numeral k)"
  by (simp add: numeral_eq_Suc)

lemmas tiny_reads = read_tag_def read_mmap_tag_def read_area_def read_u32_def read_u64_def read_le_Suc_numeral
  tiny_memory_def tiny_bytes_def

text \<open>
  C22: on a well-formed sequence of tags the search ends and delivers the first tag of the requested type, or none when there
  is none.
\<close>

theorem find_tag_correct:
  assumes "self + 8 < usize_limit" and "tags_at mem (self + 8) ts" and "t \<noteq> MULTIBOOT2_TAG_TYPE_END"
  shows "find_tag mem self t = Some (Inr (map_option fst (find (\<lambda>x. snd x = t) ts)))"
  using assms(1) find_tag_loop_tags [OF assms(2,3)] by (simp add: find_tag_def)

theorem find_tag_correct_witness: "find_tag tiny_memory 0 6 = Some (Inr (Some 24))"
proof -
  have "tags_at tiny_memory (0 + 8) [(8, 1), (24, 6)]" by (simp add: MULTIBOOT2_TAG_TYPE_END_def tiny_reads)
  from find_tag_correct [OF _ this, of 6] show ?thesis by (simp add: MULTIBOOT2_TAG_TYPE_END_def)
qed

text \<open>A tag of another type that claims size zero keeps the search at the same address for ever.\<close>

lemma find_tag_diverges:
  assumes "8 dvd self" and "self + 15 < usize_limit" and "tag_size (read_tag mem (self + 8)) = 0"
    and "tag_typ (read_tag mem (self + 8)) \<notin> {MULTIBOOT2_TAG_TYPE_END, t}"
  shows "find_tag mem self t = None"
proof -
  have "find_tag_loop mem t (self + 8) = None" using assms by (intro find_tag_loop_stuck) auto
  then show ?thesis using assms(2) by (simp add: find_tag_def)
qed

text \<open>
  C23: with a positive entry size and no wrap-around, the \<^verbatim>\<open>for\<close> loop over the areas of a memory map runs its body on
  every entry between the header and the end of the tag, in order, and ends.
\<close>

theorem memory_areas_iterated:
  assumes "memory_areas mem self = Inr it" and "0 < iter_entry_size it" and "iter_end it + iter_entry_size it \<le> usize_limit"
  shows "for_areas mem body it s = Some (for_each
    (map (\<lambda>i. read_area mem (self + 16 + i * unat (entry_size (read_mmap_tag mem self))))
      [0..<area_count (self + 16) (self + unat (mmap_size (read_mmap_tag mem self))) (unat (entry_size (read_mmap_tag mem self)))]) body s)"
proof -
  have "it = \<lparr>current = self + 16, iter_end = self + unat (mmap_size (read_mmap_tag mem self)),
      iter_entry_size = unat (entry_size (read_mmap_tag mem self))\<rparr>"
    using assms(1) by (auto simp: memory_areas_def and_then_eq_Inr Let_def checked_add_def split: if_splits)
  then show ?thesis using for_areas_for_each [OF assms(2,3), of mem body s] by (simp add: areas_of_def)
qed

theorem memory_areas_iterated_witness:
  "for_areas tiny_memory (\<lambda>m xs. Inr (xs @ [area_length m])) \<lparr>current = 40, iter_end = 88, iter_entry_size = 24\<rparr> [] =
     Some (Inr [0x100000, 0x200000])"
proof -
  have m: "memory_areas tiny_memory 24 = Inr \<lparr>current = 40, iter_end = 88, iter_entry_size = 24\<rparr>"
    by (simp add: memory_areas_def tiny_reads)
  have "[0..<2] = [0, 1::nat]" by (simp add: upt_rec)
  then show ?thesis
    by (subst memory_areas_iterated [OF m]) (simp_all add: area_count_def tiny_reads)
qed

end
