(* ===== verification/Page_Init.thy ===== *)
theory Page_Init
  imports Page_Refine Multiboot2
begin

text \<open>
  Start-up of the page allocator: \<^verbatim>\<open>init\<close>, \<^verbatim>\<open>mark_available\<close> and \<^verbatim>\<open>build_lists\<close> of
  \<^verbatim>\<open>src/src/memory/page_allocator.rs\<close>. The address of the linker's \<^verbatim>\<open>__end\<close>, the size of a metadata
  entry, the old contents of the memory where the array is placed, and the memory the boot
  loader left are parameters. The metadata array is written between the two passes over the memory
  map, so the second pass has a memory of its own.
\<close>

section \<open>Marking the available regions\<close>

function mark_loop :: "usize \<Rightarrow> usize \<Rightarrow> page_slice \<Rightarrow> page_slice result" where
  "mark_loop pfn end_pfn ps =
     (if pfn < end_pfn \<and> pfn < length ps then
        and_then (checked_mul pfn PAGE_SIZE_4KB) (\<lambda>addr.
        if addr mod PAGE_SIZE_2MB = 0 \<and> pfn + PAGES_PER_2MB \<le> end_pfn \<and> pfn + PAGES_PER_2MB \<le> length ps then
          and_then (modify_at (\<lambda>m. m\<lparr>state := Free2MB\<rparr>) pfn ps) (\<lambda>ps.
          and_then (modify_at (\<lambda>m. m\<lparr>counter := of_nat PAGES_PER_2MB\<rparr>) pfn ps) (\<lambda>ps.
          and_then (for_each [1..<PAGES_PER_2MB] (\<lambda>i. modify_at (\<lambda>m. m\<lparr>state := Unavailable\<rparr>) (pfn + i)) ps) (\<lambda>ps.
          mark_loop (pfn + PAGES_PER_2MB) end_pfn ps)))
        else
          and_then (modify_at (\<lambda>m. m\<lparr>state := Free4KB\<rparr>) pfn ps) (\<lambda>ps.
          mark_loop (pfn + 1) end_pfn ps))
      else Inr ps)"
  by pat_completeness auto
termination
  by (relation "measure (\<lambda>(pfn, end_pfn, ps). end_pfn - pfn)") (auto simp: page_consts)

declare mark_loop.simps [simp del]

definition mark_available :: "usize \<Rightarrow> usize \<Rightarrow> page_allocator \<Rightarrow> page_allocator result" where
  "mark_available base len s =
     and_then (lock_page_array s) (\<lambda>(page_guard, s).
       let start_pfn = base div PAGE_SIZE_4KB in
     and_then (checked_add base len) (\<lambda>e.
       let end_pfn = e div PAGE_SIZE_4KB in
     and_then (load_kernel_end s) (\<lambda>(k, s).
       let kernel_pfn = k div PAGE_SIZE_4KB in
     and_then (mark_loop (max start_pfn kernel_pfn) end_pfn (pages s)) (\<lambda>ps.
     Inr (drop_page_array page_guard (set_pages ps s))))))"

section \<open>Building the free lists\<close>

definition build_body :: "usize \<Rightarrow> page_slice \<times> usize option \<times> usize option \<Rightarrow> (page_slice \<times> usize option \<times> usize option) result" where
  "build_body pfn = (\<lambda>(ps, head_4kb, head_2mb).
     and_then (get_at ps pfn) (\<lambda>m.
     case state m of
       Free4KB \<Rightarrow> and_then (link_front pfn head_4kb ps) (\<lambda>(ps, h). Inr (ps, h, head_2mb))
     | Free2MB \<Rightarrow> and_then (link_front pfn head_2mb ps) (\<lambda>(ps, h). Inr (ps, head_4kb, h))
     | _ \<Rightarrow> Inr (ps, head_4kb, head_2mb)))"

definition build_lists :: "page_allocator \<Rightarrow> page_allocator result" where
  "build_lists s =
     and_then (lock_page_array s) (\<lambda>(page_guard, s).
     and_then (for_each [0..<length (pages s)] build_body (pages s, None, None)) (\<lambda>(ps, head_4kb, head_2mb).
       let s = set_pages ps s in
     and_then (store_4kb head_4kb s) (\<lambda>s.
     and_then (store_2mb head_2mb s) (\<lambda>s.
     Inr (drop_page_array page_guard s)))))"

section \<open>Initialisation\<close>

text \<open>A line printed to the console: the format and the values.\<close>

type_synonym log_line = "string \<times> nat list"

text \<open>The counters of \<^verbatim>\<open>init\<close> have Rust's default integer type \<^verbatim>\<open>i32\<close>.\<close>

definition checked_i32 :: "nat \<Rightarrow> nat result" where
  "checked_i32 x = (if x < 2 ^ 31 then Inr x else Inl ArithmeticOverflow)"

definition count_body :: "page_slice \<Rightarrow> usize \<Rightarrow> nat \<times> nat \<Rightarrow> (nat \<times> nat) result" where
  "count_body ps pfn = (\<lambda>(free_4kb, free_2mb).
     and_then (get_at ps pfn) (\<lambda>m.
     case state m of
       Free4KB \<Rightarrow> and_then (checked_i32 (free_4kb + 1)) (\<lambda>c. Inr (c, free_2mb))
     | Free2MB \<Rightarrow> and_then (checked_i32 (free_2mb + 1)) (\<lambda>c. Inr (free_4kb, c))
     | _ \<Rightarrow> Inr (free_4kb, free_2mb)))"

definition count_free :: "page_allocator \<Rightarrow> (log_line list \<times> page_allocator) result" where
  "count_free s =
     and_then (lock_page_array s) (\<lambda>(page_guard, s).
     and_then (for_each [0..<length (pages s)] (count_body (pages s)) (0, 0)) (\<lambda>(free_4kb, free_2mb).
       let s = drop_page_array page_guard s in
     and_then (checked_i32 (free_4kb * 4)) (\<lambda>kb4.
     and_then (checked_i32 (free_2mb * 2048)) (\<lambda>kb2.
     and_then (checked_i32 (kb4 + kb2)) (\<lambda>kb.
     Inr ([(''Free 4KB pages: {}'', [free_4kb]), (''Free 2MB pages: {}'', [free_2mb]),
           (''Total free memory: {} MB'', [kb div 1024])], s))))))"

definition max_area :: "memory_area \<Rightarrow> usize \<Rightarrow> usize result" where
  "max_area entry actual_max =
     (if area_typ entry = 1 then
        and_then (checked_add (unat (base_addr entry)) (unat (area_length entry))) (\<lambda>end_addr.
        Inr (if end_addr > actual_max then end_addr else actual_max))
      else Inr actual_max)"

definition mark_area :: "memory_area \<Rightarrow> page_allocator \<Rightarrow> page_allocator result" where
  "mark_area entry s =
     (if area_typ entry = 1 then mark_available (unat (base_addr entry)) (unat (area_length entry)) s else Inr s)"

definition round_up :: "usize \<Rightarrow> usize \<Rightarrow> usize result" where
  "round_up x n = and_then (checked_add x n) (\<lambda>y. and_then (checked_sub y 1) (\<lambda>y. Inr (and_not y (n - 1))))"

text \<open>The part of \<^verbatim>\<open>init\<close> between the two passes: where the array goes and how far it reaches.\<close>

definition place_array ::
  "usize \<Rightarrow> usize \<Rightarrow> (usize \<Rightarrow> page_metadata) \<Rightarrow> usize \<Rightarrow> page_allocator \<Rightarrow> (log_line list \<times> page_allocator) result" where
  "place_array end_sym meta_size raw actual_max s =
     and_then (round_up actual_max PAGE_SIZE_2MB) (\<lambda>max_addr.
       let total_pages = max_addr div PAGE_SIZE_4KB in
     and_then (round_up end_sym PAGE_SIZE_4KB) (\<lambda>kend.
     and_then (checked_mul total_pages meta_size) (\<lambda>metadata_size.
     and_then (for_each [0..<total_pages] (modify_at (\<lambda>_. new_metadata)) (map raw [0..<total_pages])) (\<lambda>slice.
     and_then (lock_page_array s) (\<lambda>(wrapper, s).
       let s = drop_page_array wrapper
                 (s\<lparr>page_array := deref_mut (\<lambda>_. \<lparr>ptr = kend, slots = slice\<rparr>) (page_array s)\<rparr>) in
     and_then (checked_add kend metadata_size) (\<lambda>x.
     and_then (round_up x PAGE_SIZE_4KB) (\<lambda>final_kernel_end.
     and_then (store_kernel_end final_kernel_end s) (\<lambda>s.
     Inr ([(''Total pages to track: {}'', [total_pages]), (''Kernel end: {:#x}'', [kend]),
           (''Metadata size: {} bytes ({} KB)'', [metadata_size, metadata_size div 1024]),
           (''Final kernel end (after metadata): {:#x}'', [final_kernel_end])], s)))))))))"

definition init_allocator ::
  "usize \<Rightarrow> usize \<Rightarrow> (usize \<Rightarrow> page_metadata) \<Rightarrow> memory \<Rightarrow> memory \<Rightarrow> usize \<Rightarrow> page_allocator
    \<Rightarrow> (log_line list \<times> page_allocator) result option" where
  "init_allocator end_sym meta_size raw mem mem' mmap s =
     (case memory_areas mem mmap of Inl e \<Rightarrow> Some (Inl e) | Inr it \<Rightarrow>
     case for_areas mem max_area it 0 of None \<Rightarrow> None | Some (Inl e) \<Rightarrow> Some (Inl e) | Some (Inr actual_max) \<Rightarrow>
     case place_array end_sym meta_size raw actual_max s of Inl e \<Rightarrow> Some (Inl e) | Inr (log1, s) \<Rightarrow>
     case memory_areas mem' mmap of Inl e \<Rightarrow> Some (Inl e) | Inr it \<Rightarrow>
     case for_areas mem' mark_area it s of None \<Rightarrow> None | Some (Inl e) \<Rightarrow> Some (Inl e) | Some (Inr s) \<Rightarrow>
     Some (and_then (build_lists s) (\<lambda>s.
           and_then (count_free s) (\<lambda>(log2, s). Inr (log1 @ log2, s)))))"

end
