(* ===== verification/Page_Boot.thy ===== *)
theory Page_Boot
  imports Page_Init
begin

text \<open>
  Start-up establishes the allocator's invariant. After \<^verbatim>\<open>init\<close> on a memory map with disjoint areas,
  the allocator represents the abstract state in which every 4KB frame of an available area that
  lies above the kernel and its metadata is free, aligned runs of 512 frames as superpages.
\<close>

section \<open>The marking loop\<close>

definition mark_state :: "usize \<Rightarrow> usize \<Rightarrow> usize \<Rightarrow> page_state \<Rightarrow> page_state" where
  "mark_state lo hi p st =
     (if lo \<le> sp_of p \<and> sp_of p + PAGES_PER_2MB \<le> hi then (if p = sp_of p then Free2MB else Unavailable)
      else if lo \<le> p \<and> p < hi then Free4KB else st)"

definition mark_counter :: "usize \<Rightarrow> usize \<Rightarrow> usize \<Rightarrow> u16 \<Rightarrow> u16" where
  "mark_counter lo hi p c = (if PAGES_PER_2MB dvd p \<and> lo \<le> p \<and> p + PAGES_PER_2MB \<le> hi then of_nat PAGES_PER_2MB else c)"

definition marked :: "usize \<Rightarrow> usize \<Rightarrow> page_slice \<Rightarrow> page_slice" where
  "marked lo hi ps = map (\<lambda>p. (ps ! p)\<lparr>state := mark_state lo hi p (state (ps ! p)),
     counter := mark_counter lo hi p (counter (ps ! p))\<rparr>) [0..<length ps]"

lemma marked_length [simp]: "length (marked lo hi ps) = length ps"
  by (simp add: marked_def)

lemma marked_nth: "p < length ps \<Longrightarrow> marked lo hi ps ! p = (ps ! p)\<lparr>state := mark_state lo hi p (state (ps ! p)),
     counter := mark_counter lo hi p (counter (ps ! p))\<rparr>"
  by (simp add: marked_def)

lemma for_each_modify:
  "(\<And>x. x \<in> set xs \<Longrightarrow> g x < length ps) \<Longrightarrow> distinct (map g xs) \<Longrightarrow>
   for_each xs (\<lambda>i. modify_at f (g i)) ps =
     Inr (map (\<lambda>p. if p \<in> g ` set xs then f (ps ! p) else ps ! p) [0..<length ps])"
proof (induction xs arbitrary: ps)
  case Nil
  then show ?case by (simp add: map_nth)
next
  case (Cons x xs)
  let ?ps = "ps[g x := f (ps ! g x)]"
  have "for_each (x # xs) (\<lambda>i. modify_at f (g i)) ps = for_each xs (\<lambda>i. modify_at f (g i)) ?ps"
    using Cons.prems(1) by simp
  also have "\<dots> = Inr (map (\<lambda>p. if p \<in> g ` set xs then f (?ps ! p) else ?ps ! p) [0..<length ps])"
    using Cons.IH [of ?ps] Cons.prems by simp
  also have "map (\<lambda>p. if p \<in> g ` set xs then f (?ps ! p) else ?ps ! p) [0..<length ps] =
      map (\<lambda>p. if p \<in> g ` set (x # xs) then f (ps ! p) else ps ! p) [0..<length ps]"
    using Cons.prems(2) by (auto intro!: map_cong)
  finally show ?case .
qed

lemma aligned_addr: "pfn * PAGE_SIZE_4KB mod PAGE_SIZE_2MB = 0 \<longleftrightarrow> PAGES_PER_2MB dvd pfn"
proof -
  have "PAGE_SIZE_2MB = PAGES_PER_2MB * PAGE_SIZE_4KB" by (simp add: page_consts)
  then have "pfn * PAGE_SIZE_4KB mod PAGE_SIZE_2MB = pfn mod PAGES_PER_2MB * PAGE_SIZE_4KB"
    by (simp only: mult_mod_left)
  then show ?thesis by (simp add: PAGE_SIZE_4KB_def mod_eq_0_iff_dvd)
qed

definition whole_block :: "usize \<Rightarrow> page_slice \<Rightarrow> page_slice" where
  "whole_block h ps = map (\<lambda>p. if p = h then (ps ! p)\<lparr>state := Free2MB, counter := of_nat PAGES_PER_2MB\<rparr>
     else if p \<in> block h then (ps ! p)\<lparr>state := Unavailable\<rparr> else ps ! p) [0..<length ps]"

lemma mark_loop_whole:
  assumes "pfn < end_pfn" "pfn < length ps" "pfn * PAGE_SIZE_4KB < usize_limit"
    "PAGES_PER_2MB dvd pfn" "pfn + PAGES_PER_2MB \<le> end_pfn" "pfn + PAGES_PER_2MB \<le> length ps"
  shows "mark_loop pfn end_pfn ps = mark_loop (pfn + PAGES_PER_2MB) end_pfn (whole_block pfn ps)"
proof -
  let ?ps = "ps[pfn := (ps ! pfn)\<lparr>state := Free2MB, counter := of_nat PAGES_PER_2MB\<rparr>]"
  have "for_each [1..<PAGES_PER_2MB] (\<lambda>i. modify_at (\<lambda>m. m\<lparr>state := Unavailable\<rparr>) (pfn + i)) ?ps
      = Inr (whole_block pfn ps)"
    using assms(6) by (subst for_each_modify)
     (auto simp: whole_block_def block_def distinct_map intro!: map_cong)
  then show ?thesis
    using assms by (subst mark_loop.simps) (simp add: aligned_addr)
qed

lemma marked_whole:
  assumes "PAGES_PER_2MB dvd pfn" "pfn + PAGES_PER_2MB \<le> hi" "hi \<le> length ps"
  shows "marked (pfn + PAGES_PER_2MB) hi (whole_block pfn ps) = marked pfn hi ps"
proof (rule nth_equalityI)
  show "length (marked (pfn + PAGES_PER_2MB) hi (whole_block pfn ps)) = length (marked pfn hi ps)"
    by (simp add: whole_block_def)
  fix p
  assume "p < length (marked (pfn + PAGES_PER_2MB) hi (whole_block pfn ps))"
  then have p: "p < length ps" "p < length (whole_block pfn ps)" by (simp_all add: whole_block_def)
  have nth: "whole_block pfn ps ! p = (if p = pfn then (ps ! p)\<lparr>state := Free2MB, counter := of_nat PAGES_PER_2MB\<rparr>
     else if p \<in> block pfn then (ps ! p)\<lparr>state := Unavailable\<rparr> else ps ! p)"
    using p(1) by (simp add: whole_block_def)
  show "marked (pfn + PAGES_PER_2MB) hi (whole_block pfn ps) ! p = marked pfn hi ps ! p"
  proof (cases "p \<in> block pfn")
    case True
    then have q: "sp_of p = pfn" "pfn \<le> p" "p < pfn + PAGES_PER_2MB"
      using sp_of_eq_iff [OF assms(1), of p] by (simp_all add: block_def)
    have al: "PAGES_PER_2MB dvd p \<longleftrightarrow> p = pfn" using q(1) assms(1) sp_of_aligned [of p] by metis
    have "mark_state (pfn + PAGES_PER_2MB) hi p st = st" "mark_counter (pfn + PAGES_PER_2MB) hi p c = c"
      "mark_state pfn hi p st = (if p = pfn then Free2MB else Unavailable)"
      "mark_counter pfn hi p c = (if p = pfn then of_nat PAGES_PER_2MB else c)" for st c
      using q assms(2) by (simp_all add: mark_state_def mark_counter_def al)
    then show ?thesis using p True by (simp add: marked_nth nth)
  next
    case False
    have a: "pfn \<le> q \<longleftrightarrow> pfn + PAGES_PER_2MB \<le> q" if "PAGES_PER_2MB dvd q" "q \<noteq> pfn" for q
      using that assms(1) by (auto simp: page_consts elim!: dvdE)
    have "sp_of p \<noteq> pfn" using False assms(1) by (simp add: sp_of_eq_iff)
    then have "mark_state (pfn + PAGES_PER_2MB) hi p st = mark_state pfn hi p st"
      "mark_counter (pfn + PAGES_PER_2MB) hi p c = mark_counter pfn hi p c" for st c
      using a [of "sp_of p"] a [of p] False by (auto simp: mark_state_def mark_counter_def block_def)
    then show ?thesis using p False by (auto simp: marked_nth nth)
  qed
qed

lemma marked_single:
  assumes "\<not> (PAGES_PER_2MB dvd pfn \<and> pfn + PAGES_PER_2MB \<le> hi)" "pfn < hi" "hi \<le> length ps"
  shows "marked (pfn + 1) hi (ps[pfn := (ps ! pfn)\<lparr>state := Free4KB\<rparr>]) = marked pfn hi ps"
proof (rule nth_equalityI)
  fix p
  assume "p < length (marked (pfn + 1) hi (ps[pfn := (ps ! pfn)\<lparr>state := Free4KB\<rparr>]))"
  then have p: "p < length ps" by simp
  have *: "\<not> (sp_of p = pfn \<and> pfn + PAGES_PER_2MB \<le> hi)" using assms(1) sp_of_dvd [of p] by metis
  have **: "p = pfn \<Longrightarrow> \<not> Suc pfn \<le> sp_of p" using sp_of_le [of p] by simp
  have "mark_state (pfn + 1) hi p (state (ps[pfn := (ps ! pfn)\<lparr>state := Free4KB\<rparr>] ! p)) = mark_state pfn hi p (state (ps ! p))"
    "mark_counter (pfn + 1) hi p c = mark_counter pfn hi p c" for c
    using * ** assms p by (auto simp: mark_state_def mark_counter_def Suc_le_eq order_less_le)
  then show "marked (pfn + 1) hi (ps[pfn := (ps ! pfn)\<lparr>state := Free4KB\<rparr>]) ! p = marked pfn hi ps ! p"
    using p by (simp add: marked_nth)
qed simp

lemma marked_empty: "hi \<le> lo \<Longrightarrow> marked lo hi ps = ps"
  by (rule nth_equalityI) (auto simp: marked_nth mark_state_def mark_counter_def page_consts)

lemma mark_loop_marked:
  assumes "length ps * PAGE_SIZE_4KB < usize_limit"
  shows "mark_loop pfn end_pfn ps = Inr (marked pfn (min end_pfn (length ps)) ps)"
  using assms
proof (induction "end_pfn - pfn" arbitrary: pfn ps rule: less_induct)
  case less
  let ?hi = "min end_pfn (length ps)"
  show ?case
  proof (cases "pfn < end_pfn \<and> pfn < length ps")
    case False
    then show ?thesis by (subst mark_loop.simps) (auto simp: marked_empty)
  next
    case True
    then have "pfn * PAGE_SIZE_4KB \<le> length ps * PAGE_SIZE_4KB" by (intro mult_le_mono1) simp
    with less.prems have ov: "pfn * PAGE_SIZE_4KB < usize_limit" by (rule le_less_trans [rotated])
    show ?thesis
    proof (cases "PAGES_PER_2MB dvd pfn \<and> pfn + PAGES_PER_2MB \<le> ?hi")
      case whole: True
      have m: "end_pfn - (pfn + PAGES_PER_2MB) < end_pfn - pfn" using True by (simp add: page_consts diff_less_mono2)
      have len: "length (whole_block pfn ps) = length ps" by (simp add: whole_block_def)
      have "mark_loop pfn end_pfn ps = mark_loop (pfn + PAGES_PER_2MB) end_pfn (whole_block pfn ps)"
        using True whole ov by (intro mark_loop_whole) auto
      also have "\<dots> = Inr (marked (pfn + PAGES_PER_2MB) ?hi (whole_block pfn ps))"
        using less.hyps [OF m, of "whole_block pfn ps"] less.prems len by simp
      finally show ?thesis using whole by (simp add: marked_whole)
    next
      case single: False
      have "mark_loop pfn end_pfn ps = mark_loop (pfn + 1) end_pfn (ps[pfn := (ps ! pfn)\<lparr>state := Free4KB\<rparr>])"
        using True single ov by (subst mark_loop.simps) (auto simp: aligned_addr)
      also have "\<dots> = Inr (marked (pfn + 1) ?hi (ps[pfn := (ps ! pfn)\<lparr>state := Free4KB\<rparr>]))"
        using less.hyps [of "pfn + 1" "ps[pfn := (ps ! pfn)\<lparr>state := Free4KB\<rparr>]"] less.prems True by (simp add: diff_less_mono2)
      finally show ?thesis using single True by (simp add: marked_single del: One_nat_def)
    qed
  qed
qed

section \<open>Marking a memory map\<close>

text \<open>A list of frame ranges, and the frames and aligned superpages it covers.\<close>

type_synonym ranges = "(usize \<times> usize) list"

definition covered :: "ranges \<Rightarrow> usize \<Rightarrow> bool" where
  "covered rs p \<longleftrightarrow> (\<exists>(lo, hi)\<in>set rs. lo \<le> p \<and> p < hi)"

definition whole :: "ranges \<Rightarrow> usize \<Rightarrow> bool" where
  "whole rs h \<longleftrightarrow> PAGES_PER_2MB dvd h \<and> (\<exists>(lo, hi)\<in>set rs. lo \<le> h \<and> h + PAGES_PER_2MB \<le> hi)"

definition disjoint_ranges :: "ranges \<Rightarrow> bool" where
  "disjoint_ranges = sorted_wrt (\<lambda>(lo, hi) (lo', hi'). hi \<le> lo' \<or> hi' \<le> lo)"

definition area_state :: "ranges \<Rightarrow> usize \<Rightarrow> page_state" where
  "area_state rs p = (if whole rs (sp_of p) then (if p = sp_of p then Free2MB else Unavailable)
     else if covered rs p then Free4KB else Unavailable)"

definition area_pages :: "usize \<Rightarrow> ranges \<Rightarrow> page_slice" where
  "area_pages n rs = map (\<lambda>p. new_metadata\<lparr>state := area_state rs p,
     counter := if whole rs p then of_nat PAGES_PER_2MB else 0\<rparr>) [0..<n]"

lemma area_pages_nth:
  "p < n \<Longrightarrow> area_pages n rs ! p = new_metadata\<lparr>state := area_state rs p, counter := if whole rs p then of_nat PAGES_PER_2MB else 0\<rparr>"
  by (simp add: area_pages_def)

lemma area_pages_length [simp]: "length (area_pages n rs) = n"
  by (simp add: area_pages_def)

lemma area_pages_Nil: "area_pages n [] = replicate n new_metadata"
  by (rule nth_equalityI) (auto simp: area_pages_nth area_state_def whole_def covered_def new_metadata_def)

lemma covered_snoc: "covered (rs @ [(lo, hi)]) p \<longleftrightarrow> covered rs p \<or> lo \<le> p \<and> p < hi"
  by (auto simp: covered_def)

lemma whole_snoc: "whole (rs @ [(lo, hi)]) h \<longleftrightarrow> whole rs h \<or> PAGES_PER_2MB dvd h \<and> lo \<le> h \<and> h + PAGES_PER_2MB \<le> hi"
  by (auto simp: whole_def)

lemma mem_sp_block: "sp_of p \<le> p" "p < sp_of p + PAGES_PER_2MB"
  using sp_of_eq_iff [OF sp_of_dvd, of p p] by (simp_all add: block_def)

lemma whole_covered: "whole rs (sp_of p) \<Longrightarrow> covered rs p"
  using mem_sp_block [of p] unfolding whole_def covered_def by (elim conjE bexE) (rule bexI, auto)

lemma disjoint_snoc:
  assumes "disjoint_ranges (rs @ [(lo, hi)])" and "lo \<le> p" and "p < hi"
  shows "\<not> covered rs p"
  using assms by (auto simp: disjoint_ranges_def sorted_wrt_append covered_def)

lemma mark_area_pages:
  assumes "disjoint_ranges (rs @ [(lo, hi)])"
  shows "marked lo hi (area_pages n rs) = area_pages n (rs @ [(lo, hi)])"
proof (rule nth_equalityI)
  fix p
  assume "p < length (marked lo hi (area_pages n rs))"
  then have p: "p < n" by simp
  have "mark_state lo hi p (area_state rs p) = area_state (rs @ [(lo, hi)]) p"
  proof -
    have "lo \<le> p \<and> p < hi \<Longrightarrow> \<not> whole rs (sp_of p)"
      using disjoint_snoc [OF assms] whole_covered by blast
    then show ?thesis
      unfolding mark_state_def area_state_def whole_snoc covered_snoc by (simp only: sp_of_dvd) auto
  qed
  moreover have "mark_counter lo hi p (if whole rs p then of_nat PAGES_PER_2MB else 0) =
      (if whole (rs @ [(lo, hi)]) p then of_nat PAGES_PER_2MB else 0)"
    unfolding mark_counter_def whole_snoc by auto
  ultimately show "marked lo hi (area_pages n rs) ! p = area_pages n (rs @ [(lo, hi)]) ! p"
    using p by (simp add: marked_nth area_pages_nth)
qed simp

lemma mark_available_exec:
  assumes "unlocked s" and "base + len < usize_limit" and "length (pages s) * PAGE_SIZE_4KB < usize_limit"
    and "k = deref (kernel_end s) div PAGE_SIZE_4KB"
  shows "mark_available base len s = Inr (set_pages (marked (max (base div PAGE_SIZE_4KB) k)
    (min ((base + len) div PAGE_SIZE_4KB) (length (pages s))) (pages s)) s)"
  using assms
  by (elim unlocked_cases)
    (simp add: mark_available_def load_kernel_end_def lock_exec access_exec mark_loop_marked)

text \<open>The frame ranges of the available areas, above frame \<open>k\<close> and below frame \<open>n\<close>.\<close>

definition range_of :: "usize \<Rightarrow> usize \<Rightarrow> memory_area \<Rightarrow> usize \<times> usize" where
  "range_of k n area = (max (unat (base_addr area) div PAGE_SIZE_4KB) k,
     min ((unat (base_addr area) + unat (area_length area)) div PAGE_SIZE_4KB) n)"

definition ranges_of :: "usize \<Rightarrow> usize \<Rightarrow> memory_area list \<Rightarrow> ranges" where
  "ranges_of k n areas = map (range_of k n) (filter (\<lambda>m. area_typ m = 1) areas)"

text \<open>The available areas end below \<open>2 ^ 64\<close> and no two of them have a byte in common.\<close>

definition area_end :: "memory_area \<Rightarrow> nat" where
  "area_end area = unat (base_addr area) + unat (area_length area)"

definition good_areas :: "memory_area list \<Rightarrow> bool" where
  "good_areas areas \<longleftrightarrow> (\<forall>m\<in>set areas. area_typ m = 1 \<longrightarrow> area_end m < usize_limit) \<and>
     sorted_wrt (\<lambda>m m'. area_end m \<le> unat (base_addr m') \<or> area_end m' \<le> unat (base_addr m))
       (filter (\<lambda>m. area_typ m = 1) areas)"

lemma good_areas_disjoint: "good_areas areas \<Longrightarrow> disjoint_ranges (ranges_of k n areas)"
  unfolding disjoint_ranges_def ranges_of_def good_areas_def sorted_wrt_map
  by (elim conjE, erule sorted_wrt_mono_rel [rotated])
    (auto simp: range_of_def area_end_def max_def min_def dest: div_le_mono [where k = PAGE_SIZE_4KB])

lemma disjoint_prefix: "disjoint_ranges (xs @ ys) \<Longrightarrow> disjoint_ranges xs"
  by (simp add: disjoint_ranges_def sorted_wrt_append)

lemma mark_areas_exec:
  assumes "unlocked s" and "pages s = area_pages n []" and "n * PAGE_SIZE_4KB < usize_limit"
    and "k = deref (kernel_end s) div PAGE_SIZE_4KB" and "good_areas areas"
  shows "for_each areas mark_area s = Inr (set_pages (area_pages n (ranges_of k n areas)) s)"
proof -
  let ?P = "\<lambda>xs t. t = set_pages (area_pages n (ranges_of k n xs)) s"
  have "\<exists>t. for_each areas mark_area s = Inr t \<and> ?P areas t"
  proof (rule for_each_invariant)
    show "?P [] s" using assms(2) by (simp add: ranges_of_def) (metis set_simps(7))
    fix xs m ys t
    assume eq: "areas = xs @ m # ys" and t: "?P xs t"
    show "\<exists>u. mark_area m t = Inr u \<and> ?P (xs @ [m]) u"
    proof (cases "area_typ m = 1")
      case False
      then show ?thesis using t by (simp add: mark_area_def ranges_of_def)
    next
      case True
      have rs: "ranges_of k n (xs @ [m]) = ranges_of k n xs @ [range_of k n m]"
        using True by (simp add: ranges_of_def)
      have "ranges_of k n areas = ranges_of k n (xs @ [m]) @ ranges_of k n ys"
        by (simp add: ranges_of_def eq)
      then have dj: "disjoint_ranges (ranges_of k n xs @ [range_of k n m])"
        using good_areas_disjoint [OF assms(5), of k n] disjoint_prefix rs by metis
      have "marked (fst (range_of k n m)) (snd (range_of k n m)) (area_pages n (ranges_of k n xs))
          = area_pages n (ranges_of k n (xs @ [m]))"
        unfolding rs using dj mark_area_pages [of "ranges_of k n xs"] by (cases "range_of k n m") simp
      moreover have "unat (base_addr m) + unat (area_length m) < usize_limit"
        using assms(5) True unfolding good_areas_def eq area_end_def by simp
      then have "mark_available (unat (base_addr m)) (unat (area_length m)) t = Inr (set_pages
          (marked (fst (range_of k n m)) (snd (range_of k n m)) (area_pages n (ranges_of k n xs))) s)"
        using assms(1,3,4) t by (subst mark_available_exec [where k = k]) (simp_all add: range_of_def)
      ultimately show ?thesis using True by (simp add: mark_area_def)
    qed
  qed
  then show ?thesis by blast
qed

section \<open>Building the lists\<close>

lemma build_loop:
  "\<exists>ps' h4 h2. for_each [0..<length ps] build_body (ps, None, None) = Inr (ps', h4, h2) \<and> same_meta ps ps' \<and>
    dll ps' h4 (rev (filter (\<lambda>p. state (ps ! p) = Free4KB) [0..<length ps])) \<and>
    dll ps' h2 (rev (filter (\<lambda>p. state (ps ! p) = Free2MB) [0..<length ps]))"
proof -
  let ?L = "\<lambda>st xs. rev (filter (\<lambda>p. state (ps ! p) = st) xs)"
  let ?P = "\<lambda>xs (ps', h4, h2). same_meta ps ps' \<and> dll ps' h4 (?L Free4KB xs) \<and> dll ps' h2 (?L Free2MB xs)"
  have "\<exists>t. for_each [0..<length ps] build_body (ps, None, None) = Inr t \<and> ?P [0..<length ps] t"
  proof (rule for_each_invariant)
    fix xs p ys t
    assume eq: "[0..<length ps] = xs @ p # ys" and "?P xs t"
    then obtain qs h4 h2 where t: "t = (qs, h4, h2)" and m: "same_meta ps qs"
      and d: "dll qs h4 (?L Free4KB xs)" "dll qs h2 (?L Free2MB xs)" by (cases t) auto
    have "distinct (xs @ p # ys)" "p \<in> set [0..<length ps]" using eq distinct_upt by (metis, simp)
    then have p: "p < length ps" "p < length qs" "p \<notin> set xs" using m by (auto simp: same_meta_def)
    have st: "state (qs ! p) = state (ps ! p)" using same_meta_nth(1) [OF m p(1)] .
    have keep: "dll qs' h (?L st xs)" if "dll qs h (?L st xs)" "same_links (- insert p (set (?L st' xs))) qs qs'" "st \<noteq> st'"
      for qs' h st st'
      using that p(3) by (auto elim!: dll_same_links [rotated] same_links_mono)
    show "\<exists>u. build_body p t = Inr u \<and> ?P (xs @ [p]) u"
    proof (cases "state (ps ! p)")
      case Free4KB
      from link_front_ok [OF d(1) p(2)] p(3) obtain qs' where
        "link_front p h4 qs = Inr (qs', Some p)" "dll qs' (Some p) (p # ?L Free4KB xs)"
        "same_links (- insert p (set (?L Free4KB xs))) qs qs'" "same_meta qs qs'" by auto
      then show ?thesis using Free4KB st p m d(2) keep [OF d(2)] same_meta_trans [OF m]
        by (simp add: build_body_def t)
    next
      case Free2MB
      from link_front_ok [OF d(2) p(2)] p(3) obtain qs' where
        "link_front p h2 qs = Inr (qs', Some p)" "dll qs' (Some p) (p # ?L Free2MB xs)"
        "same_links (- insert p (set (?L Free2MB xs))) qs qs'" "same_meta qs qs'" by auto
      then show ?thesis using Free2MB st p m d(1) keep [OF d(1)] same_meta_trans [OF m]
        by (simp add: build_body_def t)
    qed (use st p m d in \<open>simp_all add: build_body_def t\<close>)
  qed simp
  then show ?thesis by fastforce
qed

section \<open>The initial abstract state\<close>

definition boot_frames :: "usize \<Rightarrow> ranges \<Rightarrow> frames" where
  "boot_frames n rs = \<lparr>free4 = rev (filter (\<lambda>p. area_state rs p = Free4KB) [0..<n]),
     free2 = rev (filter (\<lambda>p. area_state rs p = Free2MB) [0..<n]), used4 = {}, used2 = {}, credit = \<lambda>_. 0\<rparr>"

lemma area_state_Free2MB: "area_state rs p = Free2MB \<longleftrightarrow> whole rs p"
proof
  assume "area_state rs p = Free2MB"
  then show "whole rs p" by (simp add: area_state_def split: if_splits)
next
  assume w: "whole rs p"
  then have "sp_of p = p" by (simp add: whole_def sp_of_aligned)
  then show "area_state rs p = Free2MB" using w by (simp add: area_state_def)
qed

lemma area_state_Free4KB: "area_state rs p = Free4KB \<longleftrightarrow> covered rs p \<and> \<not> whole rs (sp_of p)"
  by (simp add: area_state_def)

lemma boot_frames_sel [simp]:
  "set (free4 (boot_frames n rs)) = {p. p < n \<and> covered rs p \<and> \<not> whole rs (sp_of p)}"
  "set (free2 (boot_frames n rs)) = {p. p < n \<and> whole rs p}"
  "used4 (boot_frames n rs) = {}" "used2 (boot_frames n rs) = {}" "credit (boot_frames n rs) h = 0"
  by (auto simp: boot_frames_def area_state_Free4KB area_state_Free2MB)

text \<open>The free frames are those of the ranges.\<close>

lemma boot_frames_cover:
  assumes "PAGES_PER_2MB dvd n"
  shows "set (free4 (boot_frames n rs)) \<union> \<Union> (block ` set (free2 (boot_frames n rs))) = {p. p < n \<and> covered rs p}"
proof (intro set_eqI iffI)
  fix p
  assume "p \<in> set (free4 (boot_frames n rs)) \<union> \<Union> (block ` set (free2 (boot_frames n rs)))"
  then consider "p < n" "covered rs p" | h where "p \<in> block h" "h < n" "whole rs h" by auto
  then show "p \<in> {p. p < n \<and> covered rs p}"
  proof cases
    case (2 h)
    then have h: "PAGES_PER_2MB dvd h" by (simp add: whole_def)
    then have "sp_of p = h" using 2(1) by (simp add: sp_of_eq_iff)
    then show ?thesis
      using 2 whole_covered [of rs p] block_in_range [OF assms h 2(2)] by (simp add: block_def)
  qed simp
next
  fix p
  assume p: "p \<in> {p. p < n \<and> covered rs p}"
  show "p \<in> set (free4 (boot_frames n rs)) \<union> \<Union> (block ` set (free2 (boot_frames n rs)))"
  proof (cases "whole rs (sp_of p)")
    case True
    have "p \<in> block (sp_of p)" using mem_sp_block [of p] by (simp add: block_def)
    moreover have "sp_of p < n" using p sp_of_small_range by simp
    ultimately show ?thesis using True by auto
  qed (use p in simp)
qed

lemma wf_boot_frames:
  assumes "PAGES_PER_2MB dvd n" and "n * PAGE_SIZE_4KB < usize_limit" and "\<And>lo hi. (lo, hi) \<in> set rs \<Longrightarrow> k \<le> lo"
  shows "wf_frames k n (boot_frames n rs)"
proof -
  have lo: "k \<le> p" if "covered rs p" for p using that assms(3) by (fastforce simp: covered_def)
  have lo2: "k \<le> p" if "whole rs p" for p using that assms(3) by (fastforce simp: whole_def)
  have "distinct (free4 (boot_frames n rs))" "distinct (free2 (boot_frames n rs))"
    by (simp_all add: boot_frames_def)
  then show ?thesis
    unfolding wf_frames_def using assms(1,2) lo lo2 by (auto simp: whole_def)
qed

lemma rep_boot:
  assumes "unlocked s" and "wf_frames k n (boot_frames n rs)" and "same_meta (area_pages n rs) (pages s)"
    and "dll (pages s) (head_4kb s) (free4 (boot_frames n rs))" and "dll (pages s) (head_2mb s) (free2 (boot_frames n rs))"
  shows "rep k s (boot_frames n rs)"
proof -
  note nth = same_meta_nth [OF assms(3), unfolded area_pages_length]
  have len: "length (pages s) = n" using assms(3) by (simp add: same_meta_def)
  have "meta_ok (pages s) (boot_frames n rs)"
  proof (rule meta_okI, goal_cases)
    case (1 p)
    then show ?case using nth(1) [of p] by (simp add: area_pages_nth area_state_Free4KB)
  next
    case (2 p)
    then show ?case using nth(1) [of p] by (simp add: area_pages_nth area_state_Free2MB)
  next
    case (5 p)
    then show ?case using nth(1) [of p] len by (simp add: area_pages_nth area_state_Free4KB)
  next
    case (6 p)
    then show ?case using nth(2) [of p] len by (simp add: area_pages_nth)
  qed simp_all
  then show ?thesis using assms len by (simp add: rep_def)
qed

lemma build_lists_rep:
  assumes "unlocked s" and "pages s = area_pages n rs" and "wf_frames k n (boot_frames n rs)"
  shows "\<exists>t. build_lists s = Inr t \<and> rep k t (boot_frames n rs) \<and> same_env s t \<and> same_meta (area_pages n rs) (pages t)"
proof -
  have "filter (\<lambda>p. state (area_pages n rs ! p) = st) [0..<n] = filter (\<lambda>p. area_state rs p = st) [0..<n]" for st
    by (rule filter_cong) (simp_all add: area_pages_nth)
  with build_loop [of "area_pages n rs"] obtain ps h4 h2 where
    1: "for_each [0..<n] build_body (area_pages n rs, None, None) = Inr (ps, h4, h2)" "same_meta (area_pages n rs) ps"
      "dll ps h4 (free4 (boot_frames n rs))" "dll ps h2 (free2 (boot_frames n rs))"
    by (auto simp: boot_frames_def)
  let ?t = "set_head_2mb h2 (set_head_4kb h4 (set_pages ps s))"
  have "build_lists s = Inr ?t"
    using assms(1,2) 1(1)
    by (elim unlocked_cases) (simp add: build_lists_def store_4kb_def store_2mb_def lock_exec access_exec)
  moreover have "rep k ?t (boot_frames n rs)"
    using assms(1,3) 1 by (intro rep_boot) simp_all
  moreover have "same_env s ?t" using 1(2) assms(2) by (simp add: same_env_def same_meta_def)
  ultimately show ?thesis using 1(2) by auto
qed

section \<open>The whole of start-up\<close>

definition count_state :: "page_slice \<Rightarrow> page_state \<Rightarrow> usize list \<Rightarrow> nat" where
  "count_state ps st xs = length (filter (\<lambda>p. state (ps ! p) = st) xs)"

lemma count_loop:
  assumes "\<And>p. p \<in> set xs \<Longrightarrow> p < length ps" and "count_state ps Free4KB xs < 2 ^ 31" and "count_state ps Free2MB xs < 2 ^ 31"
  shows "for_each xs (count_body ps) (0, 0) = Inr (count_state ps Free4KB xs, count_state ps Free2MB xs)"
  using assms
proof (induction xs rule: rev_induct)
  case (snoc p xs)
  have "count_state ps st xs \<le> count_state ps st (xs @ [p])" for st by (simp add: count_state_def)
  then have IH: "for_each xs (count_body ps) (0, 0) = Inr (count_state ps Free4KB xs, count_state ps Free2MB xs)"
    using snoc.prems by (intro snoc.IH) (auto intro: le_less_trans)
  have "count_body ps p (count_state ps Free4KB xs, count_state ps Free2MB xs) =
      Inr (count_state ps Free4KB (xs @ [p]), count_state ps Free2MB (xs @ [p]))"
    using snoc.prems by (cases "state (ps ! p)") (simp_all add: count_body_def count_state_def checked_i32_def)
  then show ?case by (simp add: for_each_append IH)
qed (simp add: count_state_def)

text \<open>The free memory in KB.\<close>

definition free_kb :: "frames \<Rightarrow> nat" where
  "free_kb a = length (free4 a) * 4 + length (free2 a) * 2048"

lemma count_free_exec:
  assumes "unlocked s" and "same_meta (area_pages n rs) (pages s)" and "free_kb (boot_frames n rs) < 2 ^ 31"
  shows "count_free s = Inr ([(''Free 4KB pages: {}'', [length (free4 (boot_frames n rs))]),
    (''Free 2MB pages: {}'', [length (free2 (boot_frames n rs))]),
    (''Total free memory: {} MB'', [free_kb (boot_frames n rs) div 1024])], s)"
proof -
  have len: "length (pages s) = n" using assms(2) by (simp add: same_meta_def)
  have "filter (\<lambda>p. state (pages s ! p) = st) [0..<n] = filter (\<lambda>p. area_state rs p = st) [0..<n]" for st
    using same_meta_nth(1) [OF assms(2)] by (intro filter_cong) (simp_all add: area_pages_nth)
  then have c: "count_state (pages s) Free4KB [0..<n] = length (free4 (boot_frames n rs))"
    "count_state (pages s) Free2MB [0..<n] = length (free2 (boot_frames n rs))"
    by (simp_all add: count_state_def boot_frames_def)
  have "for_each [0..<n] (count_body (pages s)) (0, 0) =
      Inr (length (free4 (boot_frames n rs)), length (free2 (boot_frames n rs)))"
    using count_loop [of "[0..<n]" "pages s"] assms(3) len unfolding c free_kb_def by simp
  then show ?thesis
    using assms(1,3) len
    by (elim unlocked_cases) (simp add: count_free_def checked_i32_def free_kb_def lock_exec access_exec)
qed

lemma round_up_exec:
  assumes "x + 2 ^ k < usize_limit" and "k < 64"
  shows "round_up x (2 ^ k) = Inr ((x + (2 ^ k - 1)) div 2 ^ k * 2 ^ k)"
proof -
  have "Suc 0 \<le> x + 2 ^ k" by (simp add: Suc_le_eq)
  moreover have "x + 2 ^ k - Suc 0 < usize_limit" using assms(1) by simp
  ultimately show ?thesis using assms by (simp add: round_up_def)
qed

definition top_of :: "memory_area list \<Rightarrow> nat" where
  "top_of areas = fold max (map area_end (filter (\<lambda>m. area_typ m = 1) areas)) 0"

lemma max_area_loop:
  assumes "\<forall>m\<in>set areas. area_typ m = 1 \<longrightarrow> area_end m < usize_limit"
  shows "for_each areas max_area x = Inr (fold max (map area_end (filter (\<lambda>m. area_typ m = 1) areas)) x)"
  using assms
proof (induction areas arbitrary: x)
  case (Cons m areas)
  then show ?case by (auto simp: max_area_def area_end_def max_def)
qed simp

text \<open>Where start-up puts things: the number of frames, the metadata array, and the first frame behind it.\<close>

definition total_pages :: "memory_area list \<Rightarrow> nat" where
  "total_pages areas = (top_of areas + (PAGE_SIZE_2MB - 1)) div PAGE_SIZE_2MB * PAGES_PER_2MB"

definition page_up :: "nat \<Rightarrow> nat" where
  "page_up x = (x + (PAGE_SIZE_4KB - 1)) div PAGE_SIZE_4KB * PAGE_SIZE_4KB"

definition final_end :: "usize \<Rightarrow> usize \<Rightarrow> memory_area list \<Rightarrow> nat" where
  "final_end end_sym meta_size areas = page_up (page_up end_sym + total_pages areas * meta_size)"

lemma round_up_4kb: "x + PAGE_SIZE_4KB < usize_limit \<Longrightarrow> round_up x PAGE_SIZE_4KB = Inr (page_up x)"
  using round_up_exec [of x 12] by (simp add: page_up_def PAGE_SIZE_4KB_def)

lemma round_up_2mb:
  "x + PAGE_SIZE_2MB < usize_limit \<Longrightarrow>
   round_up x PAGE_SIZE_2MB = Inr ((x + (PAGE_SIZE_2MB - 1)) div PAGE_SIZE_2MB * PAGE_SIZE_2MB)"
  using round_up_exec [of x 21] by (simp add: PAGE_SIZE_2MB_def)

lemma clear_loop: "for_each [0..<n] (modify_at (\<lambda>_. c)) (map f [0..<n]) = Inr (replicate n c)"
  using for_each_modify [of "[0..<n]" "\<lambda>i. i" "map f [0..<n]" "\<lambda>_. c"]
  by (auto intro!: nth_equalityI)

definition fits :: "usize \<Rightarrow> usize \<Rightarrow> memory_area list \<Rightarrow> bool" where
  "fits end_sym meta_size areas \<longleftrightarrow> top_of areas + PAGE_SIZE_2MB < usize_limit \<and>
     end_sym + total_pages areas * meta_size + 2 * PAGE_SIZE_4KB < usize_limit"

definition placed :: "usize \<Rightarrow> usize \<Rightarrow> memory_area list \<Rightarrow> page_allocator \<Rightarrow> page_allocator" where
  "placed end_sym meta_size areas s =
     s\<lparr>page_array := \<lparr>locked = False, data = \<lparr>ptr = page_up end_sym, slots = replicate (total_pages areas) new_metadata\<rparr>\<rparr>,
       kernel_end := \<lparr>locked = False, data = final_end end_sym meta_size areas\<rparr>\<rparr>"

lemma place_array_exec:
  assumes "unlocked s" and "fits end_sym meta_size areas"
  shows "place_array end_sym meta_size raw (top_of areas) s =
    Inr ([(''Total pages to track: {}'', [total_pages areas]), (''Kernel end: {:#x}'', [page_up end_sym]),
          (''Metadata size: {} bytes ({} KB)'', [total_pages areas * meta_size, total_pages areas * meta_size div 1024]),
          (''Final kernel end (after metadata): {:#x}'', [final_end end_sym meta_size areas])],
      placed end_sym meta_size areas s)"
proof -
  let ?n = "total_pages areas" and ?max = "(top_of areas + (PAGE_SIZE_2MB - 1)) div PAGE_SIZE_2MB * PAGE_SIZE_2MB"
  have f: "top_of areas + PAGE_SIZE_2MB < usize_limit" "end_sym + ?n * meta_size + 2 * PAGE_SIZE_4KB < usize_limit"
    using assms(2) by (simp_all add: fits_def)
  have n: "?max div PAGE_SIZE_4KB = ?n"
  proof -
    have "PAGE_SIZE_2MB = PAGES_PER_2MB * PAGE_SIZE_4KB" by (simp add: page_consts)
    then have "?max = ?n * PAGE_SIZE_4KB" unfolding total_pages_def by simp
    then show ?thesis by (simp add: PAGE_SIZE_4KB_def)
  qed
  have up: "page_up end_sym < end_sym + PAGE_SIZE_4KB"
    unfolding page_up_def by (rule round_up_bounds) (simp add: PAGE_SIZE_4KB_def)
  have e: "round_up end_sym PAGE_SIZE_4KB = Inr (page_up end_sym)"
    "checked_mul ?n meta_size = Inr (?n * meta_size)"
    "checked_add (page_up end_sym) (?n * meta_size) = Inr (page_up end_sym + ?n * meta_size)"
    "round_up (page_up end_sym + ?n * meta_size) PAGE_SIZE_4KB = Inr (final_end end_sym meta_size areas)"
    using f(2) up unfolding final_end_def by (simp_all add: round_up_4kb)
  show ?thesis
    unfolding place_array_def round_up_2mb [OF f(1)] and_then_Inr Let_def n e clear_loop
    using assms(1)
    by (elim unlocked_cases) (simp add: e placed_def store_kernel_end_def lock_exec access_exec)
qed

lemma unlocked_placed [simp]: "unlocked s \<Longrightarrow> unlocked (placed end_sym meta_size areas s)"
  by (simp add: unlocked_def placed_def)

lemma placed_sel [simp]:
  "pages (placed end_sym meta_size areas s) = area_pages (total_pages areas) []"
  "deref (kernel_end (placed end_sym meta_size areas s)) = final_end end_sym meta_size areas"
  "rflags (placed end_sym meta_size areas s) = rflags s"
  by (simp_all add: placed_def area_pages_Nil access_exec)

lemma total_pages_dvd: "PAGES_PER_2MB dvd total_pages areas"
  by (simp add: total_pages_def)

lemma total_pages_fit:
  assumes "fits end_sym meta_size areas"
  shows "total_pages areas * PAGE_SIZE_4KB < usize_limit"
proof -
  have "PAGE_SIZE_2MB = PAGES_PER_2MB * PAGE_SIZE_4KB" by (simp add: page_consts)
  then have "total_pages areas * PAGE_SIZE_4KB = (top_of areas + (PAGE_SIZE_2MB - 1)) div PAGE_SIZE_2MB * PAGE_SIZE_2MB"
    by (simp add: total_pages_def)
  also have "\<dots> < top_of areas + PAGE_SIZE_2MB" by (rule round_up_bounds) (simp add: PAGE_SIZE_2MB_def)
  also have "\<dots> < usize_limit" using assms by (simp add: fits_def)
  finally show ?thesis .
qed

lemma ranges_above: "(lo, hi) \<in> set (ranges_of k n areas) \<Longrightarrow> k \<le> lo"
  by (auto simp: ranges_of_def range_of_def)

text \<open>The hypotheses under which start-up is considered: a readable memory map that the metadata array does not overwrite.\<close>

definition boot_map :: "memory \<Rightarrow> memory \<Rightarrow> usize \<Rightarrow> memory_area list \<Rightarrow> bool" where
  "boot_map mem mem' mmap areas \<longleftrightarrow> (case memory_areas mem mmap of
       Inl _ \<Rightarrow> False
     | Inr it \<Rightarrow> memory_areas mem' mmap = Inr it \<and> 0 < iter_entry_size it \<and>
         iter_end it + iter_entry_size it \<le> usize_limit \<and> areas_of mem it = areas \<and> areas_of mem' it = areas)"

text \<open>The lines \<^verbatim>\<open>init\<close> prints when the frames \<open>a\<close> are free.\<close>

definition init_lines :: "usize \<Rightarrow> usize \<Rightarrow> memory_area list \<Rightarrow> frames \<Rightarrow> log_line list" where
  "init_lines end_sym meta_size areas a =
     [(''Total pages to track: {}'', [total_pages areas]), (''Kernel end: {:#x}'', [page_up end_sym]),
      (''Metadata size: {} bytes ({} KB)'', [total_pages areas * meta_size, total_pages areas * meta_size div 1024]),
      (''Final kernel end (after metadata): {:#x}'', [final_end end_sym meta_size areas]),
      (''Free 4KB pages: {}'', [length (free4 a)]), (''Free 2MB pages: {}'', [length (free2 a)]),
      (''Total free memory: {} MB'', [free_kb a div 1024])]"

lemma init_allocator_rep:
  assumes "unlocked s" and "boot_map mem mem' mmap areas" and "good_areas areas" and "fits end_sym meta_size areas"
    and "k = final_end end_sym meta_size areas div PAGE_SIZE_4KB" and "a = boot_frames (total_pages areas) (ranges_of k (total_pages areas) areas)"
    and "free_kb a < 2 ^ 31"
  shows "\<exists>t. init_allocator end_sym meta_size raw mem mem' mmap s = Some (Inr (init_lines end_sym meta_size areas a, t)) \<and> rep k t a \<and>
    rflags t = rflags s \<and> deref (kernel_end t) = final_end end_sym meta_size areas \<and> length (pages t) = total_pages areas"
proof -
  let ?n = "total_pages areas" and ?rs = "ranges_of k (total_pages areas) areas"
  obtain it where it: "memory_areas mem mmap = Inr it" "memory_areas mem' mmap = Inr it"
    and ar: "areas_of mem it = areas" "areas_of mem' it = areas"
    and es: "0 < iter_entry_size it" "iter_end it + iter_entry_size it \<le> usize_limit"
    using assms(2) by (auto simp: boot_map_def split: sum.splits)
  have p1: "for_areas mem max_area it 0 = Some (Inr (top_of areas))"
    using for_areas_for_each [OF es, of mem max_area 0] ar max_area_loop [of areas 0] assms(3)
    by (simp add: good_areas_def top_of_def)
  let ?s1 = "placed end_sym meta_size areas s"
  have p2: "for_areas mem' mark_area it ?s1 = Some (Inr (set_pages (area_pages ?n ?rs) ?s1))"
    using for_areas_for_each [OF es, of mem' mark_area ?s1] ar
      mark_areas_exec [of ?s1 ?n k areas] assms(1,3,5) total_pages_fit [OF assms(4)] by simp
  have "wf_frames k ?n (boot_frames ?n ?rs)"
    using total_pages_dvd total_pages_fit [OF assms(4)] ranges_above by (rule wf_boot_frames)
  with build_lists_rep [of "set_pages (area_pages ?n ?rs) ?s1" ?n ?rs k] assms(1) obtain t where
    t: "build_lists (set_pages (area_pages ?n ?rs) ?s1) = Inr t" "rep k t (boot_frames ?n ?rs)"
      "same_env (set_pages (area_pages ?n ?rs) ?s1) t" "same_meta (area_pages ?n ?rs) (pages t)"
    by auto
  have "init_allocator end_sym meta_size raw mem mem' mmap s = Some (Inr (init_lines end_sym meta_size areas a, t))"
    unfolding init_allocator_def
    using it p1 p2 t(1) place_array_exec [OF assms(1,4)] count_free_exec [OF repD(1) [OF t(2)] t(4)] assms(6,7)
    by (simp add: init_lines_def)
  moreover have "rflags t = rflags s" "deref (kernel_end t) = final_end end_sym meta_size areas" "length (pages t) = ?n"
    using t(3) by (simp_all add: same_env_def)
  ultimately show ?thesis using t(2) assms(6) by blast
qed

end
