(* ===== verification/Global_Alloc.thy ===== *)
theory Global_Alloc
  imports Page_Provider Page_Boot
begin

text \<open>
  The memory subsystem's entry points, \<^verbatim>\<open>src/src/memory/mod.rs\<close>: \<^verbatim>\<open>init\<close>, which finds the memory map
  in the boot information and starts the page allocator, and the kernel's heap \<^verbatim>\<open>SimpleAllocator\<close>, which
  serves every request with one page. The heap uses the page allocator through its contract.
\<close>

section \<open>The global allocator\<close>

text \<open>\<^verbatim>\<open>core::alloc::Layout\<close>; a null pointer is the address 0.\<close>

record layout =
  layout_size :: usize
  layout_align :: usize

definition simple_alloc :: "(page_size \<Rightarrow> 's \<Rightarrow> (usize option \<times> 's) result) \<Rightarrow> layout \<Rightarrow> 's \<Rightarrow> (usize \<times> 's) result" where
  "simple_alloc allocate lay s =
     (if layout_size lay = 0 then Inr (0, s)
      else if layout_size lay \<le> 4096 then
        and_then (allocate Size4KB s) (\<lambda>(r, s). case r of Some addr \<Rightarrow> Inr (addr, s) | None \<Rightarrow> Inr (0, s))
      else if layout_size lay \<le> 2 * 1024 * 1024 then
        and_then (allocate Size2MB s) (\<lambda>(r, s). case r of Some addr \<Rightarrow> Inr (addr, s) | None \<Rightarrow> Inr (0, s))
      else
        and_then (allocate Size2MB s) (\<lambda>(r, s). case r of Some addr \<Rightarrow> Inr (addr, s) | None \<Rightarrow> Inr (0, s)))"

definition simple_dealloc :: "(usize \<Rightarrow> page_size \<Rightarrow> 's \<Rightarrow> 's result) \<Rightarrow> usize \<Rightarrow> layout \<Rightarrow> 's \<Rightarrow> 's result" where
  "simple_dealloc release p lay s =
     (if layout_size lay = 0 then Inr s
      else if layout_size lay \<le> 4096 then release p Size4KB s
      else release p Size2MB s)"

text \<open>\<^verbatim>\<open>ALLOCATOR\<close> works on the static \<^verbatim>\<open>PAGE_ALLOCATOR\<close>.\<close>

definition heap_alloc :: "layout \<Rightarrow> page_allocator \<Rightarrow> (usize \<times> page_allocator) result" where
  "heap_alloc = simple_alloc allocate_page"

definition heap_dealloc :: "usize \<Rightarrow> layout \<Rightarrow> page_allocator \<Rightarrow> page_allocator result" where
  "heap_dealloc = simple_dealloc free_page"

section \<open>Initialisation\<close>

definition memory_init ::
  "usize \<Rightarrow> usize \<Rightarrow> (usize \<Rightarrow> page_metadata) \<Rightarrow> memory \<Rightarrow> memory \<Rightarrow> usize \<Rightarrow> page_allocator
    \<Rightarrow> (log_line list \<times> page_allocator) result option" where
  "memory_init end_sym meta_size raw mem mem' multiboot_info_addr s =
     (case parse multiboot_info_addr of
        None \<Rightarrow> Some (Inl (ExpectFailed ''Failed to parse multiboot info''))
      | Some boot_info \<Rightarrow>
          (case memory_map_tag mem boot_info of
             None \<Rightarrow> None
           | Some (Inl e) \<Rightarrow> Some (Inl e)
           | Some (Inr None) \<Rightarrow> Some (Inl (ExpectFailed ''No memory map found in multiboot info''))
           | Some (Inr (Some mmap_tag)) \<Rightarrow> init_allocator end_sym meta_size raw mem mem' mmap_tag s))"

section \<open>Clients of the heap\<close>

text \<open>A client allocates, and releases the \<open>i\<close>-th of the blocks it holds; a block is a pointer with its layout.\<close>

datatype heap_op = Alloc layout | Dealloc nat

type_synonym heap_block = "usize \<times> layout"

definition heap_step ::
  "(page_size \<Rightarrow> 's \<Rightarrow> (usize option \<times> 's) result) \<Rightarrow> (usize \<Rightarrow> page_size \<Rightarrow> 's \<Rightarrow> 's result)
    \<Rightarrow> heap_op \<Rightarrow> heap_block list \<times> 's \<Rightarrow> (heap_block list \<times> 's) result" where
  "heap_step allocate release op = (\<lambda>(live, s).
     case op of
       Alloc lay \<Rightarrow> and_then (simple_alloc allocate lay s) (\<lambda>(p, s). Inr (if p = 0 then live else (p, lay) # live, s))
     | Dealloc i \<Rightarrow>
         if i < length live
         then and_then (simple_dealloc release (fst (live ! i)) (snd (live ! i)) s) (\<lambda>s.
              Inr (take i live @ drop (Suc i) live, s))
         else Inr (live, s))"

definition page_size_for :: "layout \<Rightarrow> page_size" where
  "page_size_for lay = (if layout_size lay \<le> 4096 then Size4KB else Size2MB)"

definition page_block_of :: "heap_block \<Rightarrow> page_block" where
  "page_block_of b = (fst b, page_size_for (snd b))"

definition heap_bytes :: "heap_block \<Rightarrow> usize set" where
  "heap_bytes b = {fst b..<fst b + layout_size (snd b)}"

lemma heap_bytes_extent: "layout_size (snd b) \<le> PAGE_SIZE_2MB \<Longrightarrow> heap_bytes b \<subseteq> extent (page_block_of b)"
  by (auto simp: heap_bytes_def extent_def page_block_of_def page_size_for_def bytes_of_def page_consts)

context page_provider
begin

text \<open>What the client holds is owned, and no page is held twice.\<close>

definition heap_ok :: "heap_block list \<Rightarrow> 's \<Rightarrow> bool" where
  "heap_ok live s \<longleftrightarrow> (\<exists>a. ok s a \<and> distinct (map page_block_of live) \<and> page_block_of ` set live \<subseteq> owned a \<and>
     (\<forall>b\<in>set live. 0 < layout_size (snd b)))"

lemma simple_alloc_eq:
  assumes "0 < layout_size lay"
  shows "simple_alloc allocate lay s =
    and_then (allocate (page_size_for lay) s) (\<lambda>(r, s). Inr (case r of Some addr \<Rightarrow> addr | None \<Rightarrow> 0, s))"
  using assms by (cases "allocate (page_size_for lay) s")
    (auto simp: simple_alloc_def page_size_for_def split: option.splits)

lemma alloc_heap_ok:
  assumes "heap_ok live s"
  shows "\<exists>p t. simple_alloc allocate lay s = Inr (p, t) \<and> heap_ok (if p = 0 then live else (p, lay) # live) t"
proof (cases "layout_size lay = 0")
  case True
  then show ?thesis using assms by (simp add: simple_alloc_def)
next
  case False
  from assms obtain a where a: "ok s a" "distinct (map page_block_of live)" "page_block_of ` set live \<subseteq> owned a"
    "\<forall>b\<in>set live. 0 < layout_size (snd b)" by (auto simp: heap_ok_def)
  from allocate_law [OF a(1), of "page_size_for lay"] obtain r t b where
    1: "allocate (page_size_for lay) s = Inr (r, t)" "ok t b" "case r of None \<Rightarrow> owned b = owned a
      | Some addr \<Rightarrow> (addr, page_size_for lay) \<notin> owned a \<and> owned b = insert (addr, page_size_for lay) (owned a)"
    by blast
  show ?thesis
  proof (cases r)
    case None
    then have "heap_ok live t" using a 1 by (auto simp: heap_ok_def)
    then show ?thesis using False 1(1) None by (simp add: simple_alloc_eq)
  next
    case (Some p)
    then have n: "page_block_of (p, lay) \<notin> owned a" "owned b = insert (page_block_of (p, lay)) (owned a)"
      using 1(3) by (simp_all add: page_block_of_def)
    then have "0 < p" using aligned_law [OF 1(2), of p "page_size_for lay"] by (simp add: page_block_of_def)
    moreover have "heap_ok ((p, lay) # live) t"
      unfolding heap_ok_def using 1(2) a(2-4) n False by (intro exI [of _ b]) auto
    ultimately show ?thesis using False 1(1) Some by (simp add: simple_alloc_eq)
  qed
qed

lemma dealloc_heap_ok:
  assumes "heap_ok live s" and "i < length live"
  shows "\<exists>t. simple_dealloc release (fst (live ! i)) (snd (live ! i)) s = Inr t \<and> heap_ok (take i live @ drop (Suc i) live) t"
proof -
  let ?b = "live ! i" and ?rest = "take i live @ drop (Suc i) live"
  from assms(1) obtain a where a: "ok s a" "distinct (map page_block_of live)" "page_block_of ` set live \<subseteq> owned a"
    "\<forall>b\<in>set live. 0 < layout_size (snd b)" by (auto simp: heap_ok_def)
  have split: "live = take i live @ ?b # drop (Suc i) live" using assms(2) by (rule id_take_nth_drop)
  have mem: "?b \<in> set live" using assms(2) by simp
  then have own: "(fst ?b, page_size_for (snd ?b)) \<in> owned a" using a(3) by (auto simp: page_block_of_def)
  from release_law [OF a(1) own] obtain t b where
    1: "release (fst ?b) (page_size_for (snd ?b)) s = Inr t" "ok t b" "owned b = owned a - {page_block_of ?b}"
    by (auto simp: page_block_of_def)
  have "simple_dealloc release (fst ?b) (snd ?b) s = Inr t"
    using 1(1) a(4) mem by (auto simp: simple_dealloc_def page_size_for_def split: if_splits)
  moreover have "map page_block_of live = map page_block_of (take i live) @ page_block_of ?b # map page_block_of (drop (Suc i) live)"
    by (subst split) simp
  then have d: "distinct (map page_block_of ?rest)" "page_block_of ?b \<notin> page_block_of ` set ?rest"
    using a(2) by (simp_all add: image_Un)
  have sub: "set ?rest \<subseteq> set live" by (auto dest: in_set_takeD in_set_dropD)
  then have "page_block_of ` set ?rest \<subseteq> owned b" using d(2) a(3) unfolding 1(3) by blast
  then have "heap_ok ?rest t"
    unfolding heap_ok_def using 1(2) d(1) a(4) sub by blast
  ultimately show ?thesis by blast
qed

lemma heap_run_ok:
  assumes "heap_ok live s"
  shows "\<exists>live' t. for_each ops (heap_step allocate release) (live, s) = Inr (live', t) \<and> heap_ok live' t"
  using assms
proof (induction ops arbitrary: live s)
  case (Cons op ops)
  have "\<exists>live' t. heap_step allocate release op (live, s) = Inr (live', t) \<and> heap_ok live' t"
  proof (cases op)
    case (Alloc lay)
    then show ?thesis using alloc_heap_ok [OF Cons.prems, of lay] by (auto simp: heap_step_def)
  next
    case (Dealloc i)
    then show ?thesis using dealloc_heap_ok [OF Cons.prems, of i] Cons.prems
      by (cases "i < length live") (auto simp: heap_step_def)
  qed
  then show ?case using Cons.IH by fastforce
qed auto

text \<open>Blocks held at the same time do not overlap, provided each fits into its page.\<close>

lemma heap_ok_disjoint:
  assumes "heap_ok live s" and "i < j" and "j < length live"
    and "layout_size (snd (live ! i)) \<le> PAGE_SIZE_2MB" and "layout_size (snd (live ! j)) \<le> PAGE_SIZE_2MB"
  shows "heap_bytes (live ! i) \<inter> heap_bytes (live ! j) = {}"
proof -
  from assms(1) obtain a where a: "ok s a" "distinct (map page_block_of live)" "page_block_of ` set live \<subseteq> owned a"
    by (auto simp: heap_ok_def)
  have "page_block_of (live ! i) \<noteq> page_block_of (live ! j)"
    using a(2) assms(2,3) by (auto simp: distinct_conv_nth)
  then have "extent (page_block_of (live ! i)) \<inter> extent (page_block_of (live ! j)) = {}"
    using a(3) assms(2,3) by (intro disjoint_law [OF a(1)]) auto
  then show ?thesis using heap_bytes_extent [OF assms(4)] heap_bytes_extent [OF assms(5)] by blast
qed

lemma heap_ok_aligned:
  assumes "heap_ok live s" and "b \<in> set live"
  shows "bytes_of (page_size_for (snd b)) dvd fst b \<and> 0 < fst b"
  using assms aligned_law by (fastforce simp: heap_ok_def page_block_of_def)

lemma heap_run_safe:
  assumes "ok s a"
  shows "\<exists>live t. for_each ops (heap_step allocate release) ([], s) = Inr (live, t) \<and>
    (\<forall>b\<in>set live. 0 < fst b \<and> bytes_of (page_size_for (snd b)) dvd fst b) \<and>
    (\<forall>i j. i < j \<and> j < length live \<and> layout_size (snd (live ! i)) \<le> PAGE_SIZE_2MB \<and>
       layout_size (snd (live ! j)) \<le> PAGE_SIZE_2MB \<longrightarrow> heap_bytes (live ! i) \<inter> heap_bytes (live ! j) = {})"
proof -
  have "heap_ok [] s" unfolding heap_ok_def using assms by (intro exI [of _ a]) simp
  from heap_run_ok [OF this, of ops] obtain live t where
    t: "for_each ops (heap_step allocate release) ([], s) = Inr (live, t)" "heap_ok live t" by blast
  then show ?thesis using heap_ok_disjoint [OF t(2)] heap_ok_aligned [OF t(2)] by blast
qed

end

section \<open>From the boot information to a working allocator\<close>

text \<open>The memory map tag of the boot information at \<open>addr\<close> stands at \<open>mmap\<close>.\<close>

definition boot_info_ok :: "memory \<Rightarrow> usize \<Rightarrow> (usize \<times> u32) list \<Rightarrow> bool" where
  "boot_info_ok mem addr tags \<longleftrightarrow> 0 < addr \<and> addr + 8 < usize_limit \<and> tags_at mem (addr + 8) tags"

lemma memory_map_tag_first:
  assumes "boot_info_ok mem addr tags"
  shows "memory_map_tag mem addr = Some (Inr (map_option fst (find (\<lambda>t. snd t = MULTIBOOT2_TAG_TYPE_MMAP) tags)))"
  using assms find_tag_loop_tags [of mem "addr + 8" tags MULTIBOOT2_TAG_TYPE_MMAP]
  by (simp add: memory_map_tag_def find_tag_def boot_info_ok_def MULTIBOOT2_TAG_TYPE_MMAP_def MULTIBOOT2_TAG_TYPE_END_def)

lemma memory_init_exec:
  assumes "boot_info_ok mem addr tags"
  shows "memory_init end_sym meta_size raw mem mem' addr s =
    (case find (\<lambda>t. snd t = MULTIBOOT2_TAG_TYPE_MMAP) tags of
       None \<Rightarrow> Some (Inl (ExpectFailed ''No memory map found in multiboot info''))
     | Some t \<Rightarrow> init_allocator end_sym meta_size raw mem mem' (fst t) s)"
  using assms memory_map_tag_first [OF assms]
  by (simp add: memory_init_def parse_def boot_info_ok_def split: option.splits)

text \<open>Everything start-up relies on, gathered.\<close>

definition boot_ok :: "usize \<Rightarrow> usize \<Rightarrow> memory \<Rightarrow> memory \<Rightarrow> usize \<Rightarrow> memory_area list \<Rightarrow> bool" where
  "boot_ok end_sym meta_size mem mem' addr areas \<longleftrightarrow>
     (\<exists>tags mmap ty. boot_info_ok mem addr tags \<and>
        find (\<lambda>t. snd t = MULTIBOOT2_TAG_TYPE_MMAP) tags = Some (mmap, ty) \<and> boot_map mem mem' mmap areas) \<and>
     good_areas areas \<and> fits end_sym meta_size areas"

definition first_frame :: "usize \<Rightarrow> usize \<Rightarrow> memory_area list \<Rightarrow> usize" where
  "first_frame end_sym meta_size areas = final_end end_sym meta_size areas div PAGE_SIZE_4KB"

definition start_frames :: "usize \<Rightarrow> usize \<Rightarrow> memory_area list \<Rightarrow> frames" where
  "start_frames end_sym meta_size areas =
     boot_frames (total_pages areas) (ranges_of (first_frame end_sym meta_size areas) (total_pages areas) areas)"

lemma memory_init_rep:
  assumes "boot_ok end_sym meta_size mem mem' addr areas" and "unlocked s"
    and "free_kb (start_frames end_sym meta_size areas) < 2 ^ 31"
  shows "\<exists>t. memory_init end_sym meta_size raw mem mem' addr s =
      Some (Inr (init_lines end_sym meta_size areas (start_frames end_sym meta_size areas), t)) \<and>
    rep (first_frame end_sym meta_size areas) t (start_frames end_sym meta_size areas) \<and> rflags t = rflags s \<and>
    deref (kernel_end t) = final_end end_sym meta_size areas \<and> length (pages t) = total_pages areas"
proof -
  from assms(1) obtain tags mmap ty where b: "boot_info_ok mem addr tags"
    "find (\<lambda>t. snd t = MULTIBOOT2_TAG_TYPE_MMAP) tags = Some (mmap, ty)" "boot_map mem mem' mmap areas"
    and g: "good_areas areas" "fits end_sym meta_size areas" by (auto simp: boot_ok_def)
  show ?thesis
    using init_allocator_rep [OF assms(2) b(3) g refl refl, of raw] assms(3)
    unfolding memory_init_exec [OF b(1)] b(2) by (simp add: first_frame_def start_frames_def)
qed

lemma unlocked_new [simp]: "unlocked (new_allocator fl)"
  by (simp add: unlocked_def new_allocator_def new_mutex_def)

text \<open>The frames that are free after start-up: those of the available areas behind the metadata array.\<close>

lemma start_frames_cover:
  "set (free4 (start_frames end_sym meta_size areas)) \<union> \<Union> (block ` set (free2 (start_frames end_sym meta_size areas))) =
   {p. first_frame end_sym meta_size areas \<le> p \<and> p < total_pages areas \<and>
       (\<exists>m\<in>set areas. area_typ m = 1 \<and> unat (base_addr m) div PAGE_SIZE_4KB \<le> p \<and> p < area_end m div PAGE_SIZE_4KB)}"
  unfolding start_frames_def boot_frames_cover [OF total_pages_dvd]
  by (auto simp: covered_def ranges_of_def range_of_def area_end_def)

end
