(* ===== verification/Samples.thy ===== *)
theory Samples
  imports Global_Alloc
begin

text \<open>
  Concrete states on which the properties are instantiated: a small page allocator with free and owned pages of both
  sizes, and the boot information of a machine with 8MB of memory.
\<close>

section \<open>A page allocator\<close>

text \<open>
  2048 frames, the kernel below frame 500: frames 510 and 511 and the superpages at 512 and 1024 are free, frame 509 and the superpage at 1536 are owned.
\<close>

definition sample_pages :: page_slice where
  "sample_pages = (replicate 2048 new_metadata)
     [509 := new_metadata\<lparr>state := Allocated\<rparr>,
      510 := new_metadata\<lparr>state := Free4KB, prev_pg := Some 511\<rparr>,
      511 := new_metadata\<lparr>state := Free4KB, next_pg := Some 510\<rparr>,
      512 := new_metadata\<lparr>state := Free2MB, prev_pg := Some 1024, counter := 512\<rparr>,
      1024 := new_metadata\<lparr>state := Free2MB, next_pg := Some 512, counter := 512\<rparr>,
      1536 := new_metadata\<lparr>state := Allocated, counter := 512\<rparr>]"

definition sample_allocator :: page_allocator where
  "sample_allocator = \<lparr>page_array = new_mutex \<lparr>ptr = 0x150000, slots = sample_pages\<rparr>, free_4kb_list = new_mutex (Some 511),
     free_2mb_list = new_mutex (Some 1024), kernel_end = new_mutex (500 * 4096), rflags = 0x202\<rparr>"

definition sample_frames :: frames where
  "sample_frames = \<lparr>free4 = [511, 510], free2 = [1024, 512], used4 = {509}, used2 = {1536}, credit = (\<lambda>_. 0)\<rparr>"

lemma sample_pages_length [simp]: "length sample_pages = 2048"
  by (simp add: sample_pages_def)

lemma sample_pages_nth: "p < 2048 \<Longrightarrow> sample_pages ! p =
    (if p = 1536 then new_metadata\<lparr>state := Allocated, counter := 512\<rparr>
     else if p = 1024 then new_metadata\<lparr>state := Free2MB, next_pg := Some 512, counter := 512\<rparr>
     else if p = 512 then new_metadata\<lparr>state := Free2MB, prev_pg := Some 1024, counter := 512\<rparr>
     else if p = 511 then new_metadata\<lparr>state := Free4KB, next_pg := Some 510\<rparr>
     else if p = 510 then new_metadata\<lparr>state := Free4KB, prev_pg := Some 511\<rparr>
     else if p = 509 then new_metadata\<lparr>state := Allocated\<rparr> else new_metadata)"
  unfolding sample_pages_def by (subst nth_update_if, simp)+ simp

lemma sample_sel [simp]:
  "pages sample_allocator = sample_pages" "head_4kb sample_allocator = Some 511" "head_2mb sample_allocator = Some 1024"
  "unlocked sample_allocator" "rflags sample_allocator = 0x202"
  by (simp_all add: sample_allocator_def access_exec unlocked_def new_mutex_def)

lemma sample_wf: "wf_frames 500 2048 sample_frames"
  unfolding wf_frames_def by (simp add: sample_frames_def page_consts sp_of_def)

lemma sample_meta: "meta_ok sample_pages sample_frames"
proof (rule meta_okI, goal_cases)
  case (5 p)
  then show ?case by (auto simp: sample_pages_nth sample_frames_def new_metadata_def split: if_splits)
next
  case (6 p)
  then show ?case by (auto simp: sample_pages_nth sample_frames_def new_metadata_def page_consts split: if_splits)
qed (auto simp: sample_frames_def sample_pages_nth new_metadata_def)

lemma sample_rep: "rep 500 sample_allocator sample_frames"
  unfolding rep_def using sample_wf sample_meta
  by (simp add: sample_frames_def dll_def sample_pages_nth new_metadata_def)

lemma sample_provides: "provides sample_allocator (500, sample_frames)"
  using sample_rep by (simp add: provides_def)

section \<open>Boot information\<close>

text \<open>A memory map with one available area from 1MB to 8MB, followed by the end tag.\<close>

definition sample_bytes :: "u8 list" where
  "sample_bytes = [56, 0, 0, 0, 0, 0, 0, 0,
     6, 0, 0, 0, 40, 0, 0, 0, 24, 0, 0, 0, 0, 0, 0, 0,
     0, 0, 0x10, 0, 0, 0, 0, 0, 0, 0, 0x70, 0, 0, 0, 0, 0, 1, 0, 0, 0, 0, 0, 0, 0,
     0, 0, 0, 0, 8, 0, 0, 0]"

definition sample_memory :: memory where
  "sample_memory a = (if 0x10000 \<le> a \<and> a < 0x10038 then sample_bytes ! (a - 0x10000) else 0)"

definition sample_area :: memory_area where
  "sample_area = \<lparr>base_addr = 0x100000, area_length = 0x700000, area_typ = 1, area_reserved = 0\<rparr>"

lemma read_le_numeral: "read_le mem a (numeral k) = unat (mem a) + 256 * read_le mem (Suc a) (pred_numeral k)"
  by (simp add: numeral_eq_Suc)

lemmas sample_reads = read_tag_def read_mmap_tag_def read_area_def read_u32_def read_u64_def read_le_numeral
  sample_memory_def sample_bytes_def

lemma sample_tags: "boot_info_ok sample_memory 0x10000 [(0x10008, 6)]"
  by (simp add: boot_info_ok_def MULTIBOOT2_TAG_TYPE_END_def sample_reads)

lemma sample_map: "boot_map sample_memory sample_memory 0x10008 [sample_area]"
proof -
  have "memory_areas sample_memory 0x10008 = Inr \<lparr>current = 0x10018, iter_end = 0x10030, iter_entry_size = 24\<rparr>"
    by (simp add: memory_areas_def sample_reads)
  moreover have "areas_of sample_memory \<lparr>current = 0x10018, iter_end = 0x10030, iter_entry_size = 24\<rparr> = [sample_area]"
    by (simp add: areas_of_def area_count_def sample_area_def sample_reads)
  ultimately show ?thesis by (simp add: boot_map_def)
qed

lemma sample_boot: "boot_ok 0x150000 40 sample_memory sample_memory 0x10000 [sample_area]"
proof -
  have "good_areas [sample_area]" by (simp add: good_areas_def area_end_def sample_area_def)
  moreover have "fits 0x150000 40 [sample_area]"
    by (simp add: fits_def top_of_def total_pages_def area_end_def sample_area_def page_consts)
  ultimately show ?thesis
    unfolding boot_ok_def using sample_tags sample_map
    by (intro conjI exI [of _ "[(0x10008, 6)]"] exI [of _ "0x10008"] exI [of _ 6]) (simp_all add: MULTIBOOT2_TAG_TYPE_MMAP_def)
qed

lemma sample_boot_values: "total_pages [sample_area] = 2048" "first_frame 0x150000 40 [sample_area] = 356"
  "final_end 0x150000 40 [sample_area] = 0x164000"
  by (simp_all add: first_frame_def final_end_def page_up_def total_pages_def top_of_def area_end_def sample_area_def page_consts)

lemma sample_free_kb: "free_kb (start_frames 0x150000 40 [sample_area]) < 2 ^ 31"
proof -
  have "length (free4 (boot_frames 2048 rs)) \<le> 2048" "length (free2 (boot_frames 2048 rs)) \<le> 2048" for rs
    using length_filter_le [of _ "[0..<2048]"] by (simp_all add: boot_frames_def del: upt_rec_numeral)
  then have "free_kb (boot_frames 2048 rs) \<le> 2048 * 4 + 2048 * 2048" for rs
    unfolding free_kb_def by (intro add_mono mult_right_mono) simp_all
  then have "free_kb (start_frames 0x150000 40 [sample_area]) \<le> 2048 * 4 + 2048 * 2048"
    unfolding start_frames_def sample_boot_values by simp
  then show ?thesis by simp
qed

end
