(* ===== verification/Page_Props.thy ===== *)
theory Page_Props
  imports Samples
begin

text \<open>
  The properties of the page allocator and of the kernel heap: refinement of the abstract specification,
  conservation and bounds, completeness, round trips, error behaviour, and the cases the code gets wrong.
\<close>

section \<open>Helper lemmas\<close>

text \<open>The 4KB frames an abstract state accounts for.\<close>

definition managed :: "frames \<Rightarrow> usize set" where
  "managed a = small a \<union> \<Union> (block ` large a)"

lemma managed_split: "managed (spec_split a) = managed a"
proof (cases "free2 a")
  case (Cons h hs)
  then have "set (free4 (spec_split a)) = block h \<union> set (free4 a)" "used4 (spec_split a) = used4 a"
    "large (spec_split a) = set hs \<union> used2 a"
    by (auto simp: spec_split_def block_def)
  then show ?thesis using Cons by (auto simp: managed_def)
qed (simp add: spec_split_def)

lemma managed_take: "managed (snd (spec_take a)) = managed a"
  by (cases "free4 a") (auto simp: spec_take_def managed_def)

lemma managed_allocate: "managed (snd (spec_allocate sz a)) = managed a"
proof (cases sz)
  case Size4KB
  then show ?thesis by (simp add: spec_allocate_def spec_alloc_4kb_def managed_take managed_split)
next
  case Size2MB
  then show ?thesis by (cases "free2 a") (auto simp: spec_allocate_def spec_alloc_2mb_def managed_def)
qed

lemma managed_give: "p \<in> used4 a \<Longrightarrow> managed (spec_give p a) = managed a"
  by (auto simp: spec_give_def managed_def)

lemma managed_merge:
  assumes "PAGES_PER_2MB dvd h" and "block h \<subseteq> set (free4 a)"
  shows "managed (spec_merge h a) = managed a"
proof -
  have "set (free4 (spec_merge h a)) = set (free4 a) - block h" "used4 (spec_merge h a) = used4 a"
    "large (spec_merge h a) = insert h (large a)"
    using assms(1) by (auto simp: spec_merge_def sp_of_eq_iff)
  then show ?thesis using assms(2) by (auto simp: managed_def)
qed

lemma managed_release:
  assumes "wf_frames lo n a" and "(p * PAGE_SIZE_4KB, sz) \<in> owned_blocks a"
  shows "managed (spec_release p sz a) = managed a"
proof (cases sz)
  case Size4KB
  then have p: "p \<in> used4 a" using assms(2) by simp
  show ?thesis
  proof (cases "credit (spec_give p a) (sp_of p) = PAGES_PER_2MB")
    case True
    with spec_give_merge_ready(2) [OF assms(1) p True] managed_merge [of "sp_of p" "spec_give p a"] managed_give [OF p]
    show ?thesis using Size4KB by (simp add: spec_release_def spec_free_4kb_def)
  next
    case False
    then show ?thesis using Size4KB managed_give [OF p] by (simp add: spec_release_def spec_free_4kb_def)
  qed
next
  case Size2MB
  then have "p \<in> used2 a" using assms(2) by simp
  then show ?thesis using Size2MB by (auto simp: spec_release_def spec_free_2mb_def managed_def)
qed

lemma spec_allocate_range:
  assumes "wf_frames lo n a" and "spec_allocate sz a = (Some p, b)" and "wf_frames lo n b"
  shows "lo \<le> p" "p * PAGE_SIZE_4KB + bytes_of sz \<le> n * PAGE_SIZE_4KB" "bytes_of sz dvd p * PAGE_SIZE_4KB"
proof -
  have own: "(p * PAGE_SIZE_4KB, sz) \<in> owned_blocks b" using spec_allocate_owned [OF assms(1,2)] by simp
  have m: "PAGE_SIZE_2MB = PAGES_PER_2MB * PAGE_SIZE_4KB" by (simp add: page_consts)
  have *: "lo \<le> p \<and> p * PAGE_SIZE_4KB + bytes_of sz \<le> n * PAGE_SIZE_4KB \<and> bytes_of sz dvd p * PAGE_SIZE_4KB"
  proof (cases sz)
    case Size4KB
    then have p: "p \<in> small b" using own by simp
    then have "lo \<le> p" "Suc p \<le> n" using wf_D(7,8) [OF assms(3), of p] by auto
    then have "Suc p * PAGE_SIZE_4KB \<le> n * PAGE_SIZE_4KB" by (intro mult_right_mono) simp_all
    then show ?thesis using Size4KB \<open>lo \<le> p\<close> by (simp add: bytes_of_def)
  next
    case Size2MB
    then have p: "p \<in> large b" using own by simp
    then have q: "lo \<le> p" "p < n" "PAGES_PER_2MB dvd p" using wf_D(10-12) [OF assms(3), of p] by auto
    then have "p + PAGES_PER_2MB \<le> n" using block_in_range [OF wf_D(1) [OF assms(3)]] by blast
    then have "(p + PAGES_PER_2MB) * PAGE_SIZE_4KB \<le> n * PAGE_SIZE_4KB" by (intro mult_right_mono) simp_all
    moreover have "PAGE_SIZE_2MB dvd p * PAGE_SIZE_4KB" unfolding m using q(3) by (intro mult_dvd_mono) simp_all
    ultimately show ?thesis using Size2MB q(1) by (simp add: bytes_of_def m algebra_simps)
  qed
  then show "lo \<le> p" "p * PAGE_SIZE_4KB + bytes_of sz \<le> n * PAGE_SIZE_4KB" "bytes_of sz dvd p * PAGE_SIZE_4KB" by auto
qed

lemma spec_take_None: "fst (spec_take a) = None \<longleftrightarrow> free4 a = []"
  by (simp add: spec_take_def split: list.splits)

lemma spec_split_nonempty: "free2 a = h # hs \<Longrightarrow> free4 (spec_split a) \<noteq> []"
  by (simp add: spec_split_def page_consts)

lemma spec_allocate_None:
  "fst (spec_allocate Size4KB a) = None \<longleftrightarrow> free4 a = [] \<and> free2 a = []"
  "fst (spec_allocate Size2MB a) = None \<longleftrightarrow> free2 a = []"
proof -
  show "fst (spec_allocate Size2MB a) = None \<longleftrightarrow> free2 a = []"
    by (simp add: spec_allocate_def spec_alloc_2mb_def split: list.splits)
  show "fst (spec_allocate Size4KB a) = None \<longleftrightarrow> free4 a = [] \<and> free2 a = []"
    using spec_split_nonempty [of a]
    by (cases "free2 a") (auto simp: spec_allocate_def spec_alloc_4kb_def spec_take_None spec_split_def)
qed

text \<open>Allocating from a superpage and giving the frame back restores the superpage.\<close>

lemma split_take:
  assumes "free4 a = []" and "free2 a = h # hs" and "PAGES_PER_2MB dvd h"
  shows "spec_allocate Size4KB a = (Some (h + 511), a\<lparr>free2 := hs, free4 := rev [h..<h + 511],
    used4 := insert (h + 511) (used4 a), credit := (credit a)(h := 511)\<rparr>)"
proof -
  have l: "rev [h..<h + PAGES_PER_2MB] = (h + 511) # rev [h..<h + 511]"
    using spec_split_free4 [OF assms(2)] assms(1,2) by (simp add: spec_split_def)
  have "sp_of (h + 511) = h" using assms(3) by (simp add: sp_of_eq_iff block_def page_consts)
  then show ?thesis
    using assms(1,2) by (simp add: spec_allocate_def spec_alloc_4kb_def spec_take_def spec_split_def l) (simp add: page_consts)
qed

lemma give_merge:
  assumes "b = a\<lparr>free2 := hs, free4 := rev [h..<h + 511], used4 := insert (h + 511) (used4 a), credit := (credit a)(h := 511)\<rparr>"
    and "free4 a = []" and "free2 a = h # hs" and "PAGES_PER_2MB dvd h" and "h + 511 \<notin> used4 a"
  shows "spec_release (h + 511) Size4KB b = a\<lparr>credit := (credit a)(h := PAGES_PER_2MB)\<rparr>"
proof -
  have sp: "sp_of (h + 511) = h" "\<And>q. q \<in> set (rev [h..<h + 511]) \<Longrightarrow> sp_of q = h"
    using assms(4) by (auto simp: sp_of_eq_iff block_def page_consts)
  then have f: "filter (\<lambda>q. sp_of q \<noteq> h) (rev [h..<h + 511]) = []" by (simp add: filter_empty_conv)
  show ?thesis
    unfolding assms(1) using assms(2,3,5) sp(1) f
    by (simp add: spec_release_def spec_free_4kb_def spec_give_def spec_merge_def Let_def page_consts)
qed

section \<open>The allocator implements its specification\<close>

text \<open>
  C2: from a state that represents the abstract frames \<open>a\<close>, \<^verbatim>\<open>allocate_page\<close> returns without a
  panic or deadlock, with the frame the specification chooses (or none when it has none), in a state that represents the
  specification's result; the processor's flags, the kernel's end and the size of the array are unchanged.
\<close>

theorem allocate_page_implements:
  assumes "rep lo s a"
  shows "\<exists>t. allocate_page sz s = Inr (map_option (\<lambda>p. p * PAGE_SIZE_4KB) (fst (spec_allocate sz a)), t) \<and>
    rep lo t (snd (spec_allocate sz a)) \<and> rflags t = rflags s \<and> kernel_end t = kernel_end s \<and>
    length (pages t) = length (pages s)"
  using allocate_page_refines [OF assms, of sz] by (auto simp: same_env_def)

theorem allocate_page_implements_witness:
  "\<exists>t. allocate_page Size4KB sample_allocator = Inr (Some (511 * 4096), t) \<and> free4 (snd (spec_allocate Size4KB sample_frames)) = [510] \<and>
     rflags t = 0x202"
  using allocate_page_implements [OF sample_rep, of Size4KB]
  by (auto simp: spec_allocate_def spec_alloc_4kb_def spec_take_def sample_frames_def PAGE_SIZE_4KB_def)

text \<open>
  C3: releasing an owned page returns without a panic or deadlock in a state that represents the
  specification's result: the page is on the free list of its size again, and when a 4KB frame brings the counter of its superpage to 512,
  the frames of that superpage leave the 4KB list and the superpage joins the 2MB list. The counter is the one the code keeps: for a superpage that
  start-up made of single frames, because its frames lie in two neighbouring areas, it started at zero and counts releases.
\<close>

theorem free_page_implements:
  assumes "rep lo s a" and "(p * PAGE_SIZE_4KB, sz) \<in> owned_blocks a"
  shows "\<exists>t. free_page (p * PAGE_SIZE_4KB) sz s = Inr t \<and> rep lo t (spec_release p sz a) \<and> rflags t = rflags s \<and>
    kernel_end t = kernel_end s \<and> length (pages t) = length (pages s)"
  using free_page_refines [OF assms] by (auto simp: same_env_def)

theorem free_page_implements_witness:
  "\<exists>t. free_page (1536 * PAGE_SIZE_4KB) Size2MB sample_allocator = Inr t \<and> rep 500 t (spec_release 1536 Size2MB sample_frames) \<and>
     free2 (spec_release 1536 Size2MB sample_frames) = [1536, 1024, 512]"
proof -
  have "(1536 * PAGE_SIZE_4KB, Size2MB) \<in> owned_blocks sample_frames" unfolding owned_blocks_iff by (simp add: sample_frames_def)
  from free_page_implements [OF sample_rep this] show ?thesis
    by (auto simp: spec_release_def spec_free_2mb_def sample_frames_def)
qed

text \<open>
  C8: allocation and release neither lose nor invent memory: the set of 4KB frames that are free
  or owned, alone or as part of a superpage, is the same before and after.
\<close>

theorem frames_conserved:
  assumes "rep lo s a"
  shows "(\<exists>t b. allocate_page sz s = Inr (map_option (\<lambda>p. p * PAGE_SIZE_4KB) (fst (spec_allocate sz a)), t) \<and>
      rep lo t b \<and> b = snd (spec_allocate sz a) \<and> managed b = managed a) \<and>
    ((p * PAGE_SIZE_4KB, sz) \<in> owned_blocks a \<longrightarrow>
      (\<exists>t b. free_page (p * PAGE_SIZE_4KB) sz s = Inr t \<and> rep lo t b \<and> b = spec_release p sz a \<and> managed b = managed a))"
  using allocate_page_refines [OF assms, of sz] free_page_refines [OF assms, of p sz]
    managed_allocate managed_release [OF repD(2) [OF assms], of p sz] by blast

theorem frames_conserved_witness:
  "\<exists>t b. allocate_page Size2MB sample_allocator = Inr (Some (1024 * 4096), t) \<and> rep 500 t b \<and> managed b = managed sample_frames"
proof -
  have "fst (spec_allocate Size2MB sample_frames) = Some 1024"
    by (simp add: spec_allocate_def spec_alloc_2mb_def sample_frames_def)
  then show ?thesis using frames_conserved [OF sample_rep, of Size2MB 0, THEN conjunct1] by (auto simp: PAGE_SIZE_4KB_def)
qed

text \<open>
  C10: every block handed out is aligned to its size and lies between the first frame behind the
  kernel and the end of the tracked memory.
\<close>

theorem allocate_page_bounds:
  assumes "rep lo s a" and "allocate_page sz s = Inr (Some addr, t)"
  shows "lo * PAGE_SIZE_4KB \<le> addr \<and> addr + bytes_of sz \<le> length (pages s) * PAGE_SIZE_4KB \<and> bytes_of sz dvd addr \<and>
    addr + bytes_of sz < usize_limit"
proof -
  obtain q b where qb: "spec_allocate sz a = (q, b)" by (cases "spec_allocate sz a")
  from allocate_page_refines [OF assms(1), of sz] assms(2) qb obtain p where
    p: "q = Some p" "addr = p * PAGE_SIZE_4KB" "rep lo t b" "length (pages t) = length (pages s)"
    by (cases q) (auto simp: same_env_def)
  then have "wf_frames lo (length (pages s)) b" using repD(2) by metis
  note r = spec_allocate_range [OF repD(2) [OF assms(1)] _ this, of sz p] and wf = wf_D(2) [OF repD(2) [OF assms(1)]]
  show ?thesis using r qb p(1,2) wf by auto
qed

theorem allocate_page_bounds_witness:
  "\<exists>addr t. allocate_page Size2MB sample_allocator = Inr (Some addr, t) \<and> 500 * PAGE_SIZE_4KB \<le> addr \<and> PAGE_SIZE_2MB dvd addr"
proof -
  from allocate_page_refines [OF sample_rep, of Size2MB] obtain t where
    t: "allocate_page Size2MB sample_allocator = Inr (Some (1024 * PAGE_SIZE_4KB), t)"
    by (auto simp: spec_allocate_def spec_alloc_2mb_def sample_frames_def)
  from allocate_page_bounds [OF sample_rep t] t show ?thesis by (auto simp: bytes_of_def)
qed

text \<open>
  C13: a 4KB allocation fails exactly when both free lists are empty (a superpage is split when needed), and a 2MB allocation exactly
  when the list of free superpages is empty, even if all 512 frames of some superpage are on the 4KB list: allocation does not merge.
\<close>

theorem allocate_page_complete:
  assumes "rep lo s a"
  shows "((\<exists>t. allocate_page Size4KB s = Inr (None, t)) \<longleftrightarrow> free4 a = [] \<and> free2 a = []) \<and>
    ((\<exists>t. allocate_page Size2MB s = Inr (None, t)) \<longleftrightarrow> free2 a = [])"
  using allocate_page_refines [OF assms, of Size4KB] allocate_page_refines [OF assms, of Size2MB] spec_allocate_None [of a]
  by auto

theorem allocate_page_complete_witness:
  "\<not> (\<exists>t. allocate_page Size4KB sample_allocator = Inr (None, t)) \<and> \<not> (\<exists>t. allocate_page Size2MB sample_allocator = Inr (None, t))"
  using allocate_page_complete [OF sample_rep] by (simp add: sample_frames_def)

text \<open>
  C14: when only superpages are free, allocating a 4KB page splits the first of them, and releasing that
  page merges it again: afterwards the allocator represents the frames it started from, the split superpage with
  full credit.
\<close>

theorem split_merge_roundtrip:
  assumes "rep lo s a" and "free4 a = []" and "free2 a = h # hs"
  shows "\<exists>t u. allocate_page Size4KB s = Inr (Some ((h + 511) * PAGE_SIZE_4KB), t) \<and>
    free_page ((h + 511) * PAGE_SIZE_4KB) Size4KB t = Inr u \<and>
    rep lo u (a\<lparr>credit := (credit a)(h := PAGES_PER_2MB)\<rparr>) \<and> rflags u = rflags s"
proof -
  note wf = repD(2) [OF assms(1)]
  have h: "h \<in> large a" "PAGES_PER_2MB dvd h" using assms(3) wf_D(12) [OF wf, of h] by auto
  have "h + 511 \<in> block h" by (simp add: block_def page_consts)
  then have n: "h + 511 \<notin> used4 a" using wf_large_disjoint [OF wf h(1)] by auto
  define b where "b = snd (spec_allocate Size4KB a)"
  have st: "spec_allocate Size4KB a = (Some (h + 511), b)" "b = a\<lparr>free2 := hs, free4 := rev [h..<h + 511],
    used4 := insert (h + 511) (used4 a), credit := (credit a)(h := 511)\<rparr>"
    unfolding b_def by (simp_all add: split_take [OF assms(2,3) h(2)])
  from allocate_page_refines [OF assms(1), of Size4KB] st(1) obtain t where
    t: "allocate_page Size4KB s = Inr (Some ((h + 511) * PAGE_SIZE_4KB), t)" "rep lo t b" "same_env s t" by auto
  have "((h + 511) * PAGE_SIZE_4KB, Size4KB) \<in> owned_blocks b" unfolding owned_blocks_iff st(2) by simp
  from free_page_refines [OF t(2) this] give_merge [OF st(2) assms(2,3) h(2) n] t(1,3) show ?thesis
    by (auto simp: same_env_def)
qed

text \<open>The sample allocator after both of its free 4KB frames are taken.\<close>

lemma sample_drained: "\<exists>s a. rep 500 s a \<and> free4 a = [] \<and> free2 a = [1024, 512] \<and> rflags s = 0x202"
proof -
  define a1 where "a1 = snd (spec_allocate Size4KB sample_frames)"
  have a1: "free4 a1 = [510]" "free2 a1 = [1024, 512]"
    unfolding a1_def by (simp_all add: spec_allocate_def spec_alloc_4kb_def spec_take_def sample_frames_def)
  from allocate_page_refines [OF sample_rep, of Size4KB] obtain s1 where s1: "rep 500 s1 a1" "rflags s1 = 0x202"
    unfolding a1_def by (auto simp: same_env_def)
  define a2 where "a2 = snd (spec_allocate Size4KB a1)"
  have a2: "free4 a2 = []" "free2 a2 = [1024, 512]"
    unfolding a2_def using a1 by (simp_all add: spec_allocate_def spec_alloc_4kb_def spec_take_def)
  from allocate_page_refines [OF s1(1), of Size4KB] s1(2) obtain s2 where "rep 500 s2 a2" "rflags s2 = 0x202"
    unfolding a2_def by (auto simp: same_env_def)
  with a2 show ?thesis by blast
qed

theorem split_merge_roundtrip_witness:
  "\<exists>s t u. allocate_page Size4KB s = Inr (Some (1535 * PAGE_SIZE_4KB), t) \<and> free_page (1535 * PAGE_SIZE_4KB) Size4KB t = Inr u \<and>
     rflags u = 0x202"
proof -
  obtain s a where s: "rep 500 s a" "free4 a = []" "free2 a = 1024 # [512]" "rflags s = 0x202"
    using sample_drained by auto
  from split_merge_roundtrip [OF s(1-3)] s(4) show ?thesis by auto
qed

section \<open>Wrong calls\<close>

text \<open>
  C25: releasing a 4KB frame that is on the 4KB list, a superpage that is on the 2MB list, or a 4KB frame outside the array changes
  nothing; releasing a superpage outside the array panics.
\<close>

theorem free_page_errors:
  assumes "rep lo s a"
  shows "(p \<in> set (free4 a) \<longrightarrow> free_page (p * PAGE_SIZE_4KB) Size4KB s = Inr s) \<and>
    (length (pages s) \<le> p \<longrightarrow> free_page (p * PAGE_SIZE_4KB) Size4KB s = Inr s) \<and>
    (p \<in> set (free2 a) \<longrightarrow> free_page (p * PAGE_SIZE_4KB) Size2MB s = Inr s) \<and>
    (length (pages s) \<le> p \<longrightarrow> free_page (p * PAGE_SIZE_4KB) Size2MB s = Inl IndexOutOfBounds)"
proof -
  note un = repD(1) [OF assms] and wf = repD(2) [OF assms] and m = repD(5) [OF assms]
  have addr: "p * PAGE_SIZE_4KB div PAGE_SIZE_4KB = p" by simp
  have sp: "length (pages s) \<le> p div PAGES_PER_2MB * PAGES_PER_2MB" if "length (pages s) \<le> p"
  proof -
    obtain k where "length (pages s) = PAGES_PER_2MB * k" using wf_D(1) [OF wf] by (elim dvdE)
    then have "k \<le> p div PAGES_PER_2MB" using that by (simp add: less_eq_div_iff_mult_less_eq page_consts mult.commute)
    then show ?thesis using \<open>length (pages s) = PAGES_PER_2MB * k\<close> by (simp add: mult.commute)
  qed
  have "free_2mb p s = Inr s" if "p \<in> set (free2 a)"
  proof -
    have p: "p < length (pages s)" "p div PAGES_PER_2MB * PAGES_PER_2MB = p" "state (pages s ! p) = Free2MB"
      using that wf_D(11,12) [OF wf, of p] meta_okD(2) [OF m] by auto
    then show ?thesis using un by (elim unlocked_cases) (simp add: free_2mb_def lock_exec access_exec)
  qed
  then show ?thesis
    using free_4kb_already [OF un, of p] meta_okD(1) [OF m, of p] wf_range [OF wf, of p]
      free_4kb_out_of_range [OF un] free_2mb_out_of_range [OF un] sp
    by (auto simp: free_page_def addr)
qed

theorem free_page_errors_witness:
  "free_page (511 * PAGE_SIZE_4KB) Size4KB sample_allocator = Inr sample_allocator \<and>
   free_page (2048 * PAGE_SIZE_4KB) Size2MB sample_allocator = Inl IndexOutOfBounds"
  using free_page_errors [OF sample_rep, of 511] free_page_errors [OF sample_rep, of 2048] by (simp add: sample_frames_def)

end
