(* ===== verification/Memory_Props.thy ===== *)
theory Memory_Props
  imports Page_Props
begin

text \<open>
  Properties of the memory subsystem as its users see it: the kernel heap on top of the page allocator, start-up from
  the boot information, and the limits of both that the code does not defend against.
\<close>

section \<open>The heap\<close>

text \<open>
  C5: any sequence of heap requests and releases runs to its end without a panic or a deadlock; the blocks held
  then have non-null addresses aligned to the size of the page that serves them, and so to the alignment of their layout if that
  divides the page size, and two blocks of at most 2MB each do not overlap.
\<close>

theorem heap_clients_safe:
  assumes "provides s a"
  shows "\<exists>live t. for_each ops (heap_step allocate_page free_page) ([], s) = Inr (live, t) \<and>
    (\<forall>b\<in>set live. 0 < fst b \<and> bytes_of (page_size_for (snd b)) dvd fst b \<and>
       (layout_align (snd b) dvd bytes_of (page_size_for (snd b)) \<longrightarrow> layout_align (snd b) dvd fst b)) \<and>
    (\<forall>i j. i < j \<and> j < length live \<and> layout_size (snd (live ! i)) \<le> PAGE_SIZE_2MB \<and>
       layout_size (snd (live ! j)) \<le> PAGE_SIZE_2MB \<longrightarrow> heap_bytes (live ! i) \<inter> heap_bytes (live ! j) = {})"
proof -
  from page_pool.heap_run_safe [OF assms, of ops] obtain live t where
    r: "for_each ops (heap_step allocate_page free_page) ([], s) = Inr (live, t)"
      "\<forall>b\<in>set live. 0 < fst b \<and> bytes_of (page_size_for (snd b)) dvd fst b" and
    d: "\<forall>i j. i < j \<and> j < length live \<and> layout_size (snd (live ! i)) \<le> PAGE_SIZE_2MB \<and>
       layout_size (snd (live ! j)) \<le> PAGE_SIZE_2MB \<longrightarrow> heap_bytes (live ! i) \<inter> heap_bytes (live ! j) = {}" by blast
  from r(2) have "\<forall>b\<in>set live. 0 < fst b \<and> bytes_of (page_size_for (snd b)) dvd fst b \<and>
      (layout_align (snd b) dvd bytes_of (page_size_for (snd b)) \<longrightarrow> layout_align (snd b) dvd fst b)" by (blast intro: dvd_trans)
  with r(1) d show ?thesis by (intro exI [of _ live] exI [of _ t] conjI)
qed

theorem heap_clients_safe_witness:
  "\<exists>live t. for_each [Alloc \<lparr>layout_size = 100, layout_align = 8\<rparr>, Alloc \<lparr>layout_size = 5000, layout_align = 8\<rparr>, Dealloc 1]
     (heap_step allocate_page free_page) ([], sample_allocator) = Inr (live, t)"
  using heap_clients_safe [OF sample_provides] by blast

text \<open>
  C38: a request of more than 2MB is served with a single 2MB page. With two neighbouring superpages in front of
  the free list, two such requests obtain blocks that overlap.
\<close>

theorem large_blocks_overlap:
  assumes "rep lo s a" and "free2 a = h # k # hs" and "h = k + PAGES_PER_2MB" and "PAGE_SIZE_2MB < layout_size lay"
  shows "\<exists>t u. heap_alloc lay s = Inr (h * PAGE_SIZE_4KB, t) \<and> heap_alloc lay t = Inr (k * PAGE_SIZE_4KB, u) \<and>
    heap_bytes (h * PAGE_SIZE_4KB, lay) \<inter> heap_bytes (k * PAGE_SIZE_4KB, lay) \<noteq> {}"
proof -
  define b where "b = a\<lparr>free2 := k # hs, used2 := insert h (used2 a)\<rparr>"
  have ha: "spec_allocate Size2MB a = (Some h, b)" using assms(2) by (simp add: spec_allocate_def spec_alloc_2mb_def b_def)
  have hb: "fst (spec_allocate Size2MB b) = Some k" by (simp add: spec_allocate_def spec_alloc_2mb_def b_def)
  from allocate_page_refines [OF assms(1), of Size2MB] ha obtain t where
    t: "allocate_page Size2MB s = Inr (Some (h * PAGE_SIZE_4KB), t)" "rep lo t b" by auto
  from allocate_page_refines [OF t(2), of Size2MB] hb obtain u where
    u: "allocate_page Size2MB t = Inr (Some (k * PAGE_SIZE_4KB), u)" by auto
  have "h * PAGE_SIZE_4KB \<in> heap_bytes (h * PAGE_SIZE_4KB, lay) \<inter> heap_bytes (k * PAGE_SIZE_4KB, lay)"
    using assms(3,4) by (auto simp: heap_bytes_def page_consts)
  then show ?thesis using t(1) u assms(4) by (auto simp: heap_alloc_def simple_alloc_def page_consts)
qed

theorem large_blocks_overlap_witness:
  "\<exists>t u. heap_alloc \<lparr>layout_size = 3 * 1024 * 1024, layout_align = 8\<rparr> sample_allocator = Inr (1024 * PAGE_SIZE_4KB, t) \<and>
     heap_alloc \<lparr>layout_size = 3 * 1024 * 1024, layout_align = 8\<rparr> t = Inr (512 * PAGE_SIZE_4KB, u)"
proof -
  have "free2 sample_frames = 1024 # 512 # []" by (simp add: sample_frames_def)
  from large_blocks_overlap [OF sample_rep this, of "\<lparr>layout_size = 3 * 1024 * 1024, layout_align = 8\<rparr>"] show ?thesis
    by (auto simp: page_consts)
qed

section \<open>Start-up\<close>

text \<open>
  C4: given boot information with a memory map whose areas fit the address space, start-up ends with an allocator
  that represents exactly the whole frames of the available areas behind the metadata array as free, and nothing as
  owned.
\<close>

theorem memory_init_correct:
  assumes "boot_ok end_sym meta_size mem mem' addr areas"
    and "free_kb (start_frames end_sym meta_size areas) < 2 ^ 31"
  shows "\<exists>log t a. memory_init end_sym meta_size raw mem mem' addr (new_allocator fl) = Some (Inr (log, t)) \<and>
    rep (first_frame end_sym meta_size areas) t a \<and> rflags t = fl \<and> used4 a = {} \<and> used2 a = {} \<and>
    set (free4 a) \<union> \<Union> (block ` set (free2 a)) =
      {p. first_frame end_sym meta_size areas \<le> p \<and> p < total_pages areas \<and>
          (\<exists>m\<in>set areas. area_typ m = 1 \<and> unat (base_addr m) div PAGE_SIZE_4KB \<le> p \<and> p < area_end m div PAGE_SIZE_4KB)}"
proof -
  have "used4 (start_frames end_sym meta_size areas) = {}" "used2 (start_frames end_sym meta_size areas) = {}"
    by (simp_all add: start_frames_def boot_frames_def)
  moreover have "rflags (new_allocator fl) = fl" by (simp add: new_allocator_def)
  ultimately show ?thesis
    using memory_init_rep [OF assms(1) unlocked_new assms(2), of raw fl] start_frames_cover [of end_sym meta_size areas] by metis
qed

theorem memory_init_correct_witness:
  "\<exists>log t a. memory_init 0x150000 40 (\<lambda>_. new_metadata) sample_memory sample_memory 0x10000 (new_allocator 2) = Some (Inr (log, t)) \<and>
     rep 356 t a \<and> rflags t = 2"
  using memory_init_correct [OF sample_boot sample_free_kb, of "\<lambda>_. new_metadata" 2] by (auto simp: sample_boot_values)

text \<open>
  C26: start-up panics when the boot loader passes a null pointer or boot information without a memory map.
\<close>

theorem memory_init_errors:
  assumes "boot_info_ok mem addr tags" and "6 \<notin> snd ` set tags"
  shows "memory_init end_sym meta_size raw mem mem' addr s = Some (Inl (ExpectFailed ''No memory map found in multiboot info'')) \<and>
    memory_init end_sym meta_size raw mem mem' 0 s = Some (Inl (ExpectFailed ''Failed to parse multiboot info''))"
proof -
  have "find (\<lambda>t. snd t = MULTIBOOT2_TAG_TYPE_MMAP) tags = None"
    using assms(2) by (force simp: find_None_iff MULTIBOOT2_TAG_TYPE_MMAP_def)
  then show ?thesis by (simp add: memory_init_exec [OF assms(1)]) (simp add: memory_init_def parse_def)
qed

theorem memory_init_errors_witness:
  "memory_init 0x150000 40 (\<lambda>_. new_metadata) (\<lambda>_. 0) (\<lambda>_. 0) 0x10000 (new_allocator 2) =
     Some (Inl (ExpectFailed ''No memory map found in multiboot info''))"
proof -
  have "boot_info_ok (\<lambda>_. 0) 0x10000 []"
    by (simp add: boot_info_ok_def read_tag_def read_u32_def read_le_numeral MULTIBOOT2_TAG_TYPE_END_def)
  from memory_init_errors [OF this] show ?thesis by simp
qed

text \<open>
  A memory map whose header gives entry size zero, and has room for at least one entry, keeps start-up reading the first
  entry for ever.
\<close>

lemma memory_init_diverges:
  assumes "boot_info_ok mem addr tags" and "find (\<lambda>t. snd t = 6) tags = Some (mmap, ty)"
    and "entry_size (read_mmap_tag mem mmap) = 0" and "16 < unat (mmap_size (read_mmap_tag mem mmap))"
    and "mmap + unat (mmap_size (read_mmap_tag mem mmap)) < usize_limit"
    and "area_end (read_area mem (mmap + 16)) < usize_limit"
  shows "memory_init end_sym meta_size raw mem mem' addr s = None"
proof -
  let ?it = "\<lparr>current = mmap + 16, iter_end = mmap + unat (mmap_size (read_mmap_tag mem mmap)), iter_entry_size = 0\<rparr>"
  have "memory_areas mem mmap = Inr ?it" using assms(3,5) by (simp add: memory_areas_def Let_def)
  moreover have "for_areas mem max_area ?it 0 = None"
    using assms(4-6) by (intro for_areas_stuck [where P = "\<lambda>_. True"]) (auto simp: max_area_def area_end_def)
  moreover have "find (\<lambda>t. snd t = MULTIBOOT2_TAG_TYPE_MMAP) tags = Some (mmap, ty)"
    using assms(2) by (simp add: MULTIBOOT2_TAG_TYPE_MMAP_def)
  ultimately show ?thesis by (simp add: memory_init_exec [OF assms(1)] init_allocator_def)
qed

section \<open>Limits\<close>

text \<open>
  C34: while \<^verbatim>\<open>alloc_4kb\<close> is between giving up the list and giving up the page array, interrupts are on again
  although the page array is locked. An interrupt handler that releases a page then waits for ever.
\<close>

theorem alloc_4kb_interrupt_window:
  assumes "rep lo s a" and "free4 a = p # ps4" and "are_interrupts_enabled (rflags s)"
  shows "\<exists>head s1 page_guard s2. lock_4kb s = Inr (head, s1) \<and> head_4kb s1 = Some p \<and>
    alloc_4kb_unlink head p s1 = Inr (page_guard, s2) \<and> are_interrupts_enabled (rflags s2) \<and>
    free_page addr sz s2 = Inl Deadlock"
proof -
  note un = repD(1) [OF assms(1)] and dl = repD(3) [OF assms(1)]
  have p: "head_4kb s = Some p" "p < length (pages s)" using dl assms(2) by (auto simp: dll_def)
  obtain ps h where u: "unlink_front p (pages s) = Inr (ps, h)" "p < length ps"
    using unlink_front_ok [of "pages s" p ps4] dl assms(2) p by (auto simp: same_meta_def)
  show ?thesis
    using un assms(3) p u
    by (elim unlocked_cases; cases sz) (simp_all add: alloc_4kb_unlink_def modify_page_def lock_exec access_exec
        free_page_def free_4kb_def free_4kb_insert_def free_2mb_def)
qed

theorem alloc_4kb_interrupt_window_witness:
  "\<exists>head s1 page_guard s2. lock_4kb sample_allocator = Inr (head, s1) \<and> alloc_4kb_unlink head 511 s1 = Inr (page_guard, s2) \<and>
     are_interrupts_enabled (rflags s2) \<and> free_page 0 Size4KB s2 = Inl Deadlock"
proof -
  have "free4 sample_frames = 511 # [510]" by (simp add: sample_frames_def)
  moreover have "are_interrupts_enabled (rflags sample_allocator)" by (simp add: are_interrupts_enabled_def)
  ultimately show ?thesis using alloc_4kb_interrupt_window [OF sample_rep] by blast
qed

text \<open>
  C37: the guard against a double release does not recognise the first frame of a free superpage. Releasing it as a
  4KB page puts it on the 4KB list as well, and the next two allocations hand out the same address.
\<close>

theorem superpage_head_double_free:
  assumes "rep lo s a" and "free2 a = h # hs" and "counter (pages s ! h) = 512"
  shows "\<exists>t u v. free_page (h * PAGE_SIZE_4KB) Size4KB s = Inr t \<and>
    allocate_page Size4KB t = Inr (Some (h * PAGE_SIZE_4KB), u) \<and> allocate_page Size2MB u = Inr (Some (h * PAGE_SIZE_4KB), v)"
proof -
  note un = repD(1) [OF assms(1)] and wf = repD(2) [OF assms(1)]
  have h: "h < length (pages s)" "h div PAGES_PER_2MB * PAGES_PER_2MB = h" "head_2mb s = Some h"
    "state (pages s ! h) = Free2MB" "h \<notin> set (free4 a)"
    using wf_D(11,12) [OF wf, of h] assms(2) repD(4) [OF assms(1)] meta_okD(2) [OF repD(5) [OF assms(1)], of h]
      wf_small_large [OF wf, of h] by (auto simp: dll_def)
  note lim = wf_no_overflow [OF wf h(1)]
  let ?q = "(pages s)[h := (pages s ! h)\<lparr>state := Free4KB, counter := 513\<rparr>]"
  have "dll ?q (head_4kb s) (free4 a)"
    by (rule dll_same_links [OF _ repD(3) [OF assms(1)]], rule same_links_update) (use h(5) in simp)
  from link_front_ok [OF this _ h(5)] h(1) obtain qs where
    q: "link_front h (head_4kb s) ?q = Inr (qs, Some h)" "dll qs (Some h) (h # free4 a)" "length qs = length (pages s)"
    by (auto simp: same_meta_def)
  have "x < length ?q" if "head_4kb s = Some x" for x using repD(3) [OF assms(1)] that by (cases "free4 a") (auto simp: dll_def)
  then have "link_front_checked h (head_4kb s) ?q = Inr (qs, Some h)" using q(1) link_front_checked_eq by metis
  then have f: "free_4kb h s = Inr (set_head_4kb (Some h) (set_pages qs s))"
    using free_4kb_insert_exec [OF un h(1) _ h(2) [symmetric] refl refl, of qs "Some h"] h(1,4) assms(3)
    by (simp add: free_4kb_def saturating_add_def page_consts)
  obtain rs r where r: "unlink_front h qs = Inr (rs, r)" "length rs = length qs"
    using unlink_front_ok [OF q(2)] by (auto simp: same_meta_def)
  let ?t = "set_head_4kb (Some h) (set_pages qs s)"
  obtain u where u: "alloc_4kb ?t = Inr (Some (h * PAGE_SIZE_4KB), u)" "unlocked u" "head_2mb u = Some h"
    "next_pg (pages u ! h) = None" "length (pages u) = length (pages s)"
    using alloc_4kb_exec [of ?t h rs r h] un r h q(3) lim by (auto simp: taken_def Let_def)
  have "unlink_front h (pages u) = Inr (pages u, None)" using u h by (simp add: unlink_front_def modify_opt_def)
  from alloc_2mb_exec [OF u(2,3) this] u(5) h(1) lim f u(1) show ?thesis
    by (simp add: free_page_def allocate_page_def)
qed

theorem superpage_head_double_free_witness:
  "\<exists>t u v. free_page (1024 * PAGE_SIZE_4KB) Size4KB sample_allocator = Inr t \<and>
     allocate_page Size4KB t = Inr (Some (1024 * PAGE_SIZE_4KB), u) \<and> allocate_page Size2MB u = Inr (Some (1024 * PAGE_SIZE_4KB), v)"
proof -
  have "free2 sample_frames = 1024 # [512]" by (simp add: sample_frames_def)
  moreover have "counter (pages sample_allocator ! 1024) = 512" by (simp add: sample_pages_nth)
  ultimately show ?thesis by (rule superpage_head_double_free [OF sample_rep])
qed

end
