(* ===== verification/Bit_Fields.thy ===== *)
theory Bit_Fields
  imports Prelude
begin

text \<open>
  The bit manipulation the descriptor tables and the APIC driver import from the crates \<^verbatim>\<open>bitfield\<close> and
  \<^verbatim>\<open>bit_field\<close>. The operations are parameters of the model; the predicates below state their
  documented behaviour bit by bit, and HOL's own bit operations satisfy them. The theory also holds the
  little-endian byte representation of machine words and the contract of numeric code tables.
\<close>

section \<open>Single bits and bit ranges\<close>

text \<open>\<^verbatim>\<open>x.set_bit(i, b)\<close>\<close>

type_synonym 'w bit_setter = "'w \<Rightarrow> nat \<Rightarrow> bool \<Rightarrow> 'w"

definition sets_bit :: "'a::len word bit_setter \<Rightarrow> bool" where
  "sets_bit f \<longleftrightarrow> (\<forall>x i b k. i < LENGTH('a) \<longrightarrow> bit (f x i b) k = (if k = i then b else bit x k))"

text \<open>\<^verbatim>\<open>x.set_bits(lo..hi, v)\<close> for a value that fits the range.\<close>

type_synonym 'w range_setter = "'w \<Rightarrow> nat \<Rightarrow> nat \<Rightarrow> 'w \<Rightarrow> 'w"

definition sets_bits :: "'a::len word range_setter \<Rightarrow> bool" where
  "sets_bits f \<longleftrightarrow> (\<forall>x lo hi v k. lo < hi \<longrightarrow> hi \<le> LENGTH('a) \<longrightarrow> unat v < 2 ^ (hi - lo) \<longrightarrow>
     bit (f x lo hi v) k = (if lo \<le> k \<and> k < hi then bit v (k - lo) else bit x k))"

definition hol_set_bit :: "'a::len word bit_setter" where
  "hol_set_bit x i b = (if b then Bit_Operations.set_bit i x else unset_bit i x)"

definition hol_set_bits :: "'a::len word range_setter" where
  "hol_set_bits x lo hi v = (x AND NOT (push_bit lo (mask (hi - lo)))) OR push_bit lo (v AND mask (hi - lo))"

lemma sets_bitD: "sets_bit f \<Longrightarrow> i < LENGTH('a) \<Longrightarrow> bit (f x i b) k = (if k = i then b else bit x k)"
  for x :: "'a::len word"
  by (simp add: sets_bit_def)

lemma sets_bitsD:
  "sets_bits f \<Longrightarrow> lo < hi \<Longrightarrow> hi \<le> LENGTH('a) \<Longrightarrow> unat v < 2 ^ (hi - lo) \<Longrightarrow>
   bit (f x lo hi v) k = (if lo \<le> k \<and> k < hi then bit v (k - lo) else bit x k)"
  for x :: "'a::len word"
  by (simp add: sets_bits_def)

lemma hol_sets_bit: "sets_bit (hol_set_bit :: 'a::len word bit_setter)"
  by (auto simp: sets_bit_def hol_set_bit_def bit_simps)

lemma hol_sets_bits: "sets_bits (hol_set_bits :: 'a::len word range_setter)"
  by (auto simp: sets_bits_def hol_set_bits_def bit_simps dest: bit_imp_le_length)

section \<open>Little-endian bytes\<close>

fun le_bytes :: "nat \<Rightarrow> nat \<Rightarrow> u8 list" where
  "le_bytes 0 x = []"
| "le_bytes (Suc n) x = of_nat (x mod 256) # le_bytes n (x div 256)"

fun of_le_bytes :: "u8 list \<Rightarrow> nat" where
  "of_le_bytes [] = 0"
| "of_le_bytes (b # bs) = unat b + 256 * of_le_bytes bs"

lemma length_le_bytes [simp]: "length (le_bytes n x) = n"
  by (induction n arbitrary: x) auto

lemma of_le_bytes_le_bytes: "of_le_bytes (le_bytes n x) = x mod 256 ^ n"
proof (induction n arbitrary: x)
  case (Suc n)
  have "x mod (256 * 256 ^ n) = 256 * (x div 256 mod 256 ^ n) + x mod 256"
    by (rule mod_mult2_eq)
  then show ?case using Suc by (simp add: unat_of_nat)
qed simp

section \<open>Parts of words\<close>

lemma unat_drop_bit: "unat (drop_bit k w) = unat w div 2 ^ k"
  for w :: "'a::len word"
  by (simp only: unsigned_drop_bit_eq) (simp add: take_bit_eq_mod drop_bit_eq_div)

lemma unat_ucast_mod: "unat (ucast w :: 'b::len word) = unat w mod 2 ^ LENGTH('b)"
  for w :: "'a::len word"
  by (simp add: unsigned_ucast_eq take_bit_eq_mod)

lemma ucast_drop_bit_of_nat: "(ucast (drop_bit k w) :: 'b::len word) = of_nat (unat w div 2 ^ k)"
  for w :: "'a::len word"
  by (simp only: word_unat_eq_iff unat_ucast_mod unat_drop_bit unat_of_nat)

section \<open>Numeric code tables\<close>

text \<open>
  An enumeration with a numeric code and a partial inverse, as the sources define them by \<^verbatim>\<open>From\<close> and
  \<^verbatim>\<open>TryFrom\<close>. \<open>canon\<close> says which values the inverse produces.
\<close>

locale code_table =
  fixes encode :: "'a \<Rightarrow> 'c" and decode :: "'c \<Rightarrow> 'e + 'a" and canon :: "'a \<Rightarrow> bool"
  assumes decode_encode: "canon x \<Longrightarrow> decode (encode x) = Inr x"
    and decode_sound: "decode c = Inr x \<Longrightarrow> encode x = c \<and> canon x"
begin

lemma encode_inj: "canon x \<Longrightarrow> canon y \<Longrightarrow> encode x = encode y \<Longrightarrow> x = y"
  using decode_encode by (metis sum.inject(2))

lemma decode_unique: "decode c = Inr x \<Longrightarrow> decode c' = Inr x \<Longrightarrow> c = c'"
  using decode_sound by metis

lemma decode_iff: "decode c = Inr x \<longleftrightarrow> canon x \<and> encode x = c"
  using decode_encode decode_sound by metis

end

end
