(* ===== verification/Boot.thy ===== *)
theory Boot
  imports Multiboot2 Bit_Fields
begin

unbundle bit_operations_syntax

text \<open>
  The assembly that enters long mode, \<^verbatim>\<open>src/src/boot.asm\<close>: the check of the boot loader's magic number, the page tables, the
  control registers and the jump to \<^verbatim>\<open>rust_main\<close>. The link-time addresses are parameters. Calls and returns go through the
  stack in memory, so that a routine that overwrites its own return address would not come back. The page walk of the
  processor is modelled after the Intel manual; it gives the meaning of the tables the code builds.
\<close>

section \<open>State\<close>

record boot_layout =
  sym_bootinfo :: u32
  sym_p4_table :: u32
  sym_p3_table :: u32
  sym_stack_top :: u32
  sym_gdt64 :: u32
  site_check :: u32
  site_tables :: u32
  site_paging :: u32

record boot_state =
  eax :: u32
  ebx :: u32
  ecx :: u32
  edx :: u32
  edi :: u32
  esp :: u32
  direction_flag :: bool
  cr0 :: u32
  cr3 :: u32
  cr4 :: u32
  efer :: u64
  gdtr :: "u16 \<times> u32"
  cs :: u16
  data_segments :: u16
  rsp :: u64
  phys :: memory

text \<open>How the code can end: in the error routine's \<^verbatim>\<open>hlt\<close>, or at an address that is not the one \<^verbatim>\<open>call\<close> left.\<close>

datatype boot_failure = Halted boot_state | WildReturn u32

section \<open>Memory and control flow\<close>

definition store8 :: "u32 \<Rightarrow> u8 \<Rightarrow> memory \<Rightarrow> memory" where
  "store8 a b mem = mem(unat a := b)"

definition store32 :: "u32 \<Rightarrow> u32 \<Rightarrow> memory \<Rightarrow> memory" where
  "store32 a v mem = store8 (a + 3) (ucast (drop_bit 24 v)) (store8 (a + 2) (ucast (drop_bit 16 v))
     (store8 (a + 1) (ucast (drop_bit 8 v)) (store8 a (ucast v) mem)))"

definition load32 :: "u32 \<Rightarrow> memory \<Rightarrow> u32" where
  "load32 a mem = read_u32 mem (unat a)"

definition call :: "u32 \<Rightarrow> boot_state \<Rightarrow> boot_state" where
  "call site s = s\<lparr>esp := esp s - 4, phys := store32 (esp s - 4) site (phys s)\<rparr>"

definition ret :: "u32 \<Rightarrow> boot_state \<Rightarrow> boot_failure + boot_state" where
  "ret site s = (let target = load32 (esp s) (phys s) in
     if target = site then Inr (s\<lparr>esp := esp s + 4\<rparr>) else Inl (WildReturn target))"

section \<open>The routines\<close>

definition error_routine :: "boot_state \<Rightarrow> boot_state" where
  "error_routine s =
     (let mem = store32 0xb8000 0x4f524f45 (phys s); mem = store32 0xb8004 0x4f3a4f52 mem;
          mem = store32 0xb8008 0x4f204f20 mem; mem = store8 0xb800a (ucast (eax s)) mem in
      s\<lparr>phys := mem\<rparr>)"

text \<open>\<^verbatim>\<open>mov al, 'M'\<close> replaces the low byte of EAX.\<close>

definition check_multiboot :: "boot_layout \<Rightarrow> boot_state \<Rightarrow> boot_failure + boot_state" where
  "check_multiboot L s =
     (if eax s \<noteq> 0x36d76289
      then Inl (Halted (error_routine (s\<lparr>eax := (eax s AND NOT 0xff) OR 0x4d\<rparr>)))
      else let mem = store32 (sym_bootinfo L) (ebx s) (phys s); mem = store32 (sym_bootinfo L + 4) 0 mem in
        ret (site_check L) (s\<lparr>phys := mem\<rparr>))"

text \<open>\<^verbatim>\<open>rep stosd\<close>: as long as ECX is not zero, store EAX at EDI and step EDI in the direction of DF.\<close>

function rep_stosd :: "boot_state \<Rightarrow> boot_state" where
  "rep_stosd s = (if ecx s = 0 then s
     else rep_stosd (s\<lparr>phys := store32 (edi s) (eax s) (phys s),
                       edi := (if direction_flag s then edi s - 4 else edi s + 4), ecx := ecx s - 1\<rparr>))"
  by pat_completeness auto
termination by (relation "measure (\<lambda>s. unat (ecx s))") (auto intro: measure_unat)

declare rep_stosd.simps [simp del]

text \<open>\<^verbatim>\<open>loop\<close> decrements ECX and jumps back unless it became zero.\<close>

function map_p3_table :: "boot_state \<Rightarrow> boot_state" where
  "map_p3_table s =
     (let s = s\<lparr>phys := store32 (edi s) (eax s) (phys s)\<rparr>; s = s\<lparr>eax := eax s + 0x40000000\<rparr>;
          s = s\<lparr>edi := edi s + 8\<rparr>; s = s\<lparr>ecx := ecx s - 1\<rparr> in
      if ecx s \<noteq> 0 then map_p3_table s else s)"
  by pat_completeness auto
termination
proof (relation "measure (\<lambda>s. unat (ecx s - 1))", goal_cases)
  case (2 s)
  then show ?case using measure_unat [of "ecx s - 1"] by simp
qed simp

declare map_p3_table.simps [simp del]

definition set_up_page_tables :: "boot_layout \<Rightarrow> boot_state \<Rightarrow> boot_failure + boot_state" where
  "set_up_page_tables L s =
     (let s = rep_stosd (s\<lparr>edi := sym_p4_table L, ecx := 4096, eax := 0\<rparr>);
          s = s\<lparr>eax := sym_p3_table L OR 0b11\<rparr>;
          s = s\<lparr>phys := store32 (sym_p4_table L) (eax s) (phys s)\<rparr>;
          s = map_p3_table (s\<lparr>edi := sym_p3_table L, eax := 0b10000011, ecx := 4\<rparr>) in
      ret (site_tables L) s)"

definition enable_paging :: "boot_layout \<Rightarrow> boot_state \<Rightarrow> boot_failure + boot_state" where
  "enable_paging L s =
     (let s = s\<lparr>eax := sym_p4_table L\<rparr>; s = s\<lparr>cr3 := eax s\<rparr>;
          s = s\<lparr>eax := cr4 s OR push_bit 5 1\<rparr>; s = s\<lparr>cr4 := eax s\<rparr>;
          s = s\<lparr>ecx := 0xC0000080, eax := ucast (efer s), edx := ucast (drop_bit 32 (efer s))\<rparr>;
          s = s\<lparr>eax := eax s OR push_bit 8 1\<rparr>;
          s = s\<lparr>efer := push_bit 32 (ucast (edx s)) OR ucast (eax s)\<rparr>;
          s = s\<lparr>eax := cr0 s OR push_bit 31 1\<rparr>; s = s\<lparr>cr0 := eax s\<rparr> in
      ret (site_paging L) s)"

text \<open>The temporary GDT: its two entries, and the pointer's limit.\<close>

definition gdt64 :: "u64 list" where
  "gdt64 = [0, push_bit 43 1 OR push_bit 44 1 OR push_bit 47 1 OR push_bit 53 1]"

definition gdt64_code :: u16 where
  "gdt64_code = 8"

definition gdt64_limit :: u16 where
  "gdt64_limit = of_nat (8 * length gdt64) - 1"

text \<open>The 64-bit code up to the call of \<^verbatim>\<open>rust_main\<close>; RSP is as the callee finds it.\<close>

definition long_mode_start :: "boot_layout \<Rightarrow> boot_state \<Rightarrow> boot_state" where
  "long_mode_start L s = (let s = s\<lparr>data_segments := 0\<rparr>; s = s\<lparr>rsp := ucast (sym_stack_top L)\<rparr> in s\<lparr>rsp := rsp s - 8\<rparr>)"

definition start :: "boot_layout \<Rightarrow> boot_state \<Rightarrow> boot_failure + boot_state" where
  "start L s =
     (case check_multiboot L (call (site_check L) s) of Inl e \<Rightarrow> Inl e | Inr s \<Rightarrow>
      case set_up_page_tables L (call (site_tables L) (s\<lparr>esp := sym_stack_top L\<rparr>)) of Inl e \<Rightarrow> Inl e | Inr s \<Rightarrow>
      case enable_paging L (call (site_paging L) s) of Inl e \<Rightarrow> Inl e | Inr s \<Rightarrow>
      Inr (long_mode_start L (s\<lparr>gdtr := (gdt64_limit, sym_gdt64 L), cs := gdt64_code\<rparr>)))"

text \<open>\<^verbatim>\<open>src/src/multiboot_header.asm\<close> as the words of the header.\<close>

definition multiboot_header :: "u32 list" where
  "multiboot_header = [0xe85250d6, 0, 24, of_int (0x100000000 - (0xe85250d6 + 0 + 24)), 0, 8]"

section \<open>Address translation\<close>

text \<open>
  The 4-level walk (Intel SDM Vol. 3, 4.5): bit 0 of an entry is the present bit, bit 7 of a level 3 or level 2 entry makes it a
  leaf, bits 51 to 12 are the address of the next table or, from the page size up, of the page.
\<close>

fun walk :: "memory \<Rightarrow> nat \<Rightarrow> usize \<Rightarrow> usize \<Rightarrow> usize option" where
  "walk mem 0 table v = Some (table + v mod 2 ^ 12)"
| "walk mem (Suc n) table v =
     (let e = unat (read_u64 mem (table + 8 * (v div 2 ^ (12 + 9 * n) mod 512))) in
      if e mod 2 = 0 then None
      else if n \<in> {1, 2} \<and> e div 2 ^ 7 mod 2 = 1
      then Some (e div 2 ^ (12 + 9 * n) mod 2 ^ (40 - 9 * n) * 2 ^ (12 + 9 * n) + v mod 2 ^ (12 + 9 * n))
      else walk mem n (e div 2 ^ 12 mod 2 ^ 40 * 2 ^ 12) v)"

definition translate :: "memory \<Rightarrow> u32 \<Rightarrow> usize \<Rightarrow> usize option" where
  "translate mem root v = walk mem 4 (unat root div 2 ^ 12 * 2 ^ 12) v"

section \<open>Memory accesses\<close>

lemma unat_add_small: "unat (a :: u32) + k < 2 ^ 32 \<Longrightarrow> unat (a + of_nat k) = unat a + k"
  by (simp add: unat_word_ariths(1) take_bit_eq_mod unat_of_nat)

lemma unat_add_literals:
  assumes "unat (a :: u32) + 3 < 2 ^ 32"
  shows "unat (a + 1) = unat a + 1" "unat (a + 2) = unat a + 2" "unat (a + 3) = unat a + 3"
  using assms unat_add_small [of a 1] unat_add_small [of a 2] unat_add_small [of a 3] by simp_all

lemma store32_outside:
  assumes "unat a + 3 < 2 ^ 32" and "x < unat a \<or> unat a + 4 \<le> x"
  shows "store32 a v mem x = mem x"
  using assms by (auto simp: store32_def store8_def unat_add_literals)

lemma read_le_cong: "(\<And>i. i < n \<Longrightarrow> mem (x + i) = mem' (x + i)) \<Longrightarrow> read_le mem x n = read_le mem' x n"
proof (induction n arbitrary: x)
  case (Suc n)
  have "read_le mem (Suc x) n = read_le mem' (Suc x) n"
  proof (rule Suc.IH)
    fix i assume "i < n"
    then show "mem (Suc x + i) = mem' (Suc x + i)" using Suc.prems [of "Suc i"] by simp
  qed
  then show ?case using Suc.prems [of 0] by simp
qed simp

lemma read_le_zero: "(\<And>i. i < n \<Longrightarrow> mem (x + i) = 0) \<Longrightarrow> read_le mem x n = 0"
proof (induction n arbitrary: x)
  case (Suc n)
  have "read_le mem (Suc x) n = 0" using Suc.prems [of "Suc _"] by (intro Suc.IH) simp
  then show ?case using Suc.prems [of 0] by simp
qed simp

lemma read_le_add: "read_le mem x (m + n) = read_le mem x m + 256 ^ m * read_le mem (x + m) n"
  by (induction m arbitrary: x) (simp_all add: algebra_simps)

lemma read_le_bound: "read_le mem x n < 256 ^ n"
proof (induction n arbitrary: x)
  case (Suc n)
  have "unat (mem x) < 256" using unsigned_less [of "mem x"] by simp
  moreover have "read_le mem (Suc x) n + 1 \<le> 256 ^ n" using Suc.IH [of "Suc x"] by simp
  then have "256 * (read_le mem (Suc x) n + 1) \<le> 256 * 256 ^ n" by (rule mult_le_mono2)
  ultimately show ?case by simp
qed simp

lemma read_le_store_other:
  assumes "unat a + 3 < 2 ^ 32" and "x + n \<le> unat a \<or> unat a + 4 \<le> x"
  shows "read_le (store32 a v mem) x n = read_le mem x n"
  using assms by (intro read_le_cong store32_outside) auto

lemma read_le_store_same:
  assumes "unat a + 3 < 2 ^ 32"
  shows "read_le (store32 a v mem) (unat a) 4 = unat v"
proof -
  have b: "unat (ucast (drop_bit k v) :: u8) = unat v div 2 ^ k mod 256" for k
    by (simp only: unat_ucast_mod unat_drop_bit) simp
  have "unat v < 2 ^ 32" using unsigned_less [of v] by simp
  then have d: "unat v div 16777216 mod 256 = unat v div 16777216" by (intro mod_less less_mult_imp_div_less) simp
  have e: "unat v div 65536 = unat v div 256 div 256" "unat v div 16777216 = unat v div 65536 div 256"
    by (simp_all add: div_mult2_eq [symmetric])
  have "read_le (store32 a v mem) (unat a) 4 = unat (ucast v :: u8) + 256 * (unat (ucast (drop_bit 8 v) :: u8) +
      256 * (unat (ucast (drop_bit 16 v) :: u8) + 256 * unat (ucast (drop_bit 24 v) :: u8)))"
    by (simp add: read_le_Suc_numeral store32_def store8_def unat_add_literals [OF assms])
  also have "\<dots> = unat v mod 256 + 256 * (unat v div 256 mod 256 + 256 * (unat v div 65536 mod 256 + 256 * (unat v div 16777216)))"
    using b [of 0] b [of 8] b [of 16] b [of 24] d by simp
  also have "\<dots> = unat v" by (simp only: e mod_mult_div_eq)
  finally show ?thesis .
qed

lemma load32_store32: "unat a + 3 < 2 ^ 32 \<Longrightarrow> load32 a (store32 a v mem) = v"
  by (simp add: load32_def read_u32_def read_le_store_same)

lemma load32_store32_other:
  assumes "unat b + 3 < 2 ^ 32" and "unat a + 4 \<le> unat b \<or> unat b + 4 \<le> unat a"
  shows "load32 a (store32 b v mem) = load32 a mem"
  using assms by (simp add: load32_def read_u32_def read_le_store_other)

text \<open>Memory with the bytes from \<open>lo\<close> up to \<open>hi\<close> cleared.\<close>

definition cleared :: "usize \<Rightarrow> usize \<Rightarrow> memory \<Rightarrow> memory" where
  "cleared lo hi mem = (\<lambda>x. if lo \<le> x \<and> x < hi then 0 else mem x)"

lemma cleared_extend:
  assumes "unat a + 3 < 2 ^ 32"
  shows "cleared (unat a + 4) hi (store32 a 0 mem) = cleared (unat a) (max hi (unat a + 4)) mem"
proof
  fix x
  have "store32 a 0 mem x = (if unat a \<le> x \<and> x < unat a + 4 then 0 else mem x)"
  proof (cases "unat a \<le> x \<and> x < unat a + 4")
    case True
    then have "x \<in> {unat a, unat a + 1, unat a + 2, unat a + 3}" by auto
    then show ?thesis using True by (auto simp: store32_def store8_def unat_add_literals [OF assms])
  qed (use assms in \<open>auto simp: store32_outside\<close>)
  then show "cleared (unat a + 4) hi (store32 a 0 mem) x = cleared (unat a) (max hi (unat a + 4)) mem x"
    by (auto simp: cleared_def)
qed

lemma rep_stosd_clears:
  assumes "\<not> direction_flag s" and "unat (edi s) + 4 * n < 2 ^ 32" and "ecx s = of_nat n" and "eax s = 0"
  shows "rep_stosd s = s\<lparr>ecx := 0, edi := edi s + of_nat (4 * n), phys := cleared (unat (edi s)) (unat (edi s) + 4 * n) (phys s)\<rparr>"
  using assms
proof (induction n arbitrary: s)
  case 0
  have "cleared (unat (edi s)) (unat (edi s)) (phys s) = phys s" by (rule ext) (auto simp: cleared_def)
  then show ?case using 0 by (cases s) (subst rep_stosd.simps, simp)
next
  case (Suc n)
  let ?t = "s\<lparr>phys := store32 (edi s) 0 (phys s), edi := edi s + 4, ecx := of_nat n\<rparr>"
  have e: "unat (edi s + 4) = unat (edi s) + 4" using Suc.prems(2) unat_add_small [of "edi s" 4] by simp
  have "unat (ecx s) = Suc n" using Suc.prems(2) unfolding Suc.prems(3) unat_of_nat by (intro mod_less) simp
  then have "ecx s \<noteq> 0" by auto
  then have "rep_stosd s = rep_stosd ?t" using Suc.prems by (subst rep_stosd.simps) simp
  also have "\<dots> = ?t\<lparr>ecx := 0, edi := edi ?t + of_nat (4 * n), phys := cleared (unat (edi ?t)) (unat (edi ?t) + 4 * n) (phys ?t)\<rparr>"
    using Suc.prems e by (intro Suc.IH) simp_all
  finally show ?case
    using Suc.prems(2) cleared_extend [of "edi s" "unat (edi s) + 4 + 4 * n" "phys s"] by (simp add: e algebra_simps)
qed

lemma map_p3_table_exec:
  assumes "ecx s = 4" and "eax s = 0x83"
  shows "\<exists>r. map_p3_table s = s\<lparr>phys := store32 (edi s + 24) 0xC0000083 (store32 (edi s + 16) 0x80000083
    (store32 (edi s + 8) 0x40000083 (store32 (edi s) 0x83 (phys s)))), eax := r, edi := edi s + 32, ecx := 0\<rparr>"
  using assms
  by (subst map_p3_table.simps, subst map_p3_table.simps, subst map_p3_table.simps, subst map_p3_table.simps)
    (simp add: Let_def add.commute [of _ "edi s"], blast)

section \<open>Entry into long mode\<close>

text \<open>The link layout: the tables and the stack follow one another from a 4KB boundary, \<^verbatim>\<open>_bootinfo\<close> is elsewhere.\<close>

definition layout_ok :: "boot_layout \<Rightarrow> bool" where
  "layout_ok L \<longleftrightarrow> 4096 dvd unat (sym_p4_table L) \<and> unat (sym_p4_table L) + 24576 < 2 ^ 32 \<and>
     sym_p3_table L = sym_p4_table L + 4096 \<and> sym_stack_top L = sym_p4_table L + 24576 \<and>
     unat (sym_bootinfo L) + 8 < 2 ^ 32 \<and>
     (unat (sym_bootinfo L) + 8 \<le> unat (sym_p4_table L) \<or> unat (sym_p4_table L) + 24576 \<le> unat (sym_bootinfo L))"

text \<open>
  What the boot loader hands over: the magic number, and, though the protocol leaves both undefined, a clear direction flag and
  a stack pointer with room for a return address.
\<close>

definition loader_ok :: "boot_layout \<Rightarrow> boot_state \<Rightarrow> bool" where
  "loader_ok L s \<longleftrightarrow> eax s = 0x36d76289 \<and> \<not> direction_flag s \<and> 4 \<le> unat (esp s) \<and>
     (unat (esp s) \<le> unat (sym_bootinfo L) \<or> unat (sym_bootinfo L) + 12 \<le> unat (esp s))"

lemma unat_sub_small:
  assumes "k \<le> unat (a :: u32)"
  shows "unat (a - of_nat k) = unat a - k"
proof -
  have "unat a < 2 ^ 32" using unsigned_less [of a] by simp
  then have "k < 2 ^ 32" using assms by simp
  then have k: "unat (of_nat k :: u32) = k" unfolding unat_of_nat by (intro mod_less) simp
  then have "of_nat k \<le> a" using assms by (simp add: word_le_nat_alt)
  then show ?thesis using k unat_sub [of "of_nat k" a] by simp
qed

text \<open>The memory that \<^verbatim>\<open>start\<close> leaves.\<close>

definition tables_written :: "boot_layout \<Rightarrow> memory \<Rightarrow> memory" where
  "tables_written L mem = store32 (sym_p3_table L + 24) 0xC0000083 (store32 (sym_p3_table L + 16) 0x80000083
     (store32 (sym_p3_table L + 8) 0x40000083 (store32 (sym_p3_table L) 0x83
     (store32 (sym_p4_table L) (sym_p3_table L OR 3)
     (cleared (unat (sym_p4_table L)) (unat (sym_p4_table L) + 16384) mem)))))"

definition info_written :: "boot_layout \<Rightarrow> boot_state \<Rightarrow> memory" where
  "info_written L s = store32 (sym_bootinfo L + 4) 0 (store32 (sym_bootinfo L) (ebx s)
     (store32 (esp s - 4) (site_check L) (phys s)))"

definition start_memory :: "boot_layout \<Rightarrow> boot_state \<Rightarrow> memory" where
  "start_memory L s = store32 (sym_stack_top L - 4) (site_paging L)
     (tables_written L (store32 (sym_stack_top L - 4) (site_tables L) (info_written L s)))"

text \<open>The addresses of the layout as numbers.\<close>

lemma layout_addresses:
  assumes "layout_ok L"
  shows "unat (sym_p3_table L) = unat (sym_p4_table L) + 4096"
    "unat (sym_p3_table L + 8) = unat (sym_p4_table L) + 4104" "unat (sym_p3_table L + 16) = unat (sym_p4_table L) + 4112"
    "unat (sym_p3_table L + 24) = unat (sym_p4_table L) + 4120" "unat (sym_stack_top L - 4) = unat (sym_p4_table L) + 24572"
    "unat (sym_bootinfo L + 4) = unat (sym_bootinfo L) + 4"
proof -
  let ?p = "sym_p4_table L"
  have b: "unat ?p + 24576 < 2 ^ 32" "unat (sym_bootinfo L) + 8 < 2 ^ 32" using assms by (simp_all add: layout_ok_def)
  have e: "sym_p3_table L = ?p + of_nat 4096" "sym_p3_table L + 8 = ?p + of_nat 4104" "sym_p3_table L + 16 = ?p + of_nat 4112"
    "sym_p3_table L + 24 = ?p + of_nat 4120" "sym_stack_top L - 4 = ?p + of_nat 24572" "sym_bootinfo L + 4 = sym_bootinfo L + of_nat 4"
    using assms by (simp_all add: layout_ok_def)
  show "unat (sym_p3_table L) = unat ?p + 4096" unfolding e(1) using b(1) by (intro unat_add_small) simp
  show "unat (sym_p3_table L + 8) = unat ?p + 4104" unfolding e(2) using b(1) by (intro unat_add_small) simp
  show "unat (sym_p3_table L + 16) = unat ?p + 4112" unfolding e(3) using b(1) by (intro unat_add_small) simp
  show "unat (sym_p3_table L + 24) = unat ?p + 4120" unfolding e(4) using b(1) by (intro unat_add_small) simp
  show "unat (sym_stack_top L - 4) = unat ?p + 24572" unfolding e(5) using b(1) by (intro unat_add_small) simp
  show "unat (sym_bootinfo L + 4) = unat (sym_bootinfo L) + 4" unfolding e(6) using b(2) by (intro unat_add_small) simp
qed

lemma read_le_cleared_outside: "x + n \<le> lo \<or> hi \<le> x \<Longrightarrow> read_le (cleared lo hi mem) x n = read_le mem x n"
  by (rule read_le_cong) (auto simp: cleared_def)

lemma read_le_cleared_inside: "lo \<le> x \<Longrightarrow> x + n \<le> hi \<Longrightarrow> read_le (cleared lo hi mem) x n = 0"
  by (rule read_le_zero) (auto simp: cleared_def)

lemma tables_written_outside:
  assumes "layout_ok L" and "x + n \<le> unat (sym_p4_table L) \<or> unat (sym_p4_table L) + 16384 \<le> x"
  shows "read_le (tables_written L mem) x n = read_le mem x n"
proof -
  have b: "unat (sym_p4_table L) + 24576 < 2 ^ 32" using assms by (simp add: layout_ok_def)
  note addr = layout_addresses [OF assms(1)]
  show ?thesis
    unfolding tables_written_def using assms(2) b
    by (elim disjE) (simp_all add: read_le_store_other addr read_le_cleared_outside)
qed

lemma check_multiboot_exec:
  assumes "layout_ok L" and "loader_ok L s"
  shows "check_multiboot L (call (site_check L) s) = Inr (s\<lparr>phys := info_written L s\<rparr>)"
proof -
  note addr = layout_addresses [OF assms(1)]
  have b: "unat (sym_bootinfo L) + 8 < 2 ^ 32" using assms(1) by (simp add: layout_ok_def)
  have l: "eax s = 0x36d76289" "4 \<le> unat (esp s)"
    "unat (esp s) \<le> unat (sym_bootinfo L) \<or> unat (sym_bootinfo L) + 12 \<le> unat (esp s)"
    using assms(2) by (simp_all add: loader_ok_def)
  have sp: "unat (esp s - 4) = unat (esp s) - 4" using unat_sub_small [of 4 "esp s"] l(2) by simp
  have lt: "unat (esp s) < 2 ^ 32" using unsigned_less [of "esp s"] by simp
  have "load32 (esp s - 4) (info_written L s) = load32 (esp s - 4) (store32 (esp s - 4) (site_check L) (phys s))"
    unfolding info_written_def using l(2,3) b lt by (subst load32_store32_other, simp_all add: addr sp, arith)+
  also have "\<dots> = site_check L" using lt l(2) by (intro load32_store32) (simp add: sp)
  finally show ?thesis
    using l(1) by (simp add: check_multiboot_def call_def ret_def info_written_def Let_def)
qed

lemma set_up_page_tables_exec:
  assumes "layout_ok L" and "\<not> direction_flag s" and "esp s = sym_stack_top L"
  shows "\<exists>r. set_up_page_tables L (call (site_tables L) s) =
    Inr (s\<lparr>phys := tables_written L (store32 (sym_stack_top L - 4) (site_tables L) (phys s)), eax := r, edi := sym_p3_table L + 32, ecx := 0\<rparr>)"
proof -
  note addr = layout_addresses [OF assms(1)]
  have b: "unat (sym_p4_table L) + 24576 < 2 ^ 32" using assms(1) by (simp add: layout_ok_def)
  let ?m = "store32 (sym_stack_top L - 4) (site_tables L) (phys s)"
  let ?s = "s\<lparr>esp := sym_stack_top L - 4, phys := ?m\<rparr>"
  have "rep_stosd (?s\<lparr>edi := sym_p4_table L, ecx := 4096, eax := 0\<rparr>) = ?s\<lparr>eax := 0, ecx := 0, edi := sym_p4_table L + 16384,
      phys := cleared (unat (sym_p4_table L)) (unat (sym_p4_table L) + 16384) ?m\<rparr>"
    using rep_stosd_clears [of "?s\<lparr>edi := sym_p4_table L, ecx := 4096, eax := 0\<rparr>" 4096] assms(2) b by simp
  moreover obtain r where "map_p3_table (?s\<lparr>phys := store32 (sym_p4_table L) (sym_p3_table L OR 3)
      (cleared (unat (sym_p4_table L)) (unat (sym_p4_table L) + 16384) ?m), edi := sym_p3_table L, eax := 0x83, ecx := 4\<rparr>) = ?s\<lparr>phys := tables_written L ?m, eax := r, edi := sym_p3_table L + 32, ecx := 0\<rparr>"
    using map_p3_table_exec [of "?s\<lparr>phys := store32 (sym_p4_table L) (sym_p3_table L OR 3)
      (cleared (unat (sym_p4_table L)) (unat (sym_p4_table L) + 16384) ?m), edi := sym_p3_table L, eax := 0x83, ecx := 4\<rparr>"] by (auto simp: tables_written_def)
  moreover have "load32 (sym_stack_top L - 4) (tables_written L ?m) = site_tables L"
    using assms(1) b load32_store32 [of "sym_stack_top L - 4" "site_tables L" "phys s"]
    by (simp add: load32_def read_u32_def tables_written_outside addr)
  ultimately have "set_up_page_tables L (call (site_tables L) s) =
      Inr (s\<lparr>phys := tables_written L ?m, eax := r, edi := sym_p3_table L + 32, ecx := 0\<rparr>)"
    using assms(3) by (simp add: set_up_page_tables_def call_def ret_def Let_def)
  then show ?thesis ..
qed

lemma halves_or:
  fixes w :: u32 and w' e :: u64
  assumes w: "\<And>n. bit w n = (n = 8)" "\<And>n. bit w' n = (n = 8)"
  shows "push_bit 32 (ucast (ucast (drop_bit 32 e) :: u32)) OR ucast (ucast e OR w) = e OR w'"
proof (rule bit_word_eqI)
  fix n assume n: "n < LENGTH(64)"
  have "bit (ucast (ucast (drop_bit 32 e) :: u32) :: u64) (n - 32) = (n - 32 < 32 \<and> bit e (32 + (n - 32)))"
    by (auto simp: bit_unsigned_iff bit_drop_bit_eq)
  moreover have "bit (ucast (ucast e OR w) :: u64) n = (n < 32 \<and> (bit e n \<or> n = 8))"
    by (auto simp: bit_unsigned_iff bit_or_iff w)
  ultimately show "bit (push_bit 32 (ucast (ucast (drop_bit 32 e) :: u32)) OR ucast (ucast e OR w) :: u64) n = bit (e OR w') n"
    using n by (auto simp: bit_push_bit_iff bit_or_iff w)
qed

lemma efer_halves:
  "push_bit 32 (ucast (ucast (drop_bit 32 e) :: u32)) OR ucast (ucast e OR push_bit 8 (1 :: u32)) = e OR push_bit 8 (1 :: u64)"
  for e :: u64
proof -
  have "bit (push_bit 8 (1 :: u32)) n = (n = 8)" "bit (push_bit 8 (1 :: u64)) n = (n = 8)" for n
    unfolding push_bit_of_1 bit_exp_iff by auto
  then show ?thesis by (rule halves_or)
qed

lemma enable_paging_exec:
  assumes "layout_ok L" and "esp s = sym_stack_top L"
  shows "\<exists>a c d. enable_paging L (call (site_paging L) s) = Inr (s\<lparr>phys := store32 (sym_stack_top L - 4) (site_paging L) (phys s),
    eax := a, ecx := c, edx := d, cr3 := sym_p4_table L, cr4 := cr4 s OR push_bit 5 1, efer := efer s OR push_bit 8 1,
    cr0 := cr0 s OR push_bit 31 1\<rparr>)"
proof -
  have "load32 (sym_stack_top L - 4) (store32 (sym_stack_top L - 4) (site_paging L) (phys s)) = site_paging L"
    using assms(1) layout_addresses [OF assms(1)] by (intro load32_store32) (simp add: layout_ok_def)
  then have "enable_paging L (call (site_paging L) s) = Inr (s\<lparr>phys := store32 (sym_stack_top L - 4) (site_paging L) (phys s),
    eax := cr0 s OR push_bit 31 1, ecx := 0xC0000080, edx := ucast (drop_bit 32 (efer s)), cr3 := sym_p4_table L,
    cr4 := cr4 s OR push_bit 5 1, efer := efer s OR push_bit 8 1, cr0 := cr0 s OR push_bit 31 1\<rparr>)"
    using assms(2) unfolding enable_paging_def call_def ret_def Let_def by (simp add: efer_halves del: push_bit_of_1)
  then show ?thesis by blast
qed

lemma start_exec:
  assumes "layout_ok L" and "loader_ok L s"
  shows "\<exists>t. start L s = Inr t \<and> phys t = start_memory L s \<and> cr3 t = sym_p4_table L \<and> cr4 t = cr4 s OR push_bit 5 1 \<and>
    efer t = efer s OR push_bit 8 1 \<and> cr0 t = cr0 s OR push_bit 31 1 \<and> gdtr t = (15, sym_gdt64 L) \<and> cs t = 8 \<and>
    data_segments t = 0 \<and> rsp t = ucast (sym_stack_top L) - 8"
proof -
  let ?s1 = "s\<lparr>phys := info_written L s, esp := sym_stack_top L\<rparr>"
  have "\<not> direction_flag s" using assms(2) by (simp add: loader_ok_def)
  with set_up_page_tables_exec [OF assms(1), of ?s1] obtain r where
    2: "set_up_page_tables L (call (site_tables L) ?s1) = Inr (?s1\<lparr>phys := tables_written L (store32 (sym_stack_top L - 4) (site_tables L) (info_written L s)),
      eax := r, edi := sym_p3_table L + 32, ecx := 0\<rparr>)" (is "_ = Inr ?s2") by auto
  have "esp ?s2 = sym_stack_top L" by simp
  from enable_paging_exec [OF assms(1) this] obtain t where 3: "enable_paging L (call (site_paging L) ?s2) = Inr t"
    "phys t = start_memory L s" "cr3 t = sym_p4_table L" "cr4 t = cr4 s OR push_bit 5 1" "efer t = efer s OR push_bit 8 1"
    "cr0 t = cr0 s OR push_bit 31 1" by (auto simp: start_memory_def)
  have "start L s = Inr (long_mode_start L (t\<lparr>gdtr := (gdt64_limit, sym_gdt64 L), cs := gdt64_code\<rparr>))"
    unfolding start_def check_multiboot_exec [OF assms] using 2 3(1) by simp
  then show ?thesis using 3 by (simp add: long_mode_start_def gdt64_limit_def gdt64_def gdt64_code_def Let_def)
qed

section \<open>The page tables\<close>

lemma unat_or_3:
  assumes "4 dvd unat (p :: u32)"
  shows "unat (p OR 3) = unat p + 3"
proof -
  obtain k where k: "unat p = 4 * k" using assms by (elim dvdE)
  have three: "bit (3 :: u32) n \<longleftrightarrow> n < 2" for n
  proof -
    have "(3 :: u32) = mask 2" by (simp add: mask_eq_exp_minus_1)
    then show ?thesis by (simp only: bit_mask_iff) auto
  qed
  have low: "\<not> bit p n" if "n < 2" for n
  proof -
    have "\<not> bit (unat p) n" using that unfolding k bit_iff_odd by (auto simp: less_2_cases_iff)
    then show ?thesis using that by (simp add: bit_unsigned_iff)
  qed
  have "p + 3 = p OR 3" using three low by (intro disjunctive_add) blast
  moreover have "unat p < 2 ^ 32" using unsigned_less [of p] by simp
  then have "unat p + 3 < 2 ^ 32" using k by simp
  then have "unat (p + 3) = unat p + 3" by (rule unat_add_literals)
  ultimately show ?thesis by simp
qed

lemma read_le_8: "read_le mem x 8 = read_le mem x 4 + 2 ^ 32 * read_le mem (x + 4) 4"
  using read_le_add [of mem x 4 4] by simp

lemma p4_entries:
  assumes "layout_ok L" and "P = unat (sym_p4_table L)"
  shows "read_le (tables_written L mem) P 8 = P + 4096 + 3"
    and "0 < i \<Longrightarrow> i < 512 \<Longrightarrow> read_le (tables_written L mem) (P + 8 * i) 8 = 0"
proof -
  note addr = layout_addresses [OF assms(1), folded assms(2)]
  have b: "P + 24576 < 2 ^ 32" "4096 dvd P" using assms by (simp_all add: layout_ok_def)
  then have "4 dvd unat (sym_p3_table L)" unfolding addr by (auto elim!: dvdE)
  then have e: "unat (sym_p3_table L OR 3) = P + 4096 + 3" by (simp only: unat_or_3 addr)
  have "read_le (store32 (sym_p4_table L) (sym_p3_table L OR 3) m) P 4 = P + 4096 + 3" for m
    using read_le_store_same [of "sym_p4_table L" "sym_p3_table L OR 3" m] b(1) e assms(2) by simp
  then show "read_le (tables_written L mem) P 8 = P + 4096 + 3"
    using b(1) assms(2) unfolding tables_written_def read_le_8
    by (simp add: read_le_store_other addr read_le_cleared_inside)
  show "read_le (tables_written L mem) (P + 8 * i) 8 = 0" if "0 < i" "i < 512"
    using that b(1) assms(2) unfolding tables_written_def
    by (simp add: read_le_store_other addr read_le_cleared_inside)
qed

lemma p3_entries:
  assumes "layout_ok L" and "P = unat (sym_p4_table L)"
  shows "i < 4 \<Longrightarrow> read_le (tables_written L mem) (P + 4096 + 8 * i) 8 = i * 2 ^ 30 + 0x83"
    and "4 \<le> i \<Longrightarrow> i < 512 \<Longrightarrow> read_le (tables_written L mem) (P + 4096 + 8 * i) 8 = 0"
proof -
  note addr = layout_addresses [OF assms(1), folded assms(2)]
  have b: "P + 24576 < 2 ^ 32" using assms by (simp add: layout_ok_def)
  have same: "read_le (store32 (sym_p3_table L) v m) (P + 4096) 4 = unat v" "read_le (store32 (sym_p3_table L + 8) v m) (P + 4104) 4 = unat v"
    "read_le (store32 (sym_p3_table L + 16) v m) (P + 4112) 4 = unat v" "read_le (store32 (sym_p3_table L + 24) v m) (P + 4120) 4 = unat v"
    for v m
    using b read_le_store_same [of "sym_p3_table L" v m] read_le_store_same [of "sym_p3_table L + 8" v m]
      read_le_store_same [of "sym_p3_table L + 16" v m] read_le_store_same [of "sym_p3_table L + 24" v m] unfolding addr by simp_all
  show "read_le (tables_written L mem) (P + 4096 + 8 * i) 8 = i * 2 ^ 30 + 0x83" if "i < 4"
  proof -
    have "i \<in> {0, 1, 2, 3}" using that by auto
    then show ?thesis
      using b unfolding tables_written_def read_le_8
      by (elim insertE emptyE) (simp_all add: read_le_store_other addr read_le_cleared_inside assms(2) [symmetric] same add.commute [of _ P])
  qed
  show "read_le (tables_written L mem) (P + 4096 + 8 * i) 8 = 0" if "4 \<le> i" "i < 512"
    using that b assms(2) unfolding tables_written_def
    by (simp add: read_le_store_other addr read_le_cleared_inside)
qed

lemma unat_read_u64: "unat (read_u64 mem a) = read_le mem a 8"
  unfolding read_u64_def unat_of_nat using read_le_bound [of mem a 8] by (intro mod_less) simp

lemma walk_top:
  "walk mem 4 table v = (let e = read_le mem (table + 8 * (v div 2 ^ 39 mod 512)) 8 in
     if e mod 2 = 0 then None else walk mem 3 (e div 2 ^ 12 mod 2 ^ 40 * 2 ^ 12) v)"
  "walk mem 3 table v = (let e = read_le mem (table + 8 * (v div 2 ^ 30 mod 512)) 8 in
     if e mod 2 = 0 then None
     else if e div 2 ^ 7 mod 2 = 1 then Some (e div 2 ^ 30 mod 2 ^ 22 * 2 ^ 30 + v mod 2 ^ 30)
     else walk mem 2 (e div 2 ^ 12 mod 2 ^ 40 * 2 ^ 12) v)"
proof -
  have n: "4 = Suc 3" "3 = Suc 2" by simp_all
  show "walk mem 4 table v = (let e = read_le mem (table + 8 * (v div 2 ^ 39 mod 512)) 8 in
     if e mod 2 = 0 then None else walk mem 3 (e div 2 ^ 12 mod 2 ^ 40 * 2 ^ 12) v)"
    by (subst n(1), subst walk.simps) (simp add: unat_read_u64 Let_def)
  show "walk mem 3 table v = (let e = read_le mem (table + 8 * (v div 2 ^ 30 mod 512)) 8 in
     if e mod 2 = 0 then None
     else if e div 2 ^ 7 mod 2 = 1 then Some (e div 2 ^ 30 mod 2 ^ 22 * 2 ^ 30 + v mod 2 ^ 30)
     else walk mem 2 (e div 2 ^ 12 mod 2 ^ 40 * 2 ^ 12) v)"
    by (subst n(2), subst walk.simps) (simp add: unat_read_u64 Let_def)
qed

lemma translate_tables:
  assumes "layout_ok L" and "\<And>x. x + 8 \<le> unat (sym_p4_table L) + 8192 \<Longrightarrow> read_le F x 8 = read_le (tables_written L m) x 8"
  shows "v < 2 ^ 32 \<Longrightarrow> translate F (sym_p4_table L) v = Some v"
    and "2 ^ 32 \<le> v \<Longrightarrow> v < 2 ^ 48 \<Longrightarrow> translate F (sym_p4_table L) v = None"
proof -
  define P where P: "P = unat (sym_p4_table L)"
  have b: "P + 24576 < 2 ^ 32" "4096 dvd P" using assms(1) by (simp_all add: layout_ok_def P)
  then obtain k where k: "P = 4096 * k" by (elim dvdE)
  then have kb: "Suc k < 2 ^ 40" using b(1) by simp
  note p4 = p4_entries [OF assms(1) P, where mem = m] and p3 = p3_entries [OF assms(1) P, where mem = m]
  have r: "read_le F (P + 8 * i) 8 = read_le (tables_written L m) (P + 8 * i) 8"
    "read_le F (P + 4096 + 8 * i) 8 = read_le (tables_written L m) (P + 4096 + 8 * i) 8" if "i < 512" for i
    using that assms(2) by (auto simp: P)
  have top: "translate F (sym_p4_table L) v = walk F 3 (P + 4096) v" if "v div 2 ^ 39 = 0" for v
  proof -
    have "odd (P + 4096 + 3)" "(P + 4096 + 3) div 4096 = Suc k" by (simp_all add: k)
    then have "(P + 4096 + 3) mod 2 = 1" "(P + 4096 + 3) div 4096 = Suc k" by (simp_all only: odd_iff_mod_2_eq_one)
    then show ?thesis
      using that k kb r(1) [of 0] p4(1) by (simp add: translate_def P [symmetric] walk_top(1) Let_def algebra_simps)
  qed
  show "translate F (sym_p4_table L) v = Some v" if v: "v < 2 ^ 32"
  proof -
    define i where "i = v div 2 ^ 30"
    have i: "i < 4" using v unfolding i_def by (intro less_mult_imp_div_less) simp
    have e: "(i * 2 ^ 30 + 0x83) mod 2 = 1" "(i * 2 ^ 30 + 0x83) div 2 ^ 7 mod 2 = 1" "(i * 2 ^ 30 + 0x83) div 2 ^ 30 mod 2 ^ 22 = i"
    proof -
      have "i \<in> {0, 1, 2, 3}" using i by auto
      then show "(i * 2 ^ 30 + 0x83) mod 2 = 1" "(i * 2 ^ 30 + 0x83) div 2 ^ 7 mod 2 = 1" "(i * 2 ^ 30 + 0x83) div 2 ^ 30 mod 2 ^ 22 = i"
        by auto
    qed
    have "v div 2 ^ 30 mod 512 = i" using i unfolding i_def by simp
    then have ent: "read_le F (P + 4096 + 8 * (v div 2 ^ 30 mod 512)) 8 = i * 2 ^ 30 + 0x83" using i r(2) [of i] p3(1) [OF i] by simp
    have "v div 2 ^ 39 = 0" using v by simp
    then have "translate F (sym_p4_table L) v = walk F 3 (P + 4096) v" by (rule top)
    also have "\<dots> = Some (i * 2 ^ 30 + v mod 2 ^ 30)" unfolding walk_top(2) Let_def ent by (simp only: e) simp
    also have "i * 2 ^ 30 + v mod 2 ^ 30 = v" unfolding i_def by (rule div_mult_mod_eq)
    finally show ?thesis .
  qed
  show "translate F (sym_p4_table L) v = None" if v: "2 ^ 32 \<le> v" "v < 2 ^ 48"
  proof (cases "v div 2 ^ 39 = 0")
    case True
    have "4 \<le> v div 2 ^ 30" using v(1) by (simp add: less_eq_div_iff_mult_less_eq)
    moreover have "v < 2 ^ 39" using True by (simp add: div_eq_0_iff)
    then have "v div 2 ^ 30 < 512" by (intro less_mult_imp_div_less) simp
    ultimately show ?thesis using top [OF True] r(2) p3(2) by (simp add: walk_top(2) Let_def)
  next
    case False
    have "v div 2 ^ 39 < 512" using v(2) by (intro less_mult_imp_div_less) simp
    moreover have "P div 2 ^ 12 * 2 ^ 12 = P" by (simp add: k)
    ultimately show ?thesis using False r(1) p4(2) unfolding translate_def P [symmetric] by (simp add: walk_top(1) Let_def)
  qed
qed

section \<open>Properties\<close>

lemma start_memory_tables:
  assumes "layout_ok L" and "x + n \<le> unat (sym_p4_table L) + 16384"
  shows "read_le (start_memory L s) x n = read_le (tables_written L (store32 (sym_stack_top L - 4) (site_tables L) (info_written L s))) x n"
  unfolding start_memory_def using assms layout_addresses(5) [OF assms(1)]
  by (intro read_le_store_other) (simp_all add: layout_ok_def)

lemma start_memory_bootinfo:
  assumes "layout_ok L"
  shows "read_le (start_memory L s) (unat (sym_bootinfo L)) 8 = unat (ebx s)"
proof -
  note addr = layout_addresses [OF assms]
  let ?B = "unat (sym_bootinfo L)" and ?P = "unat (sym_p4_table L)"
  have b: "?P + 24576 < 2 ^ 32" "?B + 8 < 2 ^ 32" "?B + 8 \<le> ?P \<or> ?P + 24576 \<le> ?B" using assms by (simp_all add: layout_ok_def)
  have "read_le (start_memory L s) ?B 8 = read_le (info_written L s) ?B 8"
    unfolding start_memory_def using b assms
    by (elim disjE) (simp_all add: read_le_store_other tables_written_outside addr)
  also have "\<dots> = read_le (store32 (sym_bootinfo L) (ebx s) (store32 (esp s - 4) (site_check L) (phys s))) ?B 4"
    using b(2) read_le_store_same [of "sym_bootinfo L + 4" 0] unfolding info_written_def read_le_8
    by (simp add: read_le_store_other addr)
  also have "\<dots> = unat (ebx s)" using b(2) by (intro read_le_store_same) simp
  finally show ?thesis .
qed

lemma start_memory_frame:
  assumes "layout_ok L" and "4 \<le> unat (esp s)"
    and "x < unat (sym_p4_table L) \<or> unat (sym_p4_table L) + 24576 \<le> x"
    and "x < unat (sym_bootinfo L) \<or> unat (sym_bootinfo L) + 8 \<le> x" and "x < unat (esp s) - 4 \<or> unat (esp s) \<le> x"
  shows "start_memory L s x = phys s x"
proof -
  note addr = layout_addresses [OF assms(1)]
  have b: "unat (sym_p4_table L) + 24576 < 2 ^ 32" "unat (sym_bootinfo L) + 8 < 2 ^ 32" using assms(1) by (simp_all add: layout_ok_def)
  have sp: "unat (esp s - 4) = unat (esp s) - 4" using unat_sub_small [of 4 "esp s"] assms(2) by simp
  have lt: "unat (esp s) < 2 ^ 32" using unsigned_less [of "esp s"] by simp
  have "store32 (esp s - 4) (site_check L) (phys s) x = phys s x"
    using assms(2,5) lt by (intro store32_outside) (auto simp: sp)
  then have "info_written L s x = phys s x"
    unfolding info_written_def using b(2) assms(4) by (elim disjE) (simp_all add: store32_outside addr)
  moreover have "start_memory L s x = cleared (unat (sym_p4_table L)) (unat (sym_p4_table L) + 16384) (info_written L s) x"
    unfolding start_memory_def tables_written_def using assms(3) b(1)
    by (elim disjE) (simp_all add: store32_outside addr cleared_def)
  ultimately show ?thesis using assms(3) by (auto simp: cleared_def)
qed

lemma stack_top_address:
  assumes "layout_ok L"
  shows "unat (sym_stack_top L) = unat (sym_p4_table L) + 24576"
proof -
  have b: "unat (sym_p4_table L) + 24576 < 2 ^ 32" "sym_stack_top L = sym_p4_table L + of_nat 24576"
    using assms by (simp_all add: layout_ok_def)
  show ?thesis unfolding b(2) using b(1) by (rule unat_add_small)
qed

lemma start_translates:
  assumes "layout_ok L" and "loader_ok L s" and "start L s = Inr t"
  shows "\<forall>v < 2 ^ 32. translate (phys t) (cr3 t) v = Some v" and "\<forall>v. 2 ^ 32 \<le> v \<and> v < 2 ^ 48 \<longrightarrow> translate (phys t) (cr3 t) v = None"
proof -
  have t: "phys t = start_memory L s" "cr3 t = sym_p4_table L" using start_exec [OF assms(1,2)] assms(3) by auto
  have tr: "read_le (phys t) x 8 = read_le (tables_written L (store32 (sym_stack_top L - 4) (site_tables L) (info_written L s))) x 8"
    if "x + 8 \<le> unat (sym_p4_table L) + 8192" for x using that assms(1) unfolding t(1) by (intro start_memory_tables) simp_all
  show "\<forall>v < 2 ^ 32. translate (phys t) (cr3 t) v = Some v" "\<forall>v. 2 ^ 32 \<le> v \<and> v < 2 ^ 48 \<longrightarrow> translate (phys t) (cr3 t) v = None"
    using translate_tables [OF assms(1) tr] unfolding t(2) by blast+
qed

text \<open>
  C11: started by a Multiboot2 loader, the assembly reaches \<^verbatim>\<open>rust_main\<close> in long mode: paging, PAE and long mode are enabled,
  the code segment is the 64-bit one, the stack is aligned as a callee expects, \<^verbatim>\<open>_bootinfo\<close> holds the loader's pointer, every address
  below 4GB is mapped to itself and no other canonical lower-half address is mapped. Memory outside the tables, the boot stack,
  \<^verbatim>\<open>_bootinfo\<close> and four bytes of the loader's stack is untouched, so the boot information survives.
\<close>

theorem start_enters_long_mode:
  assumes "layout_ok L" and "loader_ok L s"
  shows "\<exists>t. start L s = Inr t \<and> bit (cr0 t) 31 \<and> bit (cr4 t) 5 \<and> bit (efer t) 8 \<and> cs t = 8 \<and> gdtr t = (15, sym_gdt64 L) \<and>
    unat (rsp t) = unat (sym_stack_top L) - 8 \<and> 16 dvd unat (sym_stack_top L) \<and>
    unat (read_u64 (phys t) (unat (sym_bootinfo L))) = unat (ebx s) \<and>
    (\<forall>v < 2 ^ 32. translate (phys t) (cr3 t) v = Some v) \<and> (\<forall>v. 2 ^ 32 \<le> v \<and> v < 2 ^ 48 \<longrightarrow> translate (phys t) (cr3 t) v = None) \<and>
    (\<forall>x. (x < unat (sym_p4_table L) \<or> unat (sym_stack_top L) \<le> x) \<and> (x < unat (sym_bootinfo L) \<or> unat (sym_bootinfo L) + 8 \<le> x) \<and>
       (x < unat (esp s) - 4 \<or> unat (esp s) \<le> x) \<longrightarrow> phys t x = phys s x)"
proof -
  from start_exec [OF assms] obtain t where t: "start L s = Inr t" "phys t = start_memory L s" "cr3 t = sym_p4_table L"
    "cr4 t = cr4 s OR push_bit 5 1" "efer t = efer s OR push_bit 8 1" "cr0 t = cr0 s OR push_bit 31 1" "gdtr t = (15, sym_gdt64 L)"
    "cs t = 8" "rsp t = ucast (sym_stack_top L) - 8" by blast
  have bits: "bit (cr0 t) 31" "bit (cr4 t) 5" "bit (efer t) 8" unfolding t(4-6) push_bit_of_1 by (simp_all add: bit_or_iff bit_exp_iff)
  let ?P = "unat (sym_p4_table L)"
  have b: "?P + 24576 < 2 ^ 32" "4096 dvd ?P" using assms(1) by (simp_all add: layout_ok_def)
  note top = stack_top_address [OF assms(1)]
  have "unat (ucast (sym_stack_top L) :: u64) = unat (sym_stack_top L)" using top b(1) by (simp only: unat_ucast_mod) simp
  moreover have "(8 :: u64) \<le> ucast (sym_stack_top L)" using calculation top by (simp add: word_le_nat_alt)
  ultimately have rsp: "unat (rsp t) = unat (sym_stack_top L) - 8" unfolding t(9) by (simp add: unat_sub)
  have al: "16 dvd unat (sym_stack_top L)" unfolding top using b(2) by (auto elim!: dvdE)
  have "4 \<le> unat (esp s)" using assms(2) by (simp add: loader_ok_def)
  then have fr: "\<forall>x. (x < ?P \<or> unat (sym_stack_top L) \<le> x) \<and> (x < unat (sym_bootinfo L) \<or> unat (sym_bootinfo L) + 8 \<le> x) \<and>
       (x < unat (esp s) - 4 \<or> unat (esp s) \<le> x) \<longrightarrow> phys t x = phys s x"
    using start_memory_frame [OF assms(1)] unfolding t(2) top by blast
  note map = start_translates [OF assms t(1)]
  have "unat (read_u64 (phys t) (unat (sym_bootinfo L))) = unat (ebx s)" unfolding unat_read_u64 t(2) by (rule start_memory_bootinfo [OF assms(1)])
  with t(1,7,8) bits rsp al fr map show ?thesis by (intro exI [of _ t] conjI)
qed

text \<open>A layout and a loader's state.\<close>

definition sample_layout :: boot_layout where
  "sample_layout = \<lparr>sym_bootinfo = 0x103000, sym_p4_table = 0x104000, sym_p3_table = 0x105000, sym_stack_top = 0x10A000,
     sym_gdt64 = 0x101000, site_check = 0x102025, site_tables = 0x10202F, site_paging = 0x102034\<rparr>"

definition sample_loader :: boot_state where
  "sample_loader = \<lparr>eax = 0x36d76289, ebx = 0x10000, ecx = 0, edx = 0, edi = 0, esp = 0x7000, direction_flag = False, cr0 = 0x11, cr3 = 0,
     cr4 = 0, efer = 0, gdtr = (0, 0), cs = 0x10, data_segments = 0x18, rsp = 0, phys = (\<lambda>_. 0)\<rparr>"

theorem start_enters_long_mode_witness:
  "\<exists>t. start sample_layout sample_loader = Inr t \<and> translate (phys t) (cr3 t) 0xFEE00000 = Some 0xFEE00000 \<and>
     translate (phys t) (cr3 t) 0x100000000 = None"
proof -
  have "layout_ok sample_layout" "loader_ok sample_layout sample_loader"
    by (simp_all add: layout_ok_def loader_ok_def sample_layout_def sample_loader_def)
  from start_enters_long_mode [OF this] show ?thesis by auto
qed

text \<open>
  C27: entered without the Multiboot2 magic number the assembly touches nothing but its return address and the screen, where
  it leaves the text ERR: M, and halts.
\<close>

theorem start_rejects_other_loaders:
  assumes "eax s \<noteq> 0x36d76289" and "4 \<le> unat (esp s)"
  shows "\<exists>t. start L s = Inl (Halted t) \<and> map (\<lambda>i. phys t (0xb8000 + 2 * i)) [0..<6] = map of_char ''ERR: M'' \<and>
    (\<forall>x. (x < 0xb8000 \<or> 0xb800c \<le> x) \<and> (x < unat (esp s) - 4 \<or> unat (esp s) \<le> x) \<longrightarrow> phys t x = phys s x) \<and> cr0 t = cr0 s"
proof -
  let ?s = "call (site_check L) s"
  let ?t = "error_routine (?s\<lparr>eax := (eax ?s AND NOT 0xff) OR 0x4d\<rparr>)"
  have st: "start L s = Inl (Halted ?t)" using assms(1) by (simp add: start_def check_multiboot_def call_def)
  have al: "ucast ((w AND NOT 0xff) OR 0x4d) = (0x4d :: u8)" for w :: u32
  proof (rule bit_word_eqI)
    fix n assume "n < LENGTH(8)"
    moreover have "(0xff :: u32) = mask 8" by (simp add: mask_eq_exp_minus_1)
    then have "bit (0xff :: u32) n" using \<open>n < LENGTH(8)\<close> by (simp only: bit_mask_iff) auto
    then have "\<not> bit (NOT 0xff :: u32) n" by (simp only: bit_not_iff not_True_eq_False simp_thms)
    moreover have "bit (0x4d :: u32) n = bit (0x4d :: u8) n"
    proof -
      have "(0x4d :: u8) = ucast (0x4d :: u32)" by simp
      then show ?thesis using \<open>n < LENGTH(8)\<close> by (simp only: bit_unsigned_iff) simp
    qed
    ultimately show "bit (ucast ((w AND NOT 0xff) OR 0x4d) :: u8) n = bit (0x4d :: u8) n"
      by (auto simp: bit_unsigned_iff bit_or_iff bit_and_iff)
  qed
  have al': "ucast (w AND - 256 OR 77) = (77 :: u8)" for w :: u32 using al [of w] by simp
  have sp: "unat (esp s - 4) = unat (esp s) - 4" using unat_sub_small [of 4 "esp s"] assms(2) by simp
  have lt: "unat (esp s) < 2 ^ 32" using unsigned_less [of "esp s"] by simp
  have screen: "map (\<lambda>i. phys ?t (0xb8000 + 2 * i)) [0..<6] = map of_char ''ERR: M''"
    by (simp add: error_routine_def store32_def store8_def al' upt_rec Let_def)
  have "phys ?t x = phys s x" if "x < 0xb8000 \<or> 0xb800c \<le> x" "x < unat (esp s) - 4 \<or> unat (esp s) \<le> x" for x
  proof -
    have "store32 (esp s - 4) (site_check L) (phys s) x = phys s x"
      using assms(2) that(2) lt by (intro store32_outside) (auto simp: sp)
    then show ?thesis using that(1) by (auto simp: error_routine_def call_def store32_outside store8_def Let_def)
  qed
  moreover have "cr0 ?t = cr0 s" by (simp add: error_routine_def call_def Let_def)
  ultimately show ?thesis using st screen by blast
qed

theorem start_rejects_other_loaders_witness:
  "\<exists>t. start sample_layout (sample_loader\<lparr>eax := 0x2BADB002\<rparr>) = Inl (Halted t) \<and> phys t 0xb800a = 0x4d"
proof -
  have s: "eax (sample_loader\<lparr>eax := 0x2BADB002\<rparr>) \<noteq> 0x36d76289" "4 \<le> unat (esp (sample_loader\<lparr>eax := 0x2BADB002\<rparr>))"
    by (simp_all add: sample_loader_def)
  from start_rejects_other_loaders [OF this, of sample_layout] show ?thesis by (auto simp: upt_rec)
qed

text \<open>The Multiboot2 header: the length field is the header's size and the four header words add up to zero.\<close>

lemma multiboot_header_valid:
  "sum_list (take 4 multiboot_header) = 0 \<and> 4 * length multiboot_header = unat (multiboot_header ! 2)"
  by (simp add: multiboot_header_def)

end
