(* ===== verification/High_Memory.thy ===== *)
theory High_Memory
  imports Samples Boot
begin

text \<open>
  The boot page tables and the page allocator together. The tables of \<^verbatim>\<open>boot.asm\<close> map the first 4GB, the allocator manages all memory of
  the memory map, and its lists start at the highest frame.
\<close>

lemma free2_front_highest:
  assumes "h \<in> set (free2 (boot_frames n rs))"
  shows "\<exists>k hs. free2 (boot_frames n rs) = k # hs \<and> h \<le> k"
proof -
  let ?xs = "filter (\<lambda>p. area_state rs p = Free2MB) [0..<n]"
  have f: "free2 (boot_frames n rs) = rev ?xs" by (simp add: boot_frames_def)
  have "sorted ?xs" by (intro sorted_wrt_filter) simp
  moreover obtain k ys where "rev ?xs = k # ys" using assms unfolding f by (cases "rev ?xs") auto
  ultimately show ?thesis using assms unfolding f by (auto simp: rev_eq_Cons_iff sorted_append)
qed

lemma superpage_free:
  assumes "m \<in> set areas" and "area_typ m = 1" and "unat (base_addr m) \<le> x" and "x + PAGE_SIZE_2MB \<le> area_end m" and "PAGE_SIZE_2MB dvd x"
    and "first_frame end_sym meta_size areas * PAGE_SIZE_4KB \<le> x" and "area_end m div PAGE_SIZE_4KB \<le> total_pages areas"
  shows "x div PAGE_SIZE_4KB \<in> set (free2 (start_frames end_sym meta_size areas))"
proof -
  let ?k = "first_frame end_sym meta_size areas" and ?n = "total_pages areas" and ?h = "x div PAGE_SIZE_4KB"
  from assms(5) obtain j where j: "x = PAGE_SIZE_2MB * j" by (elim dvdE)
  then have h: "?h = PAGES_PER_2MB * j" by (simp add: page_consts)
  have "unat (base_addr m) div PAGE_SIZE_4KB \<le> ?h" using assms(3) by (rule div_le_mono)
  moreover have "?k \<le> ?h" using assms(6) by (simp add: page_consts less_eq_div_iff_mult_less_eq)
  moreover have "?h + PAGES_PER_2MB = (x + PAGE_SIZE_2MB) div PAGE_SIZE_4KB" by (simp add: page_consts)
  then have "?h + PAGES_PER_2MB \<le> area_end m div PAGE_SIZE_4KB" using assms(4) by (simp add: div_le_mono)
  ultimately have "whole (ranges_of ?k ?n areas) ?h"
    unfolding whole_def using assms(1,2,7) h by (auto simp: ranges_of_def range_of_def area_end_def intro!: bexI [of _ m])
  moreover have "?h < ?n" using calculation \<open>?h + PAGES_PER_2MB \<le> area_end m div PAGE_SIZE_4KB\<close> assms(7) by (simp add: page_consts)
  ultimately show ?thesis by (simp add: start_frames_def boot_frames_def area_state_Free2MB)
qed

lemma area_end_top: "m \<in> set areas \<Longrightarrow> area_typ m = 1 \<Longrightarrow> area_end m \<le> top_of areas"
proof -
  have "x \<le> fold max xs y" if "x \<in> set xs \<or> x \<le> y" for x y :: nat and xs
    using that by (induction xs arbitrary: y) (auto simp: le_max_iff_disj)
  then show "m \<in> set areas \<Longrightarrow> area_typ m = 1 \<Longrightarrow> area_end m \<le> top_of areas" unfolding top_of_def by auto
qed

lemma area_end_pages:
  assumes "m \<in> set areas" and "area_typ m = 1"
  shows "area_end m div PAGE_SIZE_4KB \<le> total_pages areas"
proof -
  have "area_end m div PAGE_SIZE_4KB \<le> top_of areas div PAGE_SIZE_4KB" using area_end_top [OF assms] by (rule div_le_mono)
  also have "\<dots> \<le> ((top_of areas + (PAGE_SIZE_2MB - 1)) div PAGE_SIZE_2MB * PAGE_SIZE_2MB) div PAGE_SIZE_4KB"
    by (intro div_le_mono) (simp add: page_consts)
  also have "\<dots> = total_pages areas" by (simp add: total_pages_def page_consts)
  finally show ?thesis .
qed

text \<open>
  C39: on a machine with a free superpage at or above 4GB, the first 2MB page the booted kernel obtains lies at or above 4GB, where the
  tables built at boot map nothing: using it faults.
\<close>

theorem first_superpage_unmapped:
  assumes "layout_ok L" and "loader_ok L b" and "start L b = Inr t"
    and "boot_ok end_sym meta_size mem mem' addr areas" and "free_kb (start_frames end_sym meta_size areas) < 2 ^ 31"
    and "m \<in> set areas" and "area_typ m = 1" and "unat (base_addr m) \<le> x" and "x + PAGE_SIZE_2MB \<le> area_end m" and "PAGE_SIZE_2MB dvd x"
    and "first_frame end_sym meta_size areas * PAGE_SIZE_4KB \<le> x" and "2 ^ 32 \<le> x" and "total_pages areas * PAGE_SIZE_4KB \<le> 2 ^ 48"
  shows "\<exists>log s a u. memory_init end_sym meta_size raw mem mem' addr (new_allocator fl) = Some (Inr (log, s)) \<and>
    allocate_page Size2MB s = Inr (Some a, u) \<and> 2 ^ 32 \<le> a \<and> translate (phys t) (cr3 t) a = None"
proof -
  let ?fr = "start_frames end_sym meta_size areas"
  have "x div PAGE_SIZE_4KB \<in> set (free2 ?fr)"
    by (rule superpage_free [OF assms(6-11) area_end_pages [OF assms(6,7)]])
  then obtain k hs where k: "free2 ?fr = k # hs" "x div PAGE_SIZE_4KB \<le> k"
    using free2_front_highest unfolding start_frames_def by blast
  from memory_init_rep [OF assms(4) unlocked_new assms(5), of raw fl] obtain log s where
    s: "memory_init end_sym meta_size raw mem mem' addr (new_allocator fl) = Some (Inr (log, s))"
      "rep (first_frame end_sym meta_size areas) s ?fr" "length (pages s) = total_pages areas" by blast
  have al: "spec_allocate Size2MB ?fr = (Some k, ?fr\<lparr>free2 := hs, used2 := insert k (used2 ?fr)\<rparr>)"
    using k(1) by (simp add: spec_allocate_def spec_alloc_2mb_def)
  from allocate_page_refines [OF s(2), of Size2MB] al obtain u where u: "allocate_page Size2MB s = Inr (Some (k * PAGE_SIZE_4KB), u)" by auto
  have "k < total_pages areas" using wf_D(11) [OF repD(2) [OF s(2)], of k] k(1) s(3) by simp
  then have "k * PAGE_SIZE_4KB < 2 ^ 48" using assms(13) by (simp add: page_consts)
  moreover have "x \<le> k * PAGE_SIZE_4KB"
  proof -
    have "x = x div PAGE_SIZE_4KB * PAGE_SIZE_4KB" using assms(10) by (auto simp: page_consts elim!: dvdE)
    then show ?thesis using k(2) by (metis mult_le_mono1)
  qed
  ultimately show ?thesis
    using start_translates(2) [OF assms(1-3)] assms(12) s(1) u by fastforce
qed

text \<open>Boot information of a machine whose only available area is the 2MB from 4GB on.\<close>

definition high_bytes :: "u8 list" where
  "high_bytes = [56, 0, 0, 0, 0, 0, 0, 0,
     6, 0, 0, 0, 40, 0, 0, 0, 24, 0, 0, 0, 0, 0, 0, 0,
     0, 0, 0, 0, 1, 0, 0, 0, 0, 0, 0x20, 0, 0, 0, 0, 0, 1, 0, 0, 0, 0, 0, 0, 0,
     0, 0, 0, 0, 8, 0, 0, 0]"

definition high_memory :: memory where
  "high_memory a = (if 0x10000 \<le> a \<and> a < 0x10038 then high_bytes ! (a - 0x10000) else 0)"

definition high_area :: memory_area where
  "high_area = \<lparr>base_addr = 0x100000000, area_length = 0x200000, area_typ = 1, area_reserved = 0\<rparr>"

lemmas high_reads = read_tag_def read_mmap_tag_def read_area_def read_u32_def read_u64_def read_le_numeral high_memory_def high_bytes_def

lemma high_values: "total_pages [high_area] = 1049088" "first_frame 0x150000 40 [high_area] = 10581" "area_end high_area = 0x100200000"
  by (simp_all add: first_frame_def final_end_def page_up_def total_pages_def top_of_def area_end_def high_area_def page_consts)

lemma high_boot: "boot_ok 0x150000 40 high_memory high_memory 0x10000 [high_area]"
proof -
  have "boot_info_ok high_memory 0x10000 [(0x10008, 6)]" by (simp add: boot_info_ok_def MULTIBOOT2_TAG_TYPE_END_def high_reads)
  moreover have "memory_areas high_memory 0x10008 = Inr \<lparr>current = 0x10018, iter_end = 0x10030, iter_entry_size = 24\<rparr>"
    by (simp add: memory_areas_def high_reads)
  moreover have "areas_of high_memory \<lparr>current = 0x10018, iter_end = 0x10030, iter_entry_size = 24\<rparr> = [high_area]"
    by (simp add: areas_of_def area_count_def high_area_def high_reads)
  ultimately have "\<exists>tags mmap ty. boot_info_ok high_memory 0x10000 tags \<and>
      find (\<lambda>t. snd t = MULTIBOOT2_TAG_TYPE_MMAP) tags = Some (mmap, ty) \<and> boot_map high_memory high_memory mmap [high_area]"
    by (intro exI [of _ "[(0x10008, 6)]"] exI [of _ "0x10008"] exI [of _ 6]) (simp add: MULTIBOOT2_TAG_TYPE_MMAP_def boot_map_def)
  moreover have "good_areas [high_area]" "fits 0x150000 40 [high_area]"
    by (simp_all add: good_areas_def fits_def top_of_def total_pages_def area_end_def high_area_def page_consts)
  ultimately show ?thesis by (simp add: boot_ok_def)
qed

lemma high_free_kb: "free_kb (start_frames 0x150000 40 [high_area]) < 2 ^ 31"
proof -
  let ?a = "start_frames 0x150000 40 [high_area]" and ?R = "{0x100000..<0x100200 :: nat}"
  have c: "set (free4 ?a) \<union> \<Union> (block ` set (free2 ?a)) \<subseteq> ?R"
    unfolding start_frames_cover high_values by (auto simp: high_values(3) page_consts high_area_def)
  moreover have "h \<in> block h" for h by (simp add: block_def page_consts)
  ultimately have "set (free4 ?a) \<subseteq> ?R" "set (free2 ?a) \<subseteq> ?R" by blast+
  moreover have "distinct (free4 ?a)" "distinct (free2 ?a)" by (simp_all add: start_frames_def boot_frames_def)
  ultimately have "length (free4 ?a) \<le> card ?R" "length (free2 ?a) \<le> card ?R"
    by (metis card_mono distinct_card finite_atLeastLessThan)+
  then show ?thesis by (simp add: free_kb_def)
qed

theorem first_superpage_unmapped_witness:
  "\<exists>t log s a u. start sample_layout sample_loader = Inr t \<and>
     memory_init 0x150000 40 (\<lambda>_. new_metadata) high_memory high_memory 0x10000 (new_allocator 2) = Some (Inr (log, s)) \<and>
     allocate_page Size2MB s = Inr (Some a, u) \<and> translate (phys t) (cr3 t) a = None"
proof -
  have ok: "layout_ok sample_layout" "loader_ok sample_layout sample_loader"
    by (simp_all add: layout_ok_def loader_ok_def sample_layout_def sample_loader_def)
  then obtain t where t: "start sample_layout sample_loader = Inr t" using start_exec by blast
  have "\<exists>log s a u. memory_init 0x150000 40 (\<lambda>_. new_metadata) high_memory high_memory 0x10000 (new_allocator 2) = Some (Inr (log, s)) \<and>
     allocate_page Size2MB s = Inr (Some a, u) \<and> 2 ^ 32 \<le> a \<and> translate (phys t) (cr3 t) a = None"
    by (rule first_superpage_unmapped [OF ok t high_boot high_free_kb, where m = high_area and x = "0x100000000"])
      (simp_all add: high_values page_consts, simp_all add: high_area_def)
  with t show ?thesis by blast
qed

end
