(* ===== verification/Lock_Order.thy ===== *)
theory Lock_Order
  imports Page_Allocator
begin

text \<open>
  The order in which the operations of \<^verbatim>\<open>src/src/memory/page_allocator.rs\<close> take their locks, when several processors use the
  allocator. Each path through an operation is the sequence of its acquisitions and releases: \<^verbatim>\<open>lock()\<close> calls in program
  order, releases at \<^verbatim>\<open>drop\<close>, at the end of a statement for a temporary guard, and otherwise in reverse order of declaration at the end
  of the function. Processors interleave; an acquisition waits while another processor owns the lock, and
  only its owner releases a lock.
\<close>

section \<open>Paths and their locks\<close>

datatype alloc_lock = PageArray | Free4kbList | Free2mbList

datatype lock_action = Acquire alloc_lock | Release alloc_lock

text \<open>
  \<^verbatim>\<open>alloc_4kb\<close> with a page on the list; \<^verbatim>\<open>alloc_2mb\<close> with a page on the list; \<^verbatim>\<open>split_2mb\<close>; the insertion of \<^verbatim>\<open>free_4kb\<close>; \<^verbatim>\<open>free_2mb\<close>;
  and \<^verbatim>\<open>try_merge\<close>, with the number of pages that were at the front of the 4KB list when they were removed.
\<close>

datatype alloc_path = Take4kb | Take2mb | Split2mb | Insert4kb | Insert2mb | Merge nat

fun lock_trace :: "alloc_path \<Rightarrow> lock_action list" where
  "lock_trace Take4kb = [Acquire Free4kbList, Acquire PageArray, Release Free4kbList, Release PageArray]"
| "lock_trace Take2mb = [Acquire Free2mbList, Acquire PageArray, Release PageArray, Release Free2mbList]"
| "lock_trace Split2mb = [Acquire Free2mbList, Acquire PageArray, Release Free2mbList, Acquire Free4kbList, Release Free4kbList, Release PageArray]"
| "lock_trace Insert4kb = [Acquire PageArray, Acquire Free4kbList, Release Free4kbList, Release PageArray]"
| "lock_trace Insert2mb = [Acquire PageArray, Acquire Free2mbList, Release Free2mbList, Release PageArray]"
| "lock_trace (Merge n) = [Acquire PageArray] @ concat (replicate n [Acquire Free4kbList, Release Free4kbList]) @
     [Acquire Free2mbList, Release Free2mbList, Release PageArray]"

record locks =
  owner :: "alloc_lock \<Rightarrow> nat option"
  todo :: "nat \<Rightarrow> lock_action list"

inductive lock_step :: "locks \<Rightarrow> locks \<Rightarrow> bool" where
  acquire: "todo s i = Acquire l # as \<Longrightarrow> owner s l = None \<Longrightarrow>
    lock_step s (s\<lparr>owner := (owner s)(l := Some i), todo := (todo s)(i := as)\<rparr>)"
| release: "todo s i = Release l # as \<Longrightarrow> owner s l = Some i \<Longrightarrow>
    lock_step s (s\<lparr>owner := (owner s)(l := None), todo := (todo s)(i := as)\<rparr>)"

inductive_cases lock_stepE: "lock_step s t"

section \<open>One processor\<close>

text \<open>A processor that runs alone completes any sequence of paths and gives every lock back.\<close>

definition alone :: "(alloc_lock \<Rightarrow> nat option) \<Rightarrow> lock_action list \<Rightarrow> locks" where
  "alone ow as = \<lparr>owner = ow, todo = (\<lambda>i. if i = 0 then as else [])\<rparr>"

lemma alone_acquire: "ow l = None \<Longrightarrow> lock_step (alone ow (Acquire l # as)) (alone (ow(l := Some 0)) as)"
  using lock_step.acquire [of "alone ow (Acquire l # as)" 0 l as] by (simp add: alone_def fun_upd_def if_distrib cong: if_cong)

lemma alone_release: "ow l = Some 0 \<Longrightarrow> lock_step (alone ow (Release l # as)) (alone (ow(l := None)) as)"
  using lock_step.release [of "alone ow (Release l # as)" 0 l as] by (simp add: alone_def fun_upd_def if_distrib cong: if_cong)

fun run_alone :: "lock_action list \<Rightarrow> (alloc_lock \<Rightarrow> nat option) \<Rightarrow> (alloc_lock \<Rightarrow> nat option) option" where
  "run_alone [] ow = Some ow"
| "run_alone (Acquire l # as) ow = (if ow l = None then run_alone as (ow(l := Some 0)) else None)"
| "run_alone (Release l # as) ow = (if ow l = Some 0 then run_alone as (ow(l := None)) else None)"

lemma run_alone_steps: "run_alone as ow = Some ow' \<Longrightarrow> lock_step\<^sup>*\<^sup>* (alone ow (as @ bs)) (alone ow' bs)"
  by (induction as ow rule: run_alone.induct)
    (auto split: if_splits intro: converse_rtranclp_into_rtranclp alone_acquire alone_release)

lemma run_alone_append: "run_alone (as @ bs) ow = Option.bind (run_alone as ow) (run_alone bs)"
  by (induction as ow rule: run_alone.induct) (auto simp: fun_upd_def)

lemma run_alone_merge:
  "ow Free4kbList = None \<Longrightarrow> run_alone (concat (replicate n [Acquire Free4kbList, Release Free4kbList])) ow = Some ow"
  by (induction n) (auto simp: fun_upd_idem)

lemma run_alone_trace:
  assumes "ow = (\<lambda>_. None)"
  shows "run_alone (lock_trace p) ow = Some ow"
proof (cases p)
  case (Merge n)
  have "run_alone (concat (replicate n [Acquire Free4kbList, Release Free4kbList])) (ow(PageArray := Some 0)) = Some (ow(PageArray := Some 0))"
    using assms by (intro run_alone_merge) simp
  then show ?thesis using Merge assms by (simp add: run_alone_append fun_upd_twist fun_upd_idem)
qed (simp_all add: assms fun_upd_twist fun_upd_idem)

lemma alone_completes: "lock_step\<^sup>*\<^sup>* (alone (\<lambda>_. None) (concat (map lock_trace paths))) (alone (\<lambda>_. None) [])"
proof (induction paths)
  case (Cons p ps)
  then show ?case using run_alone_steps [OF run_alone_trace [OF refl], of p "concat (map lock_trace ps)"] by simp
qed simp

section \<open>Two processors\<close>

text \<open>Two processors that own what the other wants stay as they are, whatever the others do.\<close>

definition embraced :: "alloc_lock \<Rightarrow> alloc_lock \<Rightarrow> lock_action list \<Rightarrow> lock_action list \<Rightarrow> locks \<Rightarrow> bool" where
  "embraced x y as bs s \<longleftrightarrow> owner s x = Some 0 \<and> owner s y = Some 1 \<and> todo s 0 = Acquire y # as \<and> todo s 1 = Acquire x # bs"

lemma embraced_step: "lock_step s t \<Longrightarrow> embraced x y as bs s \<Longrightarrow> embraced x y as bs t"
  by (erule lock_stepE) (auto simp: embraced_def)

lemma embraced_for_ever: "lock_step\<^sup>*\<^sup>* s t \<Longrightarrow> embraced x y as bs s \<Longrightarrow> embraced x y as bs t"
  by (induction rule: rtranclp_induct) (auto intro: embraced_step)

lemma acquire_first:
  assumes "todo s i = Acquire l # as" and "owner s l = None"
    and "\<exists>t. lock_step\<^sup>*\<^sup>* (s\<lparr>owner := (owner s)(l := Some i), todo := (todo s)(i := as)\<rparr>) t \<and> P t"
  shows "\<exists>t. lock_step\<^sup>*\<^sup>* s t \<and> P t"
  using assms(3) lock_step.acquire [OF assms(1,2)] by (meson converse_rtranclp_into_rtranclp)

lemma release_first:
  assumes "todo s i = Release l # as" and "owner s l = Some i"
    and "\<exists>t. lock_step\<^sup>*\<^sup>* (s\<lparr>owner := (owner s)(l := None), todo := (todo s)(i := as)\<rparr>) t \<and> P t"
  shows "\<exists>t. lock_step\<^sup>*\<^sup>* s t \<and> P t"
  using assms(3) lock_step.release [OF assms(1,2)] by (meson converse_rtranclp_into_rtranclp)

lemma embrace_reachable:
  assumes "(p, q) \<in> {(Take4kb, Insert4kb), (Take2mb, Insert2mb), (Take4kb, Split2mb)}"
    and "s = \<lparr>owner = \<lambda>_. None, todo = others(0 := lock_trace p, 1 := lock_trace q)\<rparr>"
  shows "\<exists>t. lock_step\<^sup>*\<^sup>* s t \<and> (\<exists>x y as bs. embraced x y as bs t)"
proof -
  consider "p = Take4kb" "q = Insert4kb" | "p = Take2mb" "q = Insert2mb" | "p = Take4kb" "q = Split2mb" using assms(1) by auto
  then show ?thesis
  proof cases
    case 1
    show ?thesis unfolding assms(2) 1
      by (rule acquire_first [where i = 0], simp, simp, rule acquire_first [where i = 1], simp, simp)
        (force simp: embraced_def)
  next
    case 2
    show ?thesis unfolding assms(2) 2
      by (rule acquire_first [where i = 0], simp, simp, rule acquire_first [where i = 1], simp, simp)
        (force simp: embraced_def)
  next
    case 3
    show ?thesis unfolding assms(2) 3
      by (rule acquire_first [where i = 1], simp, simp, rule acquire_first [where i = 1], simp, simp, rule release_first [where i = 1], simp, simp,
          rule acquire_first [where i = 0], simp, simp) (force simp: embraced_def)
  qed
qed

text \<open>
  C36: on two processors the allocator can deadlock for ever. Allocating a page takes the list's lock before the page array's,
  releasing one takes them in the other order, and so does splitting a superpage; if the two processors run these
  paths at the same time, a state is reachable in which each waits for the other, whatever further processors do.
\<close>

theorem allocator_locks_deadlock:
  assumes "(p, q) \<in> {(Take4kb, Insert4kb), (Take2mb, Insert2mb), (Take4kb, Split2mb)}"
    and "s = \<lparr>owner = \<lambda>_. None, todo = others(0 := lock_trace p, 1 := lock_trace q)\<rparr>"
  shows "\<exists>t. lock_step\<^sup>*\<^sup>* s t \<and> (\<forall>u. lock_step\<^sup>*\<^sup>* t u \<longrightarrow> todo u 0 = todo t 0 \<and> todo u 1 = todo t 1 \<and> todo u 0 \<noteq> [] \<and> todo u 1 \<noteq> [])"
proof -
  from embrace_reachable [OF assms] obtain t x y as bs where t: "lock_step\<^sup>*\<^sup>* s t" "embraced x y as bs t" by blast
  then show ?thesis using embraced_for_ever by (intro exI [of _ t]) (auto simp: embraced_def)
qed

theorem allocator_locks_deadlock_witness:
  "\<exists>t. lock_step\<^sup>*\<^sup>* \<lparr>owner = \<lambda>_. None, todo = (\<lambda>_. [])(0 := lock_trace Take2mb, 1 := lock_trace Insert2mb)\<rparr> t \<and>
     (\<forall>u. lock_step\<^sup>*\<^sup>* t u \<longrightarrow> todo u 0 \<noteq> [])"
  using allocator_locks_deadlock [of Take2mb Insert2mb _ "\<lambda>_. []", OF _ refl] by blast

end
