(* ===== verification/Mutex_SMP.thy ===== *)
theory Mutex_SMP
  imports Mutex
begin

text \<open>
  The mutex of \<^verbatim>\<open>src/src/memory/mutex.rs\<close> under concurrency. Any number of processors share one
  lock word. Each processor runs one activity on top of a stack of activities that interrupts
  have suspended; an interrupt is taken only while the processor's interrupt flag is set, and
  the interrupt gate clears the flag for the handler. Every rule of \<^verbatim>\<open>mutex_step\<close> is one atomic
  action of \<^verbatim>\<open>lock\<close>, \<^verbatim>\<open>try_lock\<close> or the guard's \<^verbatim>\<open>drop\<close>, or an action of the environment. Between these
  calls an activity is free to do anything else, whether it owns a guard or not: switch interrupts on or off, which is also
  what taking and dropping guards of other mutexes amounts to, and call \<^verbatim>\<open>lock\<close> or \<^verbatim>\<open>try_lock\<close> again. A handler
  drops its guards before it returns, as values that go out of scope are.
\<close>

section \<open>States and steps\<close>

datatype mutex_pc =
    Outside
  | LockFlagsRead
  | LockSpin
  | TryFlagsRead
  | TryTest
  | TryFailed
  | Released

text \<open>
  An activity outside the operations may own a guard, known by the interrupt flag it saved. Inside an operation \<open>saved_irq\<close>
  is the flag that the operation is going to restore or to put into the guard.
\<close>

record activity =
  pc :: mutex_pc
  saved_irq :: bool
  guard :: "bool option"

record cpu_ctx =
  irq_on :: bool
  running :: activity
  suspended :: "activity list"

record smp =
  lock_word :: bool
  cpus :: "nat \<Rightarrow> cpu_ctx"

definition idle :: activity where
  "idle = \<lparr>pc = Outside, saved_irq = False, guard = None\<rparr>"

definition smp_init :: smp where
  "smp_init = \<lparr>lock_word = False, cpus = \<lambda>_. \<lparr>irq_on = False, running = idle, suspended = []\<rparr>\<rparr>"

abbreviation pc_of :: "smp \<Rightarrow> nat \<Rightarrow> mutex_pc" where
  "pc_of s i \<equiv> pc (running (cpus s i))"

definition set_cpu :: "nat \<Rightarrow> cpu_ctx \<Rightarrow> smp \<Rightarrow> smp" where
  "set_cpu i c s = s\<lparr>cpus := (cpus s)(i := c)\<rparr>"

definition goto :: "mutex_pc \<Rightarrow> cpu_ctx \<Rightarrow> cpu_ctx" where
  "goto l c = c\<lparr>running := (running c)\<lparr>pc := l\<rparr>\<rparr>"

definition read_flags :: "mutex_pc \<Rightarrow> cpu_ctx \<Rightarrow> cpu_ctx" where
  "read_flags l c = c\<lparr>running := (running c)\<lparr>pc := l, saved_irq := irq_on c\<rparr>\<rparr>"

definition take_guard :: "cpu_ctx \<Rightarrow> cpu_ctx" where
  "take_guard c = c\<lparr>running := (running c)\<lparr>pc := Outside, guard := Some (saved_irq (running c))\<rparr>\<rparr>"

definition begin_drop :: "bool \<Rightarrow> cpu_ctx \<Rightarrow> cpu_ctx" where
  "begin_drop b c = c\<lparr>running := \<lparr>pc = Released, saved_irq = b, guard = None\<rparr>\<rparr>"

definition restore_flags :: "cpu_ctx \<Rightarrow> cpu_ctx" where
  "restore_flags c = goto Outside (if saved_irq (running c) then c\<lparr>irq_on := True\<rparr> else c)"

inductive mutex_step :: "smp \<Rightarrow> smp \<Rightarrow> bool" where
  lock_read: "pc_of s i = Outside \<Longrightarrow>
    mutex_step s (set_cpu i (read_flags LockFlagsRead (cpus s i)) s)"
| lock_cli: "pc_of s i = LockFlagsRead \<Longrightarrow>
    mutex_step s (set_cpu i (goto LockSpin ((cpus s i)\<lparr>irq_on := False\<rparr>)) s)"
| lock_cas_ok: "pc_of s i = LockSpin \<Longrightarrow> \<not> lock_word s \<Longrightarrow>
    mutex_step s (set_cpu i (take_guard (cpus s i)) s\<lparr>lock_word := True\<rparr>)"
| lock_cas_err: "pc_of s i = LockSpin \<Longrightarrow> lock_word s \<Longrightarrow> mutex_step s s"
| try_read: "pc_of s i = Outside \<Longrightarrow>
    mutex_step s (set_cpu i (read_flags TryFlagsRead (cpus s i)) s)"
| try_cli: "pc_of s i = TryFlagsRead \<Longrightarrow>
    mutex_step s (set_cpu i (goto TryTest ((cpus s i)\<lparr>irq_on := False\<rparr>)) s)"
| try_cas_ok: "pc_of s i = TryTest \<Longrightarrow> \<not> lock_word s \<Longrightarrow>
    mutex_step s (set_cpu i (take_guard (cpus s i)) s\<lparr>lock_word := True\<rparr>)"
| try_cas_err: "pc_of s i = TryTest \<Longrightarrow> lock_word s \<Longrightarrow>
    mutex_step s (set_cpu i (goto TryFailed (cpus s i)) s)"
| try_restore: "pc_of s i = TryFailed \<Longrightarrow>
    mutex_step s (set_cpu i (restore_flags (cpus s i)) s)"
| drop_store: "pc_of s i = Outside \<Longrightarrow> guard (running (cpus s i)) = Some b \<Longrightarrow>
    mutex_step s (set_cpu i (begin_drop b (cpus s i)) s\<lparr>lock_word := False\<rparr>)"
| drop_restore: "pc_of s i = Released \<Longrightarrow>
    mutex_step s (set_cpu i (restore_flags (cpus s i)) s)"
| env_flag: "pc_of s i = Outside \<Longrightarrow>
    mutex_step s (set_cpu i ((cpus s i)\<lparr>irq_on := b\<rparr>) s)"
| interrupt: "irq_on (cpus s i) \<Longrightarrow>
    mutex_step s (set_cpu i \<lparr>irq_on = False, running = idle,
                              suspended = running (cpus s i) # suspended (cpus s i)\<rparr> s)"
| iret: "pc_of s i = Outside \<Longrightarrow> guard (running (cpus s i)) = None \<Longrightarrow> suspended (cpus s i) = a # as \<Longrightarrow>
    mutex_step s (set_cpu i \<lparr>irq_on = True, running = a, suspended = as\<rparr> s)"

inductive smp_reachable :: "smp \<Rightarrow> bool" where
  start: "smp_reachable smp_init"
| step: "smp_reachable s \<Longrightarrow> mutex_step s t \<Longrightarrow> smp_reachable t"

text \<open>
  The runs in which no activity switches interrupts on while it owns the guard: in every step, the processors that
  run the owner of the guard before and after it do not have their interrupt flag set by it.
\<close>

definition disciplined :: "smp \<Rightarrow> smp \<Rightarrow> bool" where
  "disciplined s t \<longleftrightarrow> mutex_step s t \<and> (\<forall>i. guard (running (cpus s i)) \<noteq> None \<and> guard (running (cpus t i)) \<noteq> None \<and>
     irq_on (cpus t i) \<longrightarrow> irq_on (cpus s i))"

section \<open>The invariant\<close>

definition owns :: "activity \<Rightarrow> bool" where
  "owns a \<longleftrightarrow> guard a \<noteq> None"

text \<open>How many activities of a processor own a guard, the running one and those that interrupts have suspended.\<close>

definition guards :: "cpu_ctx \<Rightarrow> nat" where
  "guards c = (if owns (running c) then 1 else 0) + length (filter owns (suspended c))"

definition quiet :: "mutex_pc \<Rightarrow> bool" where
  "quiet l \<longleftrightarrow> l \<in> {LockSpin, TryTest, TryFailed}"

definition resting :: "activity \<Rightarrow> bool" where
  "resting a \<longleftrightarrow> pc a = Outside \<or> (pc a = Released \<and> \<not> owns a) \<or> (pc a \<in> {LockFlagsRead, TryFlagsRead} \<and> saved_irq a)"

definition cpu_ok :: "cpu_ctx \<Rightarrow> bool" where
  "cpu_ok c \<longleftrightarrow>
     (quiet (pc (running c)) \<longrightarrow> \<not> irq_on c) \<and>
     (pc (running c) \<in> {LockFlagsRead, TryFlagsRead} \<longrightarrow> saved_irq (running c) = irq_on c) \<and>
     (pc (running c) = Released \<longrightarrow> \<not> owns (running c)) \<and> list_all resting (suspended c)"

definition smp_inv :: "smp \<Rightarrow> bool" where
  "smp_inv s \<longleftrightarrow>
     (\<forall>i. cpu_ok (cpus s i)) \<and>
     (lock_word s \<longrightarrow> (\<exists>i. guards (cpus s i) = 1 \<and> (\<forall>j. j \<noteq> i \<longrightarrow> guards (cpus s j) = 0))) \<and>
     (\<not> lock_word s \<longrightarrow> (\<forall>i. guards (cpus s i) = 0))"

lemmas smp_defs = set_cpu_def goto_def read_flags_def restore_flags_def take_guard_def begin_drop_def idle_def

lemma pc_of_set_cpu [simp]:
  "pc_of (set_cpu i c s) j = (if j = i then pc (running c) else pc_of s j)"
  by (simp add: set_cpu_def)

lemma cpus_set_cpu [simp]: "cpus (set_cpu i c s) = (cpus s)(i := c)"
  by (simp add: set_cpu_def)

lemma lock_word_set_cpu [simp]: "lock_word (set_cpu i c s) = lock_word s"
  by (simp add: set_cpu_def)

text \<open>A step of one processor that neither takes nor gives up the lock only has to keep \<^const>\<open>cpu_ok\<close> and the number of guards.\<close>

lemma smp_inv_local:
  assumes "smp_inv s" and "cpu_ok c" and "guards c = guards (cpus s i)"
  shows "smp_inv (set_cpu i c s)"
proof -
  have "guards (cpus (set_cpu i c s) j) = guards (cpus s j)" for j using assms(3) by simp
  then show ?thesis using assms(1,2) unfolding smp_inv_def by simp
qed

lemma smp_inv_acquire:
  assumes "smp_inv s" and "cpu_ok c" and "guards c = Suc (guards (cpus s i))" and "\<not> lock_word s"
  shows "smp_inv (set_cpu i c s\<lparr>lock_word := True\<rparr>)"
  using assms unfolding smp_inv_def by (auto simp: set_cpu_def intro!: exI [of _ i])

lemma smp_inv_release:
  assumes "smp_inv s" and "cpu_ok c" and "Suc (guards c) = guards (cpus s i)"
  shows "smp_inv (set_cpu i c s\<lparr>lock_word := False\<rparr>)"
proof -
  have "lock_word s" using assms(1,3) unfolding smp_inv_def by (auto split: if_splits)
  then obtain k where k: "guards (cpus s k) = 1" "\<forall>j. j \<noteq> k \<longrightarrow> guards (cpus s j) = 0" using assms(1) unfolding smp_inv_def by auto
  then have "k = i" using assms(3) by (cases "k = i") auto
  then show ?thesis using assms k unfolding smp_inv_def by (auto simp: set_cpu_def)
qed

lemma smp_inv_cpu_ok: "smp_inv s \<Longrightarrow> cpu_ok (cpus s i)"
  by (simp add: smp_inv_def)

lemma smp_inv_free: "smp_inv s \<Longrightarrow> \<not> lock_word s \<Longrightarrow> guards (cpus s i) = 0"
  by (simp add: smp_inv_def)

lemmas guard_defs = guards_def owns_def smp_defs

lemma mutex_step_inv: "mutex_step s t \<Longrightarrow> smp_inv s \<Longrightarrow> smp_inv t"
proof (induction rule: mutex_step.induct)
  case (lock_cas_ok s i)
  with smp_inv_cpu_ok [of s i] smp_inv_free [of s i] show ?case
    by (intro smp_inv_acquire) (auto simp: cpu_ok_def guard_defs quiet_def split: if_splits)
next
  case (try_cas_ok s i)
  with smp_inv_cpu_ok [of s i] smp_inv_free [of s i] show ?case
    by (intro smp_inv_acquire) (auto simp: cpu_ok_def guard_defs quiet_def split: if_splits)
next
  case (drop_store s i b)
  with smp_inv_cpu_ok [of s i] show ?case
    by (intro smp_inv_release) (auto simp: cpu_ok_def guard_defs quiet_def split: if_splits)
next
  case (lock_cas_err s i)
  then show ?case by simp
next
  case (interrupt s i)
  with smp_inv_cpu_ok [of s i] have "resting (running (cpus s i))"
    by (cases "pc_of s i"; simp add: cpu_ok_def quiet_def resting_def)+
  with interrupt smp_inv_cpu_ok [of s i] show ?case
    by (intro smp_inv_local) (auto simp: cpu_ok_def guard_defs quiet_def split: if_splits)
next
  case (iret s i a as)
  with smp_inv_cpu_ok [of s i] show ?case
    by (intro smp_inv_local) (auto simp: cpu_ok_def quiet_def resting_def guards_def owns_def)
qed (intro smp_inv_local; use smp_inv_cpu_ok in \<open>force simp: cpu_ok_def guard_defs quiet_def\<close>)+

lemma smp_inv_init: "smp_inv smp_init"
  by (simp add: smp_inv_def smp_init_def cpu_ok_def idle_def quiet_def guards_def owns_def)

lemma smp_reachable_inv: "smp_reachable s \<Longrightarrow> smp_inv s"
  by (induction rule: smp_reachable.induct) (auto intro: smp_inv_init mutex_step_inv)

section \<open>Disciplined runs\<close>

text \<open>On disciplined runs interrupts stay off for the owner of the guard, and so no interrupt suspends it.\<close>

definition cpu_masked :: "cpu_ctx \<Rightarrow> bool" where
  "cpu_masked c \<longleftrightarrow> (owns (running c) \<longrightarrow> \<not> irq_on c \<and> (pc (running c) \<noteq> Outside \<longrightarrow> \<not> saved_irq (running c))) \<and>
     (\<forall>a\<in>set (suspended c). \<not> owns a)"

lemma disciplined_masked:
  assumes "disciplined s t" and "smp_inv s" and "\<forall>i. cpu_masked (cpus s i)"
  shows "cpu_masked (cpus t j)"
proof -
  have step: "mutex_step s t" and calm: "guard (running (cpus s i)) \<noteq> None \<Longrightarrow> guard (running (cpus t i)) \<noteq> None \<Longrightarrow>
     irq_on (cpus t i) \<Longrightarrow> irq_on (cpus s i)" for i using assms(1) unfolding disciplined_def by blast+
  note facts = assms(3) [rule_format] smp_inv_cpu_ok [OF assms(2)]
  show ?thesis
    using step
  proof (cases rule: mutex_step.cases)
    case (env_flag i b)
    then show ?thesis using facts [of j] calm [of i] by (cases "j = i") (auto simp: cpu_masked_def owns_def)
  next
    case (iret i a as)
    then show ?thesis using facts [of j] by (cases "j = i") (auto simp: cpu_masked_def)
  qed (use facts [of j] in \<open>cases "j = i"; force simp: cpu_masked_def cpu_ok_def owns_def quiet_def set_cpu_def smp_defs\<close>)+
qed

lemma disciplined_runs:
  assumes "disciplined\<^sup>*\<^sup>* smp_init s"
  shows "smp_reachable s \<and> (\<forall>i. cpu_masked (cpus s i))"
  using assms
proof (induction rule: rtranclp_induct)
  case base
  show ?case by (simp add: smp_reachable.start) (simp add: smp_init_def cpu_masked_def idle_def owns_def)
next
  case (step t u)
  then have "mutex_step t u" by (simp add: disciplined_def)
  with step disciplined_masked smp_reachable_inv smp_reachable.step show ?case by blast
qed

text \<open>A processor that spins for the lock and owns it has no step but to test the lock word again.\<close>

lemma spinning_owner_step:
  assumes "mutex_step s t" and "smp_inv s" and "pc_of s i = LockSpin" and "0 < guards (cpus s i)"
  shows "cpus t i = cpus s i"
proof -
  have w: "lock_word s" "\<not> irq_on (cpus s i)"
    using assms(2-4) smp_inv_free [of s i] smp_inv_cpu_ok [of s i] by (auto simp: cpu_ok_def quiet_def)
  show ?thesis using assms(1) by (cases rule: mutex_step.cases) (use assms(3) w in \<open>auto simp: set_cpu_def\<close>)
qed

section \<open>Properties\<close>

text \<open>
  C6: in every reachable state at most one activity of all processors, running or suspended by an interrupt, owns the guard, and the lock
  word is set exactly while one does; and no interrupt suspends an activity while it spins or between its failed attempt and the end of
  \<^verbatim>\<open>try_lock\<close>. If moreover no activity switched interrupts on while it owned the guard, which code with nested guards may do,
  interrupts are off on the processor that owns it and no suspended activity owns it.
\<close>

theorem mutual_exclusion:
  assumes "smp_reachable s"
  shows "guards (cpus s i) \<le> 1 \<and> (0 < guards (cpus s i) \<and> 0 < guards (cpus s j) \<longrightarrow> i = j) \<and>
    (lock_word s \<longleftrightarrow> (\<exists>i. 0 < guards (cpus s i))) \<and>
    (\<forall>a\<in>set (suspended (cpus s i)). pc a \<notin> {LockSpin, TryTest, TryFailed}) \<and>
    (disciplined\<^sup>*\<^sup>* smp_init s \<longrightarrow> (owns (running (cpus s i)) \<longrightarrow> \<not> irq_on (cpus s i)) \<and> (\<forall>a\<in>set (suspended (cpus s i)). \<not> owns a))"
proof -
  have inv: "smp_inv s" using assms by (rule smp_reachable_inv)
  then have "\<forall>a\<in>set (suspended (cpus s i)). resting a" using smp_inv_cpu_ok [of s i] by (simp add: cpu_ok_def list_all_iff)
  then have "\<forall>a\<in>set (suspended (cpus s i)). pc a \<notin> {LockSpin, TryTest, TryFailed}" by (auto simp: resting_def)
  moreover have "guards (cpus s i) \<le> 1" "0 < guards (cpus s i) \<and> 0 < guards (cpus s j) \<longrightarrow> i = j"
    "lock_word s \<longleftrightarrow> (\<exists>i. 0 < guards (cpus s i))"
    using inv unfolding smp_inv_def by (metis One_nat_def le_eq_less_or_eq less_numeral_extra(1,3) zero_le)+
  moreover have "disciplined\<^sup>*\<^sup>* smp_init s \<longrightarrow>
      (owns (running (cpus s i)) \<longrightarrow> \<not> irq_on (cpus s i)) \<and> (\<forall>a\<in>set (suspended (cpus s i)). \<not> owns a)"
    using disciplined_runs [of s] by (simp add: cpu_masked_def)
  ultimately show ?thesis by blast
qed

text \<open>A run in which processor 0 takes the lock.\<close>

lemma enter_lock:
  assumes "disciplined\<^sup>*\<^sup>* smp_init s" and "pc_of s i = Outside"
  shows "disciplined\<^sup>*\<^sup>* smp_init (set_cpu i (goto LockSpin ((read_flags LockFlagsRead (cpus s i))\<lparr>irq_on := False\<rparr>)) s)"
proof -
  let ?t = "set_cpu i (read_flags LockFlagsRead (cpus s i)) s"
  let ?u = "set_cpu i (goto LockSpin ((cpus ?t i)\<lparr>irq_on := False\<rparr>)) ?t"
  have "mutex_step s ?t" "mutex_step ?t ?u" using lock_read [OF assms(2)] by (simp, intro lock_cli) (simp add: read_flags_def)
  then have "disciplined s ?t" "disciplined ?t ?u" by (simp_all add: disciplined_def smp_defs)
  moreover have "?u = set_cpu i (goto LockSpin ((read_flags LockFlagsRead (cpus s i))\<lparr>irq_on := False\<rparr>)) s" by (simp add: smp_defs)
  ultimately show ?thesis using assms(1) by (metis rtranclp.rtrancl_into_rtrancl)
qed

lemma locked_reachable:
  "\<exists>s. disciplined\<^sup>*\<^sup>* smp_init s \<and> owns (running (cpus s 0)) \<and> (\<forall>i. pc_of s i = Outside)"
proof -
  let ?c = "\<lparr>irq_on = False, running = idle, suspended = []\<rparr>"
  let ?t = "set_cpu 0 (goto LockSpin ((read_flags LockFlagsRead ?c)\<lparr>irq_on := False\<rparr>)) smp_init"
  let ?u = "set_cpu 0 (take_guard (cpus ?t 0)) ?t\<lparr>lock_word := True\<rparr>"
  have c: "cpus smp_init i = ?c" for i by (simp add: smp_init_def)
  have "disciplined\<^sup>*\<^sup>* smp_init ?t" using enter_lock [of smp_init 0] by (simp add: c idle_def)
  moreover have "disciplined ?t ?u"
    using lock_cas_ok [of ?t 0] by (simp add: disciplined_def smp_init_def smp_defs)
  ultimately have "disciplined\<^sup>*\<^sup>* smp_init ?u" by (rule rtranclp.rtrancl_into_rtrancl)
  then show ?thesis by (intro exI [of _ ?u]) (simp add: owns_def smp_init_def smp_defs)
qed

text \<open>Then processor \<open>i\<close> calls \<^verbatim>\<open>lock\<close> as well.\<close>

lemma contended_reachable: "\<exists>s. disciplined\<^sup>*\<^sup>* smp_init s \<and> owns (running (cpus s 0)) \<and> pc_of s i = LockSpin"
proof -
  obtain s where "disciplined\<^sup>*\<^sup>* smp_init s" "owns (running (cpus s 0))" "pc_of s i = Outside"
    using locked_reachable by blast
  then show ?thesis using enter_lock [of s i]
    by (intro exI [of _ "set_cpu i (goto LockSpin ((read_flags LockFlagsRead (cpus s i))\<lparr>irq_on := False\<rparr>)) s"]) (simp add: owns_def smp_defs)
qed

theorem mutual_exclusion_witness:
  "\<exists>s. smp_reachable s \<and> guards (cpus s 0) = 1 \<and> guards (cpus s 1) = 0 \<and> pc_of s 1 = LockSpin \<and> lock_word s \<and> \<not> irq_on (cpus s 0)"
proof -
  obtain s where s: "disciplined\<^sup>*\<^sup>* smp_init s" "owns (running (cpus s 0))" "pc_of s 1 = LockSpin" using contended_reachable by blast
  then have "smp_reachable s" "0 < guards (cpus s 0)" using disciplined_runs [OF s(1)] by (simp_all add: guards_def)
  with s mutual_exclusion [of s 0 1] show ?thesis by (intro exI [of _ s]) auto
qed

text \<open>
  C35: the mutex is not reentrant: a processor that spins for the lock while one of its own activities owns the guard, be it the spinning
  one or one that it has interrupted, spins for ever, whatever the other processors do.
\<close>

theorem own_lock_spins_for_ever:
  assumes "smp_reachable s" and "pc_of s i = LockSpin" and "0 < guards (cpus s i)" and "mutex_step\<^sup>*\<^sup>* s t"
  shows "cpus t i = cpus s i \<and> lock_word t"
proof -
  have "smp_reachable t \<and> cpus t i = cpus s i"
    using assms(4)
  proof (induction rule: rtranclp_induct)
    case (step t u)
    then have t: "smp_inv t" "pc_of t i = LockSpin" "0 < guards (cpus t i)" using smp_reachable_inv assms(2,3) by auto
    have "cpus u i = cpus t i" using step.hyps(2) t by (rule spinning_owner_step)
    then show ?case using step smp_reachable.step by auto
  qed (simp add: assms(1))
  then show ?thesis using smp_inv_free [of t i] smp_reachable_inv assms(3) by fastforce
qed

theorem own_lock_spins_for_ever_witness:
  "\<exists>s. pc_of s 0 = LockSpin \<and> (\<forall>t. mutex_step\<^sup>*\<^sup>* s t \<longrightarrow> pc_of t 0 = LockSpin \<and> lock_word t)"
proof -
  obtain s where "disciplined\<^sup>*\<^sup>* smp_init s" "owns (running (cpus s 0))" "pc_of s 0 = LockSpin" using contended_reachable by blast
  then have s: "smp_reachable s" "pc_of s 0 = LockSpin" "0 < guards (cpus s 0)" using disciplined_runs [of s] by (simp_all add: guards_def)
  have "pc_of t 0 = LockSpin \<and> lock_word t" if "mutex_step\<^sup>*\<^sup>* s t" for t using own_lock_spins_for_ever [OF s that] s(2) by simp
  with s(2) show ?thesis by (intro exI [of _ s]) blast
qed

section \<open>The sequential operations\<close>













text \<open>
  On one processor a critical section changes the protected data and nothing else: interrupts are off inside, and
  dropping the guard restores the processor's flags; \<^verbatim>\<open>try_lock\<close> on a held mutex changes nothing.
\<close>

lemma critical_section_restores:
  assumes "\<not> locked m"
  shows "\<exists>g fl' m'. lock fl m = Inr (g, fl', m') \<and> try_lock fl m = (Some g, fl', m') \<and> \<not> are_interrupts_enabled fl' \<and>
    drop_guard g fl' (deref_mut f m') = (fl, deref_mut f m) \<and> try_lock fl m' = (None, fl, m') \<and> lock fl m' = Inl Deadlock"
  using assms
  by (cases "are_interrupts_enabled fl") (simp_all add: lock_def try_lock_def drop_guard_def deref_mut_def Let_def)

end
