(* ===== verification/Page_Types.thy ===== *)
theory Page_Types
  imports Page_Exec
begin

text \<open>
  The types of the page allocator's values. A \<^verbatim>\<open>usize\<close> is a natural number in the model, and a link or a list head is
  only an index; here every index the state holds is shown to stay inside the page array, whatever calls clients make:
  pages may be released twice, released with the wrong size or released without having been allocated.
\<close>

section \<open>Well-typed states\<close>

definition link_ok :: "usize \<Rightarrow> usize option \<Rightarrow> bool" where
  "link_ok n l \<longleftrightarrow> (case l of None \<Rightarrow> True | Some p \<Rightarrow> p < n)"

definition meta_typed :: "usize \<Rightarrow> page_metadata \<Rightarrow> bool" where
  "meta_typed n m \<longleftrightarrow> link_ok n (next_pg m) \<and> link_ok n (prev_pg m)"

definition slice_typed :: "page_slice \<Rightarrow> bool" where
  "slice_typed ps \<longleftrightarrow> list_all (meta_typed (length ps)) ps"

definition well_typed :: "page_allocator \<Rightarrow> bool" where
  "well_typed s \<longleftrightarrow> unlocked s \<and> slice_typed (pages s) \<and> link_ok (length (pages s)) (head_4kb s) \<and>
     link_ok (length (pages s)) (head_2mb s) \<and> PAGES_PER_2MB dvd length (pages s) \<and>
     length (pages s) * PAGE_SIZE_4KB < usize_limit"

lemma link_ok_simps [simp]: "link_ok n None" "link_ok n (Some p) \<longleftrightarrow> p < n"
  by (simp_all add: link_ok_def)

lemma slice_typed_nth:
  assumes "slice_typed ps" and "p < length ps"
  shows "link_ok (length ps) (next_pg (ps ! p))" "link_ok (length ps) (prev_pg (ps ! p))"
  using assms by (simp_all add: slice_typed_def list_all_length meta_typed_def)

lemma slice_typed_update:
  "slice_typed ps \<Longrightarrow> meta_typed (length ps) m \<Longrightarrow> slice_typed (ps[p := m])"
  by (auto simp: slice_typed_def list_all_iff dest!: set_update_subset_insert [THEN subsetD])

text \<open>Each link manipulation succeeds on indices in range and keeps the types.\<close>

lemma modify_opt_typed:
  assumes "slice_typed ps" and "link_ok (length ps) q" and "\<And>m. meta_typed (length ps) m \<Longrightarrow> meta_typed (length ps) (f m)"
  shows "\<exists>ps'. modify_opt f q ps = Inr ps' \<and> slice_typed ps' \<and> length ps' = length ps"
proof (cases q)
  case (Some p)
  then have "p < length ps" using assms(2) by simp
  then have "meta_typed (length ps) (ps ! p)" using assms(1) by (simp add: slice_typed_def list_all_length)
  then show ?thesis using Some \<open>p < length ps\<close> assms by (simp add: modify_opt_def slice_typed_update)
qed (simp add: modify_opt_def assms(1))

lemma modify_at_typed:
  assumes "slice_typed ps" and "p < length ps" and "\<And>m. meta_typed (length ps) m \<Longrightarrow> meta_typed (length ps) (f m)"
  shows "\<exists>ps'. modify_at f p ps = Inr ps' \<and> slice_typed ps' \<and> length ps' = length ps"
  using modify_opt_typed [of ps "Some p" f] assms by (simp add: modify_opt_def)

lemma link_front_typed:
  assumes "slice_typed ps" and "p < length ps" and "link_ok (length ps) h"
  shows "\<exists>ps'. link_front p h ps = Inr (ps', Some p) \<and> slice_typed ps' \<and> length ps' = length ps"
proof -
  obtain ps1 where 1: "modify_at (\<lambda>m. m\<lparr>next_pg := h\<rparr>) p ps = Inr ps1" "slice_typed ps1" "length ps1 = length ps"
    using modify_at_typed [OF assms(1,2), of "\<lambda>m. m\<lparr>next_pg := h\<rparr>"] assms(3) by (auto simp: meta_typed_def)
  obtain ps2 where 2: "modify_at (\<lambda>m. m\<lparr>prev_pg := None\<rparr>) p ps1 = Inr ps2" "slice_typed ps2" "length ps2 = length ps"
    using modify_at_typed [OF 1(2), of p "\<lambda>m. m\<lparr>prev_pg := None\<rparr>"] assms(2) 1(3) by (auto simp: meta_typed_def)
  obtain ps3 where "modify_opt (\<lambda>m. m\<lparr>prev_pg := Some p\<rparr>) h ps2 = Inr ps3" "slice_typed ps3" "length ps3 = length ps"
    using modify_opt_typed [OF 2(2), of h "\<lambda>m. m\<lparr>prev_pg := Some p\<rparr>"] assms(2,3) 2(3) by (auto simp: meta_typed_def)
  with 1 2 show ?thesis by (simp add: link_front_def)
qed

lemma unlink_front_typed:
  assumes "slice_typed ps" and "p < length ps"
  shows "\<exists>ps' h. unlink_front p ps = Inr (ps', h) \<and> slice_typed ps' \<and> length ps' = length ps \<and> link_ok (length ps) h"
  using modify_opt_typed [OF assms(1) slice_typed_nth(1) [OF assms], of "\<lambda>m. m\<lparr>prev_pg := None\<rparr>"] slice_typed_nth [OF assms] assms(2)
  by (auto simp: unlink_front_def meta_typed_def)

lemma unlink_typed:
  assumes "slice_typed ps" and "p < length ps" and "link_ok (length ps) h"
  shows "\<exists>ps' h'. unlink p h ps = Inr (ps', h') \<and> slice_typed ps' \<and> length ps' = length ps \<and> link_ok (length ps) h'"
proof -
  let ?prev = "prev_pg (ps ! p)" and ?nxt = "next_pg (ps ! p)"
  note l = slice_typed_nth [OF assms(1,2)]
  have "\<exists>ps1 h1. (case ?prev of Some q \<Rightarrow> and_then (modify_at (\<lambda>m. m\<lparr>next_pg := ?nxt\<rparr>) q ps) (\<lambda>ps. Inr (ps, h)) | None \<Rightarrow> Inr (ps, ?nxt))
      = Inr (ps1, h1) \<and> slice_typed ps1 \<and> length ps1 = length ps \<and> link_ok (length ps) h1"
  proof (cases ?prev)
    case (Some q)
    then show ?thesis using modify_at_typed [OF assms(1), of q "\<lambda>m. m\<lparr>next_pg := ?nxt\<rparr>"] l assms(3) by (auto simp: meta_typed_def)
  qed (use l assms(1) in simp)
  then obtain ps1 h1 where 1: "(case ?prev of Some q \<Rightarrow> and_then (modify_at (\<lambda>m. m\<lparr>next_pg := ?nxt\<rparr>) q ps) (\<lambda>ps. Inr (ps, h)) | None \<Rightarrow> Inr (ps, ?nxt))
      = Inr (ps1, h1)" "slice_typed ps1" "length ps1 = length ps" "link_ok (length ps) h1" by blast
  obtain ps2 where 2: "modify_opt (\<lambda>m. m\<lparr>prev_pg := ?prev\<rparr>) ?nxt ps1 = Inr ps2" "slice_typed ps2" "length ps2 = length ps"
    using modify_opt_typed [OF 1(2), of ?nxt "\<lambda>m. m\<lparr>prev_pg := ?prev\<rparr>"] l 1(3) by (auto simp: meta_typed_def)
  obtain ps3 where 3: "modify_at (\<lambda>m. m\<lparr>next_pg := None\<rparr>) p ps2 = Inr ps3" "slice_typed ps3" "length ps3 = length ps"
    using modify_at_typed [OF 2(2), of p "\<lambda>m. m\<lparr>next_pg := None\<rparr>"] assms(2) 2(3) by (auto simp: meta_typed_def)
  obtain ps4 where "modify_at (\<lambda>m. m\<lparr>prev_pg := None\<rparr>) p ps3 = Inr ps4" "slice_typed ps4" "length ps4 = length ps"
    using modify_at_typed [OF 3(2), of p "\<lambda>m. m\<lparr>prev_pg := None\<rparr>"] assms(2) 3(3) by (auto simp: meta_typed_def)
  with 1 2 3 assms(2) show ?thesis by (simp add: unlink_def Let_def)
qed

section \<open>Loops\<close>

text \<open>The array and the 4KB head, as the two loops of the allocator see them.\<close>

definition part_typed :: "usize \<Rightarrow> free_pages \<Rightarrow> bool" where
  "part_typed n v \<longleftrightarrow> slice_typed (fst v) \<and> length (fst v) = n \<and> link_ok n (snd v)"

lemma for_each_typed:
  assumes "\<And>p v. p \<in> set xs \<Longrightarrow> P v \<Longrightarrow> \<exists>w. body p v = Inr w \<and> P w" and "P v"
  shows "\<exists>w. for_each xs body v = Inr w \<and> P w"
  using assms by (induction xs arbitrary: v) (simp, fastforce)

lemma split_link_typed:
  assumes "part_typed n v" and "p < n"
  shows "\<exists>w. split_link p v = Inr w \<and> part_typed n w"
proof -
  have v: "slice_typed (fst v)" "length (fst v) = n" "link_ok n (snd v)" using assms(1) by (simp_all add: part_typed_def)
  obtain ps where "modify_at (\<lambda>m. m\<lparr>state := Free4KB\<rparr>) p (fst v) = Inr ps" "slice_typed ps" "length ps = n"
    using modify_at_typed [OF v(1), of p "\<lambda>m. m\<lparr>state := Free4KB\<rparr>"] v(2) assms(2) by (auto simp: meta_typed_def)
  with link_front_typed [of ps p "snd v"] v(3) assms(2) show ?thesis by (auto simp: split_link_def part_typed_def)
qed

lemma split_link_out:
  assumes "part_typed n v" and "n \<le> p"
  shows "split_link p v = Inl IndexOutOfBounds"
  using assms by (simp add: split_link_def part_typed_def)

lemma split_loop_typed:
  assumes "part_typed n v" and "a + k \<le> n"
  shows "\<exists>w. for_each [a..<a + k] split_link v = Inr w \<and> part_typed n w"
  using assms split_link_typed by (intro for_each_typed) auto

lemma split_loop_out:
  assumes "part_typed n v" and "a \<le> n" and "n < a + k"
  shows "for_each [a..<a + k] split_link v = Inl IndexOutOfBounds"
proof -
  have e: "[a..<a + k] = [a..<n] @ n # [Suc n..<a + k]"
    using assms(2,3) upt_add_eq_append [of a n "a + k - n"] by (simp add: upt_conv_Cons)
  from split_loop_typed [OF assms(1), of a "n - a"] assms(2) obtain w where
    "for_each [a..<n] split_link v = Inr w" "part_typed n w" by auto
  then show ?thesis unfolding e for_each_append by (simp add: split_link_out)
qed

lemma unlink_loop_typed:
  assumes "part_typed n v" and "\<forall>p\<in>set xs. p < n"
  shows "\<exists>w. for_each xs unlink_link v = Inr w \<and> part_typed n w"
proof (rule for_each_typed [where P = "part_typed n", OF _ assms(1)])
  fix p v assume "p \<in> set xs" "part_typed n v"
  then show "\<exists>w. unlink_link p v = Inr w \<and> part_typed n w"
    using unlink_typed [of "fst v" p "snd v"] assms(2) by (auto simp: unlink_link_def part_typed_def)
qed

section \<open>Operations\<close>

text \<open>An operation that changes only the array and the two heads leaves the other requirements alone.\<close>

lemma well_typed_put:
  assumes "well_typed s" and "slice_typed ps" and "length ps = length (pages s)"
    and "link_ok (length ps) h4" and "link_ok (length ps) h2"
  shows "well_typed (set_head_2mb h2 (set_head_4kb h4 (set_pages ps s)))"
  using assms by (simp add: well_typed_def)

lemma page_in_range:
  assumes "well_typed s" and "p < length (pages s)"
  shows "p * PAGE_SIZE_4KB < usize_limit" "p * PAGE_SIZE_4KB + PAGE_SIZE_4KB \<le> length (pages s) * PAGE_SIZE_4KB"
proof -
  have "Suc p * PAGE_SIZE_4KB \<le> length (pages s) * PAGE_SIZE_4KB" using assms(2) by (intro mult_right_mono) simp_all
  moreover have "length (pages s) * PAGE_SIZE_4KB < usize_limit" using assms(1) by (simp add: well_typed_def)
  ultimately show "p * PAGE_SIZE_4KB < usize_limit" "p * PAGE_SIZE_4KB + PAGE_SIZE_4KB \<le> length (pages s) * PAGE_SIZE_4KB"
    by simp_all
qed

lemma sp_block_in_range:
  assumes "well_typed s" and "p < length (pages s)" and "sp = p div PAGES_PER_2MB * PAGES_PER_2MB"
  shows "sp + PAGES_PER_2MB \<le> length (pages s)"
proof -
  obtain k where k: "length (pages s) = k * PAGES_PER_2MB" using assms(1) unfolding well_typed_def by (metis dvd_def mult.commute)
  then have "p div PAGES_PER_2MB < k" using assms(2) by (simp add: less_mult_imp_div_less)
  then have "Suc (p div PAGES_PER_2MB) * PAGES_PER_2MB \<le> k * PAGES_PER_2MB" by (intro mult_right_mono) simp_all
  then show ?thesis using k assms(3) by simp
qed

definition allocated_ok :: "page_allocator \<Rightarrow> usize option \<times> page_allocator \<Rightarrow> bool" where
  "allocated_ok s = (\<lambda>(r, t). well_typed t \<and> length (pages t) = length (pages s) \<and>
     (case r of None \<Rightarrow> True | Some a \<Rightarrow> PAGE_SIZE_4KB dvd a \<and> a + PAGE_SIZE_4KB \<le> length (pages s) * PAGE_SIZE_4KB))"

lemma alloc_2mb_typed:
  assumes "well_typed s"
  shows "\<exists>v. alloc_2mb s = Inr v \<and> allocated_ok s v"
proof (cases "head_2mb s")
  case None
  then show ?thesis using assms alloc_2mb_empty [of s] by (auto simp: well_typed_def allocated_ok_def)
next
  case (Some p)
  have u: "unlocked s" "slice_typed (pages s)" "p < length (pages s)" using assms Some by (auto simp: well_typed_def)
  from unlink_front_typed [OF u(2,3)] obtain ps h where
    1: "unlink_front p (pages s) = Inr (ps, h)" "slice_typed ps" "length ps = length (pages s)" "link_ok (length ps) h" by auto
  then have "slice_typed (ps[p := taken (ps ! p)])" by (intro slice_typed_update) (simp_all add: taken_def meta_typed_def)
  moreover have "link_ok (length ps) (head_4kb s)" using assms 1(3) by (simp add: well_typed_def)
  ultimately have "well_typed (set_head_2mb h (set_pages (ps[p := taken (ps ! p)]) s))"
    using assms 1(3,4) by (simp add: well_typed_def)
  then show ?thesis using alloc_2mb_exec [OF u(1) Some 1(1)] u(3) 1(3) page_in_range [OF assms u(3)] by (simp add: allocated_ok_def)
qed

lemma alloc_4kb_take_typed:
  assumes "well_typed s" and "head_4kb s = Some p"
  shows "\<exists>v. alloc_4kb s = Inr v \<and> allocated_ok s v"
proof -
  have u: "unlocked s" "slice_typed (pages s)" "p < length (pages s)" using assms by (auto simp: well_typed_def)
  from unlink_front_typed [OF u(2,3)] obtain ps h where
    1: "unlink_front p (pages s) = Inr (ps, h)" "slice_typed ps" "length ps = length (pages s)" "link_ok (length ps) h" by auto
  let ?sp = "p div PAGES_PER_2MB * PAGES_PER_2MB" and ?ps = "ps[p := taken (ps ! p)]"
  have t: "slice_typed ?ps" using 1 by (intro slice_typed_update) (simp_all add: taken_def meta_typed_def)
  have "?sp < length ?ps" using u(3) 1(3) by simp (metis div_times_less_eq_dividend le_less_trans)
  then have "slice_typed (?ps[?sp := (?ps ! ?sp)\<lparr>counter := saturating_sub (counter (?ps ! ?sp)) 1\<rparr>])"
    using slice_typed_nth [OF t] by (intro slice_typed_update [OF t]) (simp add: meta_typed_def)
  then have "well_typed (set_head_4kb h (set_pages (let ps = ?ps in ps[?sp := (ps ! ?sp)\<lparr>counter := saturating_sub (counter (ps ! ?sp)) 1\<rparr>]) s))"
    unfolding Let_def using assms(1) 1(3,4) by (simp add: well_typed_def)
  then show ?thesis
    using alloc_4kb_exec [OF u(1) assms(2) 1(1) _ _ refl] u(3) 1(3) page_in_range [OF assms(1) u(3)] by (simp add: allocated_ok_def Let_def)
qed

text \<open>A superpage that reaches beyond the array cannot be split: the loop panics at the first index out of range.\<close>

lemma split_2mb_fails:
  assumes "unlocked s" and "head_2mb s = Some p" and "unlink_front p (pages s) = Inr (ps, h)" and "p < length ps"
    and "for_each [p..<p + PAGES_PER_2MB] split_link
           (ps[p := (ps ! p)\<lparr>counter := of_nat PAGES_PER_2MB\<rparr>], head_4kb s) = Inl e"
  shows "split_2mb s = Inl e"
  using assms
  by (elim unlocked_cases) (simp add: split_2mb_def split_loop_lift free_part_def modify_page_def lock_exec access_exec)

lemma split_2mb_typed:
  assumes "well_typed s" and "head_2mb s = Some p"
  shows "if p + PAGES_PER_2MB \<le> length (pages s)
    then \<exists>t. split_2mb s = Inr (Some (), t) \<and> well_typed t \<and> length (pages t) = length (pages s)
    else split_2mb s = Inl IndexOutOfBounds"
proof -
  let ?n = "length (pages s)"
  have u: "unlocked s" "slice_typed (pages s)" "p < ?n" using assms by (auto simp: well_typed_def)
  from unlink_front_typed [OF u(2,3)] obtain ps h where
    1: "unlink_front p (pages s) = Inr (ps, h)" "slice_typed ps" "length ps = ?n" "link_ok ?n h" by auto
  let ?v = "(ps[p := (ps ! p)\<lparr>counter := of_nat PAGES_PER_2MB\<rparr>], head_4kb s)"
  have p: "p < length ps" using u(3) 1(3) by simp
  have "slice_typed (ps[p := (ps ! p)\<lparr>counter := of_nat PAGES_PER_2MB\<rparr>])"
    using slice_typed_nth [OF 1(2) p] by (intro slice_typed_update [OF 1(2)]) (simp add: meta_typed_def)
  then have v: "part_typed ?n ?v" using assms(1) 1(3) by (simp add: part_typed_def well_typed_def)
  show ?thesis
  proof (cases "p + PAGES_PER_2MB \<le> ?n")
    case True
    from split_loop_typed [OF v True] obtain w where
      w: "for_each [p..<p + PAGES_PER_2MB] split_link ?v = Inr w" "part_typed ?n w" by blast
    have "well_typed (put_free_part w (set_head_2mb h s))"
      using w(2) assms(1) 1(4) by (simp add: well_typed_def part_typed_def put_free_part_def)
    moreover have "length (pages (put_free_part w (set_head_2mb h s))) = ?n" using w(2) by (simp add: part_typed_def put_free_part_def)
    ultimately show ?thesis using split_2mb_exec [OF u(1) assms(2) 1(1) p w(1)] True by simp
  next
    case False
    then show ?thesis using split_2mb_fails [OF u(1) assms(2) 1(1) p split_loop_out [OF v]] u(3) by simp
  qed
qed

lemma alloc_4kb_typed:
  assumes "well_typed s"
  shows "(\<exists>v. alloc_4kb s = Inr v \<and> allocated_ok s v) \<or>
    (alloc_4kb s = Inl IndexOutOfBounds \<and> head_4kb s = None \<and> (\<exists>p. head_2mb s = Some p \<and> length (pages s) < p + PAGES_PER_2MB))"
proof (cases "head_4kb s")
  case None
  have u: "unlocked s" using assms by (simp add: well_typed_def)
  show ?thesis
  proof (cases "head_2mb s")
    case None
    then show ?thesis using alloc_4kb_empty [OF u \<open>head_4kb s = None\<close>] assms by (simp add: allocated_ok_def)
  next
    case (Some p)
    show ?thesis
    proof (cases "p + PAGES_PER_2MB \<le> length (pages s)")
      case True
      with split_2mb_typed [OF assms Some] obtain t where
        t: "split_2mb s = Inr (Some (), t)" "well_typed t" "length (pages t) = length (pages s)" by auto
      obtain q where "head_4kb t = Some q" using split_2mb_head [OF t(1)] by auto
      from alloc_4kb_take_typed [OF t(2) this] have "\<exists>v. alloc_4kb t = Inr v \<and> allocated_ok s v" unfolding allocated_ok_def t(3) .
      then show ?thesis using t(1) alloc_4kb_empty [OF u None] Some by simp
    next
      case False
      then show ?thesis using split_2mb_typed [OF assms Some] alloc_4kb_empty [OF u None] None Some by simp
    qed
  qed
qed (use alloc_4kb_take_typed [OF assms] in auto)

lemma try_merge_typed:
  assumes "well_typed s" and "p < length (pages s)"
  shows "\<exists>t. try_merge p s = Inr t \<and> well_typed t \<and> length (pages t) = length (pages s)"
proof -
  let ?n = "length (pages s)"
  define sp where "sp = p div PAGES_PER_2MB * PAGES_PER_2MB"
  have u: "unlocked s" "sp + PAGES_PER_2MB \<le> ?n" using assms sp_block_in_range [OF assms sp_def] by (simp_all add: well_typed_def)
  then have xs: "\<forall>q\<in>set [sp..<sp + PAGES_PER_2MB]. q < ?n" and n: "sp < ?n" by (auto simp: page_consts)
  show ?thesis
  proof (cases "\<forall>q\<in>set [sp..<sp + PAGES_PER_2MB]. state (pages s ! q) = Free4KB")
    case False
    then show ?thesis using try_merge_skip [OF u(1) _ sp_def] all_free_iff [of "[sp..<sp + PAGES_PER_2MB]" "pages s"] xs assms(1) by auto
  next
    case True
    then have f: "all_free [sp..<sp + PAGES_PER_2MB] (pages s) = Inr True"
      using all_free_iff [of "[sp..<sp + PAGES_PER_2MB]" "pages s"] xs by auto
    have "part_typed ?n (pages s, head_4kb s)" using assms(1) by (simp add: part_typed_def well_typed_def)
    from unlink_loop_typed [OF this xs] obtain ps h4 where
      1: "for_each [sp..<sp + PAGES_PER_2MB] unlink_link (pages s, head_4kb s) = Inr (ps, h4)"
        "slice_typed ps" "length ps = ?n" "link_ok ?n h4" by (auto simp: part_typed_def)
    let ?ps = "ps[sp := (ps ! sp)\<lparr>state := Free2MB, counter := of_nat PAGES_PER_2MB\<rparr>]"
    have sp: "sp < length ps" using n 1(3) by simp
    then have "slice_typed ?ps" using slice_typed_nth [OF 1(2)] by (intro slice_typed_update [OF 1(2)]) (simp add: meta_typed_def)
    from link_front_typed [OF this, of sp "head_2mb s"] n 1(3) assms(1) obtain ps' where
      2: "link_front sp (head_2mb s) ?ps = Inr (ps', Some sp)" "slice_typed ps'" "length ps' = ?n" by (auto simp: well_typed_def)
    have "well_typed (set_head_2mb (Some sp) (set_head_4kb h4 (set_pages ps' s)))"
      using 1(4) 2(2,3) n by (intro well_typed_put [OF assms(1)]) simp_all
    then show ?thesis using try_merge_exec [OF u(1) sp_def f 1(1) sp 2(1)] 2(3) by simp
  qed
qed

lemma free_4kb_typed:
  assumes "well_typed s"
  shows "\<exists>t. free_4kb p s = Inr t \<and> well_typed t \<and> length (pages t) = length (pages s)"
proof -
  let ?n = "length (pages s)"
  have u: "unlocked s" "slice_typed (pages s)" "link_ok ?n (head_4kb s)" using assms by (simp_all add: well_typed_def)
  consider "?n \<le> p" | "p < ?n" "state (pages s ! p) = Free4KB" | "p < ?n" "state (pages s ! p) \<noteq> Free4KB" by fastforce
  then show ?thesis
  proof cases
    case 3
    define sp where "sp = p div PAGES_PER_2MB * PAGES_PER_2MB"
    let ?ps = "(pages s)[p := (pages s ! p)\<lparr>state := Free4KB\<rparr>]"
    let ?ps' = "?ps[sp := (?ps ! sp)\<lparr>counter := saturating_add (counter (?ps ! sp)) 1\<rparr>]"
    have sp: "sp < ?n" using sp_block_in_range [OF assms 3(1) sp_def] by (simp add: page_consts)
    have t1: "slice_typed ?ps" using slice_typed_nth [OF u(2) 3(1)] by (intro slice_typed_update [OF u(2)]) (simp add: meta_typed_def)
    have "slice_typed ?ps'" using slice_typed_nth [OF t1, of sp] sp by (intro slice_typed_update [OF t1]) (simp add: meta_typed_def)
    from link_front_typed [OF this, of p "head_4kb s"] 3(1) u(3) obtain ps where
      l: "link_front p (head_4kb s) ?ps' = Inr (ps, Some p)" "slice_typed ps" "length ps = ?n" by auto
    have "\<And>x. head_4kb s = Some x \<Longrightarrow> x < length ?ps'" using u(3) by simp
    from link_front_checked_eq [of "head_4kb s", OF this, where p = p] have "link_front_checked p (head_4kb s) ?ps' = Inr (ps, Some p)" unfolding l(1) .
    then have i: "free_4kb_insert p s = Inr (counter (?ps' ! sp) = of_nat PAGES_PER_2MB, set_head_4kb (Some p) (set_pages ps s))"
      by (rule free_4kb_insert_exec [OF u(1) 3 sp_def refl refl])
    have w: "well_typed (set_head_4kb (Some p) (set_pages ps s))" using assms l(2,3) 3(1) by (simp add: well_typed_def)
    then show ?thesis using i try_merge_typed [OF w, of p] l(3) 3(1) by (simp add: free_4kb_def)
  qed (use assms u(1) free_4kb_out_of_range [of s p] free_4kb_already [of s p] in simp_all)
qed

lemma free_2mb_typed:
  assumes "well_typed s"
  shows "if p div PAGES_PER_2MB * PAGES_PER_2MB < length (pages s)
    then \<exists>t. free_2mb p s = Inr t \<and> well_typed t \<and> length (pages t) = length (pages s) else free_2mb p s = Inl IndexOutOfBounds"
proof -
  let ?n = "length (pages s)"
  define sp where "sp = p div PAGES_PER_2MB * PAGES_PER_2MB"
  have u: "unlocked s" "slice_typed (pages s)" "link_ok ?n (head_2mb s)" using assms by (simp_all add: well_typed_def)
  consider "?n \<le> sp" | "sp < ?n" "state (pages s ! sp) = Free2MB" | "sp < ?n" "state (pages s ! sp) \<noteq> Free2MB" by fastforce
  then show ?thesis
  proof cases
    case 1
    then show ?thesis using free_2mb_out_of_range [OF u(1), of p] by (simp add: sp_def)
  next
    case 2
    then have "free_2mb p s = Inr s" using u(1) unfolding sp_def
      by (elim unlocked_cases) (simp add: free_2mb_def lock_exec access_exec)
    then show ?thesis using assms 2(1) by (simp add: sp_def)
  next
    case 3
    let ?ps = "(pages s)[sp := (pages s ! sp)\<lparr>state := Free2MB, counter := of_nat PAGES_PER_2MB\<rparr>]"
    have "slice_typed ?ps" using slice_typed_nth [OF u(2) 3(1)] by (intro slice_typed_update [OF u(2)]) (simp add: meta_typed_def)
    from link_front_typed [OF this, of sp "head_2mb s"] 3(1) u(3) obtain ps where
      l: "link_front sp (head_2mb s) ?ps = Inr (ps, Some sp)" "slice_typed ps" "length ps = ?n" by auto
    have "well_typed (set_head_2mb (Some sp) (set_pages ps s))" using assms l(2,3) 3(1) by (simp add: well_typed_def)
    then show ?thesis using free_2mb_exec [OF u(1) sp_def 3 l(1)] l(3) 3(1) by (simp add: sp_def)
  qed
qed

end
