(* ===== verification/Type_Safety.thy ===== *)
theory Type_Safety
  imports Page_Types Samples
begin

text \<open>
  Types from start-up on: whatever the boot information contains, a page allocator that start-up leaves is well typed, and
  arbitrary calls of clients keep it so.
\<close>

section \<open>Start-up\<close>

lemma for_areas_keeps:
  assumes "\<And>area s s'. P s \<Longrightarrow> body area s = Inr s' \<Longrightarrow> P s'" and "for_areas mem body it s = Some (Inr t)" and "P s"
  shows "P t"
proof -
  have "b = body \<longrightarrow> P s \<longrightarrow> (\<forall>t. r = Inr t \<longrightarrow> P t)" if "for_areas m b i s = Some r" for m b i s r
  proof (rule for_areas.raw_induct [where P = "\<lambda>m b i s r. b = body \<longrightarrow> P s \<longrightarrow> (\<forall>t. r = Inr t \<longrightarrow> P t)", OF _ that], goal_cases)
    case (1 f m b i s r)
    show ?case
    proof (intro impI allI)
      fix t
      assume h: "b = body" "P s" "r = Inr t"
      show "P t"
      proof (cases "next_area m i")
        case (Inr v)
        obtain o' i' where v: "v = (o', i')" by (cases v)
        show ?thesis
        proof (cases o')
          case None
          then show ?thesis using 1(2) h Inr v by simp
        next
          case (Some area)
          then obtain s' where "body area s = Inr s'" "f m body i' s' = Some (Inr t)" using 1(2) h Inr v by (simp split: sum.splits)
          then show ?thesis using 1(1) assms(1) [OF h(2)] by blast
        qed
      qed (use 1(2) h in simp)
    qed
  qed
  then show ?thesis using assms(2,3) by blast
qed

lemma slice_typed_fresh [simp]: "slice_typed (replicate n new_metadata)"
  by (simp add: slice_typed_def list_all_iff meta_typed_def new_metadata_def)

lemma slice_typed_marked: "slice_typed ps \<Longrightarrow> slice_typed (marked lo hi ps)"
  by (simp add: slice_typed_def list_all_length marked_def meta_typed_def)

text \<open>The requirements that hold while the lists are not yet built.\<close>

definition array_typed :: "page_allocator \<Rightarrow> bool" where
  "array_typed s \<longleftrightarrow> unlocked s \<and> slice_typed (pages s) \<and> PAGES_PER_2MB dvd length (pages s) \<and>
     length (pages s) * PAGE_SIZE_4KB < usize_limit"

lemma place_array_typed:
  assumes "unlocked s" and "place_array end_sym meta_size raw m s = Inr (log, t)"
  shows "array_typed t"
proof -
  let ?max = "(m + (PAGE_SIZE_2MB - 1)) div PAGE_SIZE_2MB * PAGE_SIZE_2MB"
  have m: "m + PAGE_SIZE_2MB < usize_limit"
    using assms(2) by (auto simp: place_array_def round_up_def checked_add_def and_then_eq_Inr split: if_splits)
  let ?n = "(m + (PAGE_SIZE_2MB - 1)) div PAGE_SIZE_2MB * PAGES_PER_2MB"
  have e: "?max = ?n * PAGE_SIZE_4KB" by (simp add: page_consts)
  have n: "?max div PAGE_SIZE_4KB = ?n" unfolding e by (rule nonzero_mult_div_cancel_right) simp
  have "?n * PAGE_SIZE_4KB = ?max" by (rule e [symmetric])
  also have "\<dots> < m + PAGE_SIZE_2MB" by (rule round_up_bounds) (simp add: PAGE_SIZE_2MB_def)
  finally have b: "?n * PAGE_SIZE_4KB < usize_limit" using m by simp
  have "unlocked t \<and> pages t = replicate ?n new_metadata"
    using assms unfolding place_array_def round_up_2mb [OF m] and_then_Inr Let_def n clear_loop
    by (elim unlocked_cases) (auto simp: and_then_eq_Inr store_kernel_end_def lock_exec access_exec unlocked_def)
  then show ?thesis using b by (simp add: array_typed_def)
qed

lemma mark_area_typed:
  assumes "array_typed s" and "mark_area area s = Inr t"
  shows "array_typed t"
proof (cases "area_typ area = 1")
  case True
  let ?b = "unat (base_addr area)" and ?l = "unat (area_length area)"
  have s: "unlocked s" "slice_typed (pages s)" "length (pages s) * PAGE_SIZE_4KB < usize_limit" using assms(1) by (simp_all add: array_typed_def)
  have "?b + ?l < usize_limit"
    using assms(2) True by (auto simp: mark_area_def mark_available_def checked_add_def and_then_eq_Inr split: if_splits)
  from mark_available_exec [OF s(1) this s(3) refl] assms True show ?thesis
    using slice_typed_marked [OF s(2)] by (auto simp: mark_area_def array_typed_def)
qed (use assms in \<open>simp add: mark_area_def\<close>)

lemma build_body_typed:
  assumes "p < n" and "slice_typed ps" and "length ps = n" and "link_ok n h4" and "link_ok n h2"
  shows "\<exists>ps' h4' h2'. build_body p (ps, h4, h2) = Inr (ps', h4', h2') \<and> slice_typed ps' \<and> length ps' = n \<and> link_ok n h4' \<and> link_ok n h2'"
  using assms link_front_typed [OF assms(2), of p h4] link_front_typed [OF assms(2), of p h2]
  by (cases "state (ps ! p)") (auto simp: build_body_def)

lemma build_lists_typed:
  assumes "array_typed s"
  shows "\<exists>t. build_lists s = Inr t \<and> well_typed t"
proof -
  let ?n = "length (pages s)"
  let ?P = "\<lambda>(ps, h4, h2). slice_typed ps \<and> length ps = ?n \<and> link_ok ?n h4 \<and> link_ok ?n h2"
  have s: "unlocked s" "?P (pages s, None, None)" using assms by (simp_all add: array_typed_def)
  have "\<exists>w. for_each [0..<?n] build_body (pages s, None, None) = Inr w \<and> ?P w"
  proof (rule for_each_typed [where P = ?P, OF _ s(2)])
    fix p v
    assume h: "p \<in> set [0..<?n]" "?P v"
    obtain ps h4 h2 where v: "v = (ps, h4, h2)" by (cases v)
    with h show "\<exists>w. build_body p v = Inr w \<and> ?P w" using build_body_typed [of p ?n ps h4 h2] by fastforce
  qed
  then obtain ps h4 h2 where w: "for_each [0..<?n] build_body (pages s, None, None) = Inr (ps, h4, h2)" "?P (ps, h4, h2)" by auto
  have "build_lists s = Inr (set_head_2mb h2 (set_head_4kb h4 (set_pages ps s)))"
    using s(1) w(1) by (elim unlocked_cases) (simp add: build_lists_def store_4kb_def store_2mb_def lock_exec access_exec)
  moreover have "well_typed (set_head_2mb h2 (set_head_4kb h4 (set_pages ps s)))"
    using w(2) assms by (simp add: well_typed_def array_typed_def)
  ultimately show ?thesis by blast
qed

lemma count_free_same: "unlocked s \<Longrightarrow> count_free s = Inr (l, t) \<Longrightarrow> t = s"
  by (elim unlocked_cases) (auto simp: count_free_def and_then_eq_Inr lock_exec access_exec)

lemma memory_init_typed:
  assumes "unlocked s" and "memory_init end_sym meta_size raw mem mem' addr s = Some (Inr (log, t))"
  shows "well_typed t"
proof -
  obtain mmap where "init_allocator end_sym meta_size raw mem mem' mmap s = Some (Inr (log, t))"
    using assms(2) by (auto simp: memory_init_def split: option.splits sum.splits)
  then obtain m l1 s1 it s2 s3 l2 where 1: "place_array end_sym meta_size raw m s = Inr (l1, s1)"
    "for_areas mem' mark_area it s1 = Some (Inr s2)" "build_lists s2 = Inr s3" "count_free s3 = Inr (l2, t)"
    by (auto simp: init_allocator_def and_then_eq_Inr split: option.splits sum.splits)
  have "array_typed s2" by (rule for_areas_keeps [where P = array_typed, OF _ 1(2) place_array_typed [OF assms(1) 1(1)]]) (rule mark_area_typed)
  from build_lists_typed [OF this] 1(3) have "well_typed s3" by auto
  moreover from this have "t = s3" using 1(4) by (auto simp: well_typed_def dest: count_free_same)
  ultimately show ?thesis by simp
qed

section \<open>Arbitrary clients\<close>

text \<open>A client that knows no rules: it asks for pages and releases any address with any size.\<close>

datatype page_call = Allocate page_size | Release usize page_size

definition page_step :: "page_call \<Rightarrow> page_allocator \<Rightarrow> page_allocator result" where
  "page_step c s = (case c of
     Allocate sz \<Rightarrow> and_then (allocate_page sz s) (\<lambda>(r, s). Inr s) | Release addr sz \<Rightarrow> free_page addr sz s)"

text \<open>The two indexing panics: splitting a page that reaches beyond the array, and releasing a superpage that is not in it.\<close>

definition index_panic :: "page_call \<Rightarrow> page_allocator \<Rightarrow> bool" where
  "index_panic c s = (case c of
     Allocate sz \<Rightarrow> sz = Size4KB \<and> head_4kb s = None \<and>
       (case head_2mb s of None \<Rightarrow> False | Some p \<Rightarrow> length (pages s) < p + PAGES_PER_2MB)
   | Release addr sz \<Rightarrow> sz = Size2MB \<and> length (pages s) \<le> addr div PAGE_SIZE_4KB div PAGES_PER_2MB * PAGES_PER_2MB)"

lemma page_step_typed:
  assumes "well_typed s"
  shows "if index_panic c s then page_step c s = Inl IndexOutOfBounds
    else \<exists>t. page_step c s = Inr t \<and> well_typed t \<and> length (pages t) = length (pages s)"
proof (cases c)
  case (Allocate sz)
  show ?thesis
  proof (cases sz)
    case Size4KB
    have "\<not> index_panic c s \<Longrightarrow> alloc_4kb s \<noteq> Inl IndexOutOfBounds" "index_panic c s \<Longrightarrow> alloc_4kb s = Inl IndexOutOfBounds"
      using alloc_4kb_typed [OF assms] alloc_4kb_empty [of s] split_2mb_typed [OF assms] assms Allocate Size4KB
      by (auto simp: index_panic_def well_typed_def split: option.splits)
    then show ?thesis using alloc_4kb_typed [OF assms] Allocate Size4KB
      by (auto simp: page_step_def allocate_page_def allocated_ok_def)
  next
    case Size2MB
    then show ?thesis using alloc_2mb_typed [OF assms] Allocate
      by (auto simp: page_step_def allocate_page_def allocated_ok_def index_panic_def)
  qed
next
  case (Release addr sz)
  then show ?thesis using free_4kb_typed [OF assms] free_2mb_typed [OF assms, of "addr div PAGE_SIZE_4KB"]
    by (cases sz) (auto simp: page_step_def free_page_def index_panic_def not_less)
qed

lemma page_steps_typed:
  assumes "well_typed s"
  shows "(\<exists>t. for_each calls page_step s = Inr t \<and> well_typed t \<and> length (pages t) = length (pages s)) \<or>
    (\<exists>before c after t. calls = before @ c # after \<and> for_each before page_step s = Inr t \<and> well_typed t \<and> index_panic c t \<and>
       for_each calls page_step s = Inl IndexOutOfBounds)"
  using assms
proof (induction calls arbitrary: s)
  case (Cons c calls)
  show ?case
  proof (cases "index_panic c s")
    case True
    then have "page_step c s = Inl IndexOutOfBounds" using page_step_typed [OF Cons.prems, of c] by simp
    then show ?thesis using True Cons.prems by (intro disjI2 exI [of _ "[]"]) auto
  next
    case False
    then obtain u where u: "page_step c s = Inr u" "well_typed u" "length (pages u) = length (pages s)"
      using page_step_typed [OF Cons.prems, of c] by auto
    from Cons.IH [OF u(2)] show ?thesis
    proof (elim disjE exE conjE)
      fix before d after t
      assume "calls = before @ d # after" "for_each before page_step u = Inr t" "well_typed t" "index_panic d t"
        "for_each calls page_step u = Inl IndexOutOfBounds"
      then show ?thesis using u(1) by (intro disjI2 exI [of _ "c # before"]) auto
    qed (use u in auto)
  qed
qed simp

text \<open>
  C12: every index in the allocator's state stays inside the page array. Whatever the boot information was, if start-up
  returns, then after any calls of clients, correct or not, the two heads and all links are indices of the array, no
  lock is held, and the only possible failure is a panic of the bounds check in the two situations of \<open>index_panic\<close>: no
  overflow and no deadlock.
\<close>

theorem allocator_type_safe:
  assumes "unlocked s" and "memory_init end_sym meta_size raw mem mem' addr s = Some (Inr (log, t))"
  shows "(\<exists>u. for_each calls page_step t = Inr u \<and> well_typed u \<and> length (pages u) = length (pages t)) \<or>
    (\<exists>before c after u. calls = before @ c # after \<and> for_each before page_step t = Inr u \<and> well_typed u \<and> index_panic c u \<and>
       for_each calls page_step t = Inl IndexOutOfBounds)"
  using page_steps_typed [OF memory_init_typed [OF assms]] .

theorem allocator_type_safe_witness:
  "\<exists>log t u. memory_init 0x150000 40 (\<lambda>_. new_metadata) sample_memory sample_memory 0x10000 (new_allocator 2) = Some (Inr (log, t)) \<and>
     for_each [Release 0x200000 Size4KB, Allocate Size2MB] page_step t = Inr u \<and> well_typed u"
proof -
  let ?calls = "[Release 0x200000 Size4KB, Allocate Size2MB]"
  obtain log t where t: "memory_init 0x150000 40 (\<lambda>_. new_metadata) sample_memory sample_memory 0x10000 (new_allocator 2) = Some (Inr (log, t))"
    using memory_init_rep [OF sample_boot unlocked_new sample_free_kb] by blast
  have "\<not> index_panic c u" if "?calls = before @ c # after" for before c after u
  proof -
    have "c \<in> set ?calls" unfolding that by simp
    then show ?thesis by (auto simp: index_panic_def)
  qed
  with allocator_type_safe [OF unlocked_new t, of ?calls] t show ?thesis by blast
qed

end
