(* ===== verification/Heap_Client.thy ===== *)
theory Heap_Client
  imports Page_Props Bit_Fields
begin

text \<open>
  \<^verbatim>\<open>test_allocator\<close> of \<^verbatim>\<open>src/src/main.rs\<close>: a client of the kernel's heap that boxes a number, grows a vector and boxes an
  array. \<^verbatim>\<open>Box\<close>, \<^verbatim>\<open>Vec\<close> and the default \<^verbatim>\<open>realloc\<close> of Rust's library are modelled as far as it uses them, with the bytes
  they write; a failed request ends in the kernel's \<^verbatim>\<open>alloc_error_handler\<close>, which panics.
\<close>

section \<open>Boxes and vectors\<close>

definition store_bytes :: "usize \<Rightarrow> u8 list \<Rightarrow> memory \<Rightarrow> memory" where
  "store_bytes p bs mem = (\<lambda>a. if p \<le> a \<and> a < p + length bs then bs ! (a - p) else mem a)"

definition copy_bytes :: "usize \<Rightarrow> usize \<Rightarrow> nat \<Rightarrow> memory \<Rightarrow> memory" where
  "copy_bytes src dst n mem = store_bytes dst (map (\<lambda>i. mem (src + i)) [0..<n]) mem"

definition alloc_error :: failure where
  "alloc_error = PanicMsg ''Allocation error: {:?}''"

definition box_new :: "layout \<Rightarrow> u8 list \<Rightarrow> memory \<times> page_allocator \<Rightarrow> (usize \<times> memory \<times> page_allocator) result" where
  "box_new lay bs = (\<lambda>(mem, s). and_then (heap_alloc lay s) (\<lambda>(p, s).
     if p = 0 then Inl alloc_error else Inr (p, store_bytes p bs mem, s)))"

text \<open>\<^verbatim>\<open>SimpleAllocator\<close> does not override \<^verbatim>\<open>GlobalAlloc::realloc\<close>: allocate, copy, release.\<close>

definition heap_realloc :: "usize \<Rightarrow> layout \<Rightarrow> usize \<Rightarrow> memory \<times> page_allocator \<Rightarrow> (usize \<times> memory \<times> page_allocator) result" where
  "heap_realloc p lay new_size = (\<lambda>(mem, s).
     and_then (heap_alloc (lay\<lparr>layout_size := new_size\<rparr>) s) (\<lambda>(q, s).
     if q = 0 then Inr (0, mem, s)
     else let mem = copy_bytes p q (min (layout_size lay) new_size) mem in
          and_then (heap_dealloc p lay s) (\<lambda>s. Inr (q, mem, s))))"

text \<open>A \<^verbatim>\<open>Vec<i32>\<close>. An empty vector has no memory; its first growth is to four elements, later ones double the capacity.\<close>

record vec =
  vec_ptr :: usize
  vec_cap :: usize
  vec_len :: usize

definition vec_new :: vec where
  "vec_new = \<lparr>vec_ptr = 4, vec_cap = 0, vec_len = 0\<rparr>"

definition array_layout :: "usize \<Rightarrow> layout" where
  "array_layout cap = \<lparr>layout_size = 4 * cap, layout_align = 4\<rparr>"

definition grown_cap :: "usize \<Rightarrow> usize" where
  "grown_cap cap = max 4 (max (cap * 2) (cap + 1))"

definition grow_one :: "vec \<Rightarrow> memory \<times> page_allocator \<Rightarrow> (vec \<times> memory \<times> page_allocator) result" where
  "grow_one v = (\<lambda>(mem, s).
     let cap = grown_cap (vec_cap v) in
     if 2 ^ 63 - 4 < 4 * cap then Inl (PanicMsg ''capacity overflow'')
     else and_then (if vec_cap v = 0 then and_then (heap_alloc (array_layout cap) s) (\<lambda>(p, s). Inr (p, mem, s))
                    else heap_realloc (vec_ptr v) (array_layout (vec_cap v)) (4 * cap) (mem, s)) (\<lambda>(p, mem, s).
          if p = 0 then Inl alloc_error else Inr (v\<lparr>vec_ptr := p, vec_cap := cap\<rparr>, mem, s)))"

definition push :: "u32 \<Rightarrow> vec \<times> memory \<times> page_allocator \<Rightarrow> (vec \<times> memory \<times> page_allocator) result" where
  "push x = (\<lambda>(v, mem, s).
     and_then (if vec_len v = vec_cap v then grow_one v (mem, s) else Inr (v, mem, s)) (\<lambda>(v, mem, s).
     Inr (v\<lparr>vec_len := vec_len v + 1\<rparr>, store_bytes (vec_ptr v + 4 * vec_len v) (le_bytes 4 (unat x)) mem, s)))"

definition drop_vec :: "vec \<Rightarrow> page_allocator \<Rightarrow> page_allocator result" where
  "drop_vec v s = (if vec_cap v = 0 then Inr s else heap_dealloc (vec_ptr v) (array_layout (vec_cap v)) s)"

section \<open>The test\<close>

definition u64_layout :: layout where "u64_layout = \<lparr>layout_size = 8, layout_align = 8\<rparr>"
definition large_layout :: layout where "large_layout = \<lparr>layout_size = 1024, layout_align = 1\<rparr>"

text \<open>The values, up to the end of the function's body; then they are dropped in reverse order of declaration.\<close>

definition test_values :: "memory \<times> page_allocator \<Rightarrow> (usize \<times> vec \<times> usize \<times> memory \<times> page_allocator) result" where
  "test_values h =
     and_then (box_new u64_layout (le_bytes 8 42) h) (\<lambda>(boxed_value, h).
     and_then (for_each [1, 2, 3] push (vec_new, h)) (\<lambda>(v, h).
     and_then (box_new large_layout (replicate 1024 0) h) (\<lambda>(large_box, h).
     Inr (boxed_value, v, large_box, h))))"

definition test_allocator :: "memory \<times> page_allocator \<Rightarrow> (memory \<times> page_allocator) result" where
  "test_allocator h =
     and_then (test_values h) (\<lambda>(boxed_value, v, large_box, mem, s).
     and_then (heap_dealloc large_box large_layout s) (\<lambda>s.
     and_then (drop_vec v s) (\<lambda>s.
     and_then (heap_dealloc boxed_value u64_layout s) (\<lambda>s.
     Inr (mem, s)))))"

section \<open>What the heap promises its clients\<close>

text \<open>The 4KB pages that can still be allocated.\<close>

definition avail :: "frames \<Rightarrow> nat" where
  "avail a = length (free4 a) + PAGES_PER_2MB * length (free2 a)"

definition frames_for :: "page_size \<Rightarrow> nat" where
  "frames_for sz = (case sz of Size4KB \<Rightarrow> 1 | Size2MB \<Rightarrow> PAGES_PER_2MB)"

lemma avail_split: "avail (spec_split a) = avail a"
  by (cases "free2 a") (simp_all add: spec_split_def avail_def)

lemma avail_take: "fst (spec_take a) \<noteq> None \<Longrightarrow> avail (snd (spec_take a)) + 1 = avail a"
  by (cases "free4 a") (simp_all add: spec_take_def avail_def)

lemma avail_allocate:
  assumes "spec_allocate sz a = (Some p, b)"
  shows "avail b + frames_for sz = avail a"
proof (cases sz)
  case Size4KB
  let ?c = "if free4 a = [] then spec_split a else a"
  have "spec_take ?c = (Some p, b)" using assms Size4KB by (simp add: spec_allocate_def spec_alloc_4kb_def)
  with avail_take [of ?c] have "avail b + 1 = avail ?c" by simp
  then show ?thesis using avail_split [of a] Size4KB by (simp add: frames_for_def split: if_splits)
next
  case Size2MB
  then show ?thesis using assms by (cases "free2 a") (auto simp: spec_allocate_def spec_alloc_2mb_def avail_def frames_for_def)
qed

lemma spec_allocate_same: "spec_allocate sz a = (None, b) \<Longrightarrow> b = a"
  using spec_allocate_None [of a] by (cases sz) (auto simp: spec_allocate_def spec_alloc_4kb_def spec_alloc_2mb_def spec_take_def spec_split_def)

lemma avail_merge:
  assumes "distinct (free4 a)" and "PAGES_PER_2MB dvd h"
  shows "avail a \<le> avail (spec_merge h a)"
proof -
  have "set (filter (\<lambda>q. sp_of q = h) (free4 a)) \<subseteq> block h" using assms(2) by (auto simp: sp_of_eq_iff)
  then have "card (set (filter (\<lambda>q. sp_of q = h) (free4 a))) \<le> card (block h)" by (intro card_mono) (simp_all add: block_def)
  then have "length (filter (\<lambda>q. sp_of q = h) (free4 a)) \<le> PAGES_PER_2MB"
    using assms(1) distinct_card [of "filter (\<lambda>q. sp_of q = h) (free4 a)"] by (simp add: block_def)
  then show ?thesis using sum_length_filter_compl [of "\<lambda>q. sp_of q = h" "free4 a"] by (simp add: avail_def spec_merge_def)
qed

lemma avail_release:
  assumes "wf_frames lo n a" and "(p * PAGE_SIZE_4KB, sz) \<in> owned_blocks a"
  shows "avail a \<le> avail (spec_release p sz a)"
proof (cases sz)
  case Size4KB
  then have "p \<in> used4 a" using assms(2) by simp
  then have "distinct (free4 (spec_give p a))" using wf_D(3,5) [OF assms(1)] by (auto simp: spec_give_def)
  moreover have "avail a \<le> avail (spec_give p a)" by (simp add: avail_def spec_give_def)
  ultimately show ?thesis using Size4KB avail_merge [of "spec_give p a" "sp_of p"]
    by (simp add: spec_release_def spec_free_4kb_def Let_def)
qed (simp add: spec_release_def spec_free_2mb_def avail_def)

text \<open>\<open>serves s A n\<close>: the allocator's clients own the pages \<open>A\<close>, and at least \<open>n\<close> more 4KB pages can be had.\<close>

definition serves :: "page_allocator \<Rightarrow> page_block set \<Rightarrow> nat \<Rightarrow> bool" where
  "serves s A n \<longleftrightarrow> (\<exists>a. provides s a \<and> owned_blocks (snd a) = A \<and> n \<le> avail (snd a))"

lemma serves_disjoint: "serves s A n \<Longrightarrow> x \<in> A \<Longrightarrow> y \<in> A \<Longrightarrow> x \<noteq> y \<Longrightarrow> extent x \<inter> extent y = {}"
  using page_pool.disjoint_law unfolding serves_def by blast

lemma serves_le: "serves s A n \<Longrightarrow> m \<le> n \<Longrightarrow> serves s A m"
  unfolding serves_def by (metis le_trans)

lemma heap_alloc_serves:
  assumes "serves s A n" and "0 < layout_size lay"
  shows "(\<exists>t. heap_alloc lay s = Inr (0, t) \<and> serves t A n \<and> (n = 0 \<or> 4096 < layout_size lay)) \<or>
    (\<exists>p t. heap_alloc lay s = Inr (p, t) \<and> p \<noteq> 0 \<and> page_block_of (p, lay) \<notin> A \<and>
       serves t (insert (page_block_of (p, lay)) A) (n - frames_for (page_size_for lay)))"
proof -
  let ?sz = "page_size_for lay"
  from assms(1) obtain a where a: "rep (fst a) s (snd a)" "0 < fst a" "owned_blocks (snd a) = A" "n \<le> avail (snd a)"
    by (auto simp: serves_def provides_def)
  obtain q b where qb: "spec_allocate ?sz (snd a) = (q, b)" by (cases "spec_allocate ?sz (snd a)")
  from allocate_page_refines [OF a(1), of ?sz] obtain t where
    t: "allocate_page ?sz s = Inr (map_option (\<lambda>p. p * PAGE_SIZE_4KB) q, t)" "rep (fst a) t b" using qb by auto
  have h: "heap_alloc lay s = Inr (case q of None \<Rightarrow> 0 | Some p \<Rightarrow> p * PAGE_SIZE_4KB, t)"
    using page_pool.simple_alloc_eq [OF assms(2), of s] t(1) by (auto simp: heap_alloc_def split: option.splits)
  note o = spec_allocate_owned [OF repD(2) [OF a(1)] qb]
  have pr: "provides t (fst a, b)" using t(2) a(2) by (simp add: provides_def)
  show ?thesis
  proof (cases q)
    case None
    have "n = 0 \<or> 4096 < layout_size lay"
    proof (rule ccontr)
      assume "\<not> ?thesis"
      then have "?sz = Size4KB" "0 < avail (snd a)" using a(4) by (auto simp: page_size_for_def)
      then show False using qb None spec_allocate_None(1) [of "snd a"] by (auto simp: avail_def)
    qed
    moreover have "serves t A n"
      unfolding serves_def using pr a(3,4) spec_allocate_same [of ?sz "snd a" b] qb None by (intro exI [of _ "(fst a, b)"]) simp
    ultimately show ?thesis using h None by auto
  next
    case (Some p)
    then have o': "(p * PAGE_SIZE_4KB, ?sz) \<notin> A" "owned_blocks b = insert (p * PAGE_SIZE_4KB, ?sz) A" using o a(3) by auto
    then have "0 < p * PAGE_SIZE_4KB" using page_pool.aligned_law [OF pr, of "p * PAGE_SIZE_4KB" ?sz] by simp
    moreover have "serves t (insert (p * PAGE_SIZE_4KB, ?sz) A) (n - frames_for ?sz)"
      unfolding serves_def using pr o'(2) avail_allocate [of ?sz "snd a" p b] qb Some a(4) by (intro exI [of _ "(fst a, b)"]) simp
    ultimately show ?thesis using h Some o'(1) by (auto simp: page_block_of_def)
  qed
qed

lemma heap_dealloc_serves:
  assumes "serves s A n" and "page_block_of (p, lay) \<in> A" and "0 < layout_size lay"
  shows "\<exists>t. heap_dealloc p lay s = Inr t \<and> serves t (A - {page_block_of (p, lay)}) n"
proof -
  let ?sz = "page_size_for lay"
  from assms(1) obtain a where a: "rep (fst a) s (snd a)" "0 < fst a" "owned_blocks (snd a) = A" "n \<le> avail (snd a)"
    by (auto simp: serves_def provides_def)
  have own: "(p, ?sz) \<in> owned_blocks (snd a)" using assms(2) a(3) by (simp add: page_block_of_def)
  then obtain q where q: "p = q * PAGE_SIZE_4KB" by (auto elim: owned_blocks_cases)
  from free_page_refines [OF a(1)] own q obtain t where
    t: "free_page p ?sz s = Inr t" "rep (fst a) t (spec_release q ?sz (snd a))" by blast
  have "heap_dealloc p lay s = Inr t"
    using t(1) assms(3) by (auto simp: heap_dealloc_def simple_dealloc_def page_size_for_def split: if_splits)
  moreover have "serves t (A - {page_block_of (p, lay)}) n"
    unfolding serves_def using t(2) a(2-4) avail_release [OF repD(2) [OF a(1)], of q ?sz] own q
    by (intro exI [of _ "(fst a, spec_release q ?sz (snd a))"]) (simp add: provides_def spec_release_owned page_block_of_def)
  ultimately show ?thesis by blast
qed

section \<open>Bytes\<close>

lemma store_bytes_outside: "a < p \<or> p + length bs \<le> a \<Longrightarrow> store_bytes p bs mem a = mem a"
  by (auto simp: store_bytes_def)

lemma store_bytes_inside: "i < length bs \<Longrightarrow> store_bytes p bs mem (p + i) = bs ! i"
  by (simp add: store_bytes_def)

lemma read_le_of_bytes: "read_le mem a n = of_le_bytes (map (\<lambda>i. mem (a + i)) [0..<n])"
proof (induction n arbitrary: a)
  case (Suc n)
  have "map (\<lambda>i. mem (a + i)) [0..<Suc n] = mem a # map (\<lambda>i. mem (Suc a + i)) [0..<n]"
    by (simp only: upt_conv_Cons [OF zero_less_Suc] map_Suc_upt [symmetric]) simp
  then show ?case using Suc by simp
qed simp

lemma read_le_same: "(\<And>i. i < n \<Longrightarrow> mem (a + i) = mem' (b + i)) \<Longrightarrow> read_le mem a n = read_le mem' b n"
  unfolding read_le_of_bytes by (intro arg_cong [where f = of_le_bytes] map_cong) simp_all

lemma read_stored: "read_le (store_bytes p (le_bytes n x) mem) p n = x mod 256 ^ n"
proof -
  have "map (\<lambda>i. store_bytes p (le_bytes n x) mem (p + i)) [0..<n] = le_bytes n x"
    by (intro nth_equalityI) (simp_all add: store_bytes_inside)
  then show ?thesis by (simp add: read_le_of_bytes of_le_bytes_le_bytes)
qed

section \<open>Vectors on the heap\<close>

definition vec_blocks :: "vec \<Rightarrow> page_block set" where
  "vec_blocks v = (if vec_cap v = 0 then {} else {page_block_of (vec_ptr v, array_layout (vec_cap v))})"

definition vec_holds :: "vec \<Rightarrow> u32 list \<Rightarrow> memory \<Rightarrow> bool" where
  "vec_holds v xs mem \<longleftrightarrow> vec_len v = length xs \<and> length xs \<le> vec_cap v \<and> 4 * vec_cap v \<le> PAGE_SIZE_2MB \<and>
     (\<forall>i < length xs. read_le mem (vec_ptr v + 4 * i) 4 = unat (xs ! i))"

text \<open>Writes into a page a client owns leave the pages of \<open>R\<close> alone.\<close>

definition keeps :: "page_block set \<Rightarrow> memory \<Rightarrow> memory \<Rightarrow> bool" where
  "keeps R mem mem' \<longleftrightarrow> (\<forall>b\<in>R. \<forall>x\<in>extent b. mem' x = mem x)"

lemma keeps_refl [simp]: "keeps R mem mem"
  by (simp add: keeps_def)

lemma keeps_trans: "keeps R mem mem' \<Longrightarrow> keeps R mem' mem'' \<Longrightarrow> keeps R mem mem''"
  by (simp add: keeps_def)

lemma keeps_subset: "keeps R mem mem' \<Longrightarrow> S \<subseteq> R \<Longrightarrow> keeps S mem mem'"
  by (auto simp: keeps_def)

lemma store_keeps:
  assumes "serves s A n" and "page_block_of (p, lay) \<in> A" and "R \<subseteq> A" and "page_block_of (p, lay) \<notin> R"
    and "k + length bs \<le> layout_size lay" and "layout_size lay \<le> PAGE_SIZE_2MB"
  shows "keeps R mem (store_bytes (p + k) bs mem)"
  unfolding keeps_def
proof (intro ballI)
  fix b x
  assume b: "b \<in> R" "x \<in> extent b"
  then have "extent (page_block_of (p, lay)) \<inter> extent b = {}" using assms(2-4) by (intro serves_disjoint [OF assms(1)]) auto
  then have "x \<notin> heap_bytes (p, lay)" using heap_bytes_extent [of "(p, lay)"] assms(6) b(2) by auto
  then show "store_bytes (p + k) bs mem x = mem x" using assms(5) by (intro store_bytes_outside) (auto simp: heap_bytes_def)
qed

lemma moved_holds:
  assumes "vec_holds v xs mem" and "vec_cap v \<le> c" and "4 * c \<le> PAGE_SIZE_2MB"
  shows "vec_holds (v\<lparr>vec_ptr := p, vec_cap := c\<rparr>) xs (store_bytes p (map (\<lambda>i. mem (vec_ptr v + i)) [0..<4 * vec_cap v]) mem)"
    (is "vec_holds _ _ ?mem")
proof -
  have "read_le ?mem (p + 4 * i) 4 = unat (xs ! i)" if "i < length xs" for i
  proof -
    have "4 * i + 4 \<le> 4 * vec_cap v" using that assms(1) by (simp add: vec_holds_def)
    then have "read_le ?mem (p + 4 * i) 4 = read_le mem (vec_ptr v + 4 * i) 4"
      by (intro read_le_same) (simp add: store_bytes_def add.assoc)
    then show ?thesis using that assms(1) by (simp add: vec_holds_def)
  qed
  then show ?thesis using assms by (simp add: vec_holds_def)
qed

lemma grow_one_serves:
  assumes "serves s (vec_blocks v \<union> R) n" and "vec_blocks v \<inter> R = {}" and "vec_holds v xs mem"
    and "lay = array_layout (grown_cap (vec_cap v))" and "layout_size lay \<le> PAGE_SIZE_2MB"
  shows "(grow_one v (mem, s) = Inl alloc_error \<and> (n = 0 \<or> 4096 < layout_size lay)) \<or>
    (\<exists>w mem' t. grow_one v (mem, s) = Inr (w, mem', t) \<and> vec_cap w = grown_cap (vec_cap v) \<and> vec_holds w xs mem' \<and>
       serves t (vec_blocks w \<union> R) (n - frames_for (page_size_for lay)) \<and> vec_blocks w \<inter> R = {} \<and> keeps R mem mem')"
proof -
  let ?c = "grown_cap (vec_cap v)" and ?n = "n - frames_for (page_size_for lay)"
  have c: "0 < layout_size lay" "layout_size lay = 4 * ?c" "vec_cap v \<le> ?c" "\<not> 2 ^ 63 - 4 < 4 * ?c" "?c \<noteq> 0"
    using assms(4,5) by (auto simp: array_layout_def grown_cap_def page_consts)
  have lay: "(array_layout (vec_cap v))\<lparr>layout_size := 4 * ?c\<rparr> = lay" using assms(4) by (simp add: array_layout_def)
  from heap_alloc_serves [OF assms(1) c(1)] consider
    (none) t where "heap_alloc lay s = Inr (0, t)" "n = 0 \<or> 4096 < layout_size lay"
  | (some) p t where "heap_alloc lay s = Inr (p, t)" "p \<noteq> 0" "page_block_of (p, lay) \<notin> vec_blocks v \<union> R"
      "serves t (insert (page_block_of (p, lay)) (vec_blocks v \<union> R)) ?n" by blast
  then show ?thesis
  proof cases
    case none
    have "grow_one v (mem, s) = Inl alloc_error"
      using c(4) lay assms(4) none(1) by (cases "vec_cap v = 0") (simp_all add: grow_one_def heap_realloc_def Let_def)
    then show ?thesis using none(2) by blast
  next
    case p: (some p t)
    note t = p(4)
    let ?w = "v\<lparr>vec_ptr := p, vec_cap := ?c\<rparr>"
    have w: "vec_blocks ?w = {page_block_of (p, lay)}" using c(5) assms(4) by (simp add: vec_blocks_def)
    show ?thesis
    proof (cases "vec_cap v = 0")
      case True
      then have "xs = []" "vec_blocks v = {}" using assms(3) by (auto simp: vec_holds_def vec_blocks_def)
      moreover have "grow_one v (mem, s) = Inr (?w, mem, t)" using True c(4) p(1,2) assms(4) by (simp add: grow_one_def Let_def)
      ultimately show ?thesis using t w p(3) assms(3,5) c(2) by (intro disjI2 exI [of _ ?w] exI [of _ mem] exI [of _ t]) (simp add: vec_holds_def)
    next
      case False
      let ?old = "page_block_of (vec_ptr v, array_layout (vec_cap v))" and ?b = "map (\<lambda>i. mem (vec_ptr v + i)) [0..<4 * vec_cap v]"
      have old: "vec_blocks v = {?old}" using False by (simp add: vec_blocks_def)
      have "0 < layout_size (array_layout (vec_cap v))" using False by (simp add: array_layout_def)
      from heap_dealloc_serves [OF t _ this, of "vec_ptr v"] old obtain u where
        u: "heap_dealloc (vec_ptr v) (array_layout (vec_cap v)) t = Inr u"
          "serves u (insert (page_block_of (p, lay)) (vec_blocks v \<union> R) - {?old}) ?n" by auto
      have "insert (page_block_of (p, lay)) (vec_blocks v \<union> R) - {?old} = vec_blocks ?w \<union> R"
        using old p(3) assms(2) w by auto
      moreover have cp: "copy_bytes (vec_ptr v) p (min (4 * vec_cap v) (4 * ?c)) mem = store_bytes p ?b mem"
        using c(3) by (simp add: copy_bytes_def)
      have "grow_one v (mem, s) = Inr (?w, store_bytes p ?b mem, u)"
        unfolding grow_one_def heap_realloc_def Let_def
        using False c(4) p(1,2) u(1) lay cp by (simp add: array_layout_def)
      moreover have "keeps R mem (store_bytes (p + 0) ?b mem)"
        using t p(3) assms(5) c(2,3) by (intro store_keeps [where lay = lay]) auto
      moreover have "vec_holds ?w xs (store_bytes p ?b mem)" using assms(3,5) c(2,3) by (intro moved_holds) simp_all
      ultimately show ?thesis using u(2) w p(3) by (intro disjI2 exI [of _ ?w] exI [of _ "store_bytes p ?b mem"] exI [of _ u]) simp
    qed
  qed
qed

lemma appended_holds:
  assumes "vec_holds v xs mem" and "length xs < vec_cap v"
  shows "vec_holds (v\<lparr>vec_len := vec_len v + 1\<rparr>) (xs @ [x]) (store_bytes (vec_ptr v + 4 * vec_len v) (le_bytes 4 (unat x)) mem)"
    (is "vec_holds _ _ ?mem")
proof -
  have l: "vec_len v = length xs" using assms(1) by (simp add: vec_holds_def)
  have "read_le ?mem (vec_ptr v + 4 * i) 4 = unat ((xs @ [x]) ! i)" if "i < Suc (length xs)" for i
  proof (cases "i = length xs")
    case True
    have "unat x < 256 ^ 4" using unsigned_less [of x] by simp
    then show ?thesis using True l read_stored [of "vec_ptr v + 4 * length xs" 4 "unat x" mem] by simp
  next
    case False
    then have "i < length xs" using that by simp
    moreover have "read_le ?mem (vec_ptr v + 4 * i) 4 = read_le mem (vec_ptr v + 4 * i) 4"
      using \<open>i < length xs\<close> l by (intro read_le_same store_bytes_outside) simp
    ultimately show ?thesis using assms(1) by (simp add: vec_holds_def nth_append)
  qed
  then show ?thesis using assms l by (simp add: vec_holds_def)
qed

lemma vec_blocks_len [simp]: "vec_blocks (v\<lparr>vec_len := k\<rparr>) = vec_blocks v"
  by (simp add: vec_blocks_def)

lemma append_keeps:
  assumes "serves s (vec_blocks v \<union> R) n" and "vec_blocks v \<inter> R = {}" and "vec_holds v xs mem" and "length xs < vec_cap v"
  shows "keeps R mem (store_bytes (vec_ptr v + 4 * vec_len v) (le_bytes 4 y) mem)"
proof -
  have "vec_blocks v = {page_block_of (vec_ptr v, array_layout (vec_cap v))}" using assms(4) by (auto simp: vec_blocks_def)
  then show ?thesis
    using assms by (intro store_keeps [where lay = "array_layout (vec_cap v)"]) (auto simp: vec_holds_def array_layout_def)
qed

text \<open>The pages a push takes when the vector is full.\<close>

definition push_cap :: "vec \<Rightarrow> usize" where
  "push_cap v = (if vec_len v = vec_cap v then grown_cap (vec_cap v) else vec_cap v)"

definition push_frames :: "vec \<Rightarrow> nat" where
  "push_frames v = (if vec_len v = vec_cap v then frames_for (page_size_for (array_layout (push_cap v))) else 0)"

lemma push_serves:
  assumes "serves s (vec_blocks v \<union> R) n" and "vec_blocks v \<inter> R = {}" and "vec_holds v xs mem"
    and "4 * push_cap v \<le> PAGE_SIZE_2MB"
  shows "(push x (v, mem, s) = Inl alloc_error \<and> vec_len v = vec_cap v \<and> (n = 0 \<or> 4096 < 4 * push_cap v)) \<or>
    (\<exists>w mem' t. push x (v, mem, s) = Inr (w, mem', t) \<and> vec_cap w = push_cap v \<and> vec_holds w (xs @ [x]) mem' \<and>
       serves t (vec_blocks w \<union> R) (n - push_frames v) \<and> vec_blocks w \<inter> R = {} \<and> keeps R mem mem')"
proof -
  have l: "vec_len v = length xs" "length xs \<le> vec_cap v" using assms(3) by (simp_all add: vec_holds_def)
  consider (fits) "length xs < vec_cap v"
    | (failed) "vec_len v = vec_cap v" "grow_one v (mem, s) = Inl alloc_error" "n = 0 \<or> 4096 < 4 * push_cap v"
    | (grown) w mem1 t where "vec_len v = vec_cap v" "grow_one v (mem, s) = Inr (w, mem1, t)" "vec_cap w = push_cap v" "vec_holds w xs mem1"
      "serves t (vec_blocks w \<union> R) (n - push_frames v)" "vec_blocks w \<inter> R = {}" "keeps R mem mem1"
    using grow_one_serves [OF assms(1-3) refl] assms(4) l by (fastforce simp: push_cap_def push_frames_def array_layout_def)
  then show ?thesis
  proof cases
    case fits
    then have "push x (v, mem, s) = Inr (v\<lparr>vec_len := vec_len v + 1\<rparr>, store_bytes (vec_ptr v + 4 * vec_len v) (le_bytes 4 (unat x)) mem, s)"
      using l(1) by (simp add: push_def)
    then show ?thesis using appended_holds [OF assms(3) fits] append_keeps [OF assms(1-3) fits] assms(1,2) fits l(1)
      by (simp add: push_cap_def push_frames_def)
  next
    case failed
    then show ?thesis by (simp add: push_def)
  next
    case grown
    have f: "length xs < vec_cap w" using grown(1,3) l by (simp add: push_cap_def grown_cap_def)
    have "push x (v, mem, s) = Inr (w\<lparr>vec_len := vec_len w + 1\<rparr>, store_bytes (vec_ptr w + 4 * vec_len w) (le_bytes 4 (unat x)) mem1, t)"
      using grown(1,2) by (simp add: push_def)
    then show ?thesis using appended_holds [OF grown(4) f] append_keeps [OF grown(5,6,4) f] grown(3,5,6) keeps_trans [OF grown(7)]
      by simp
  qed
qed

lemma drop_vec_serves:
  assumes "serves s (vec_blocks v \<union> R) n" and "vec_blocks v \<inter> R = {}"
  shows "\<exists>t. drop_vec v s = Inr t \<and> serves t R n"
proof (cases "vec_cap v = 0")
  case True
  then show ?thesis using assms(1) by (simp add: drop_vec_def vec_blocks_def)
next
  case False
  let ?b = "page_block_of (vec_ptr v, array_layout (vec_cap v))"
  have b: "vec_blocks v = {?b}" using False by (simp add: vec_blocks_def)
  then have "vec_blocks v \<union> R - {?b} = R" using assms(2) by blast
  moreover have "0 < layout_size (array_layout (vec_cap v))" using False by (simp add: array_layout_def)
  ultimately show ?thesis using heap_dealloc_serves [OF assms(1), of "vec_ptr v" "array_layout (vec_cap v)"] b False
    by (simp add: drop_vec_def)
qed

lemma keeps_bytes:
  assumes "keeps R mem mem'" and "page_block_of (p, lay) \<in> R" and "k + n \<le> layout_size lay" and "layout_size lay \<le> PAGE_SIZE_2MB"
  shows "read_le mem' (p + k) n = read_le mem (p + k) n"
proof (rule read_le_same)
  fix i
  assume "i < n"
  then have "p + k + i \<in> heap_bytes (p, lay)" using assms(3) by (simp add: heap_bytes_def)
  then have "p + k + i \<in> extent (page_block_of (p, lay))" using heap_bytes_extent [of "(p, lay)"] assms(4) by auto
  then show "mem' (p + k + i) = mem (p + k + i)" using assms(1,2) by (simp add: keeps_def)
qed

lemma keeps_holds:
  assumes "keeps R mem mem'" and "vec_blocks v \<subseteq> R" and "vec_holds v xs mem"
  shows "vec_holds v xs mem'"
proof (cases "vec_cap v = 0")
  case False
  then have "page_block_of (vec_ptr v, array_layout (vec_cap v)) \<in> R" using assms(2) by (simp add: vec_blocks_def)
  then have "read_le mem' (vec_ptr v + 4 * i) 4 = read_le mem (vec_ptr v + 4 * i) 4" if "i < length xs" for i
    using assms(3) that by (intro keeps_bytes [OF assms(1)]) (auto simp: vec_holds_def array_layout_def)
  then show ?thesis using assms(3) by (simp add: vec_holds_def)
qed (use assms(3) in \<open>simp add: vec_holds_def\<close>)

section \<open>The test succeeds\<close>

lemma box_new_serves:
  assumes "serves s A n" and "0 < n" and "0 < layout_size lay" and "layout_size lay \<le> 4096" and "length bs \<le> layout_size lay"
  shows "\<exists>p t. box_new lay bs (mem, s) = Inr (p, store_bytes p bs mem, t) \<and> page_block_of (p, lay) \<notin> A \<and>
    serves t (insert (page_block_of (p, lay)) A) (n - 1) \<and> keeps A mem (store_bytes p bs mem)"
proof -
  have "frames_for (page_size_for lay) = 1" using assms(4) by (simp add: frames_for_def page_size_for_def)
  with heap_alloc_serves [OF assms(1,3)] assms(2,4) obtain p t where p: "heap_alloc lay s = Inr (p, t)" "p \<noteq> 0"
    "page_block_of (p, lay) \<notin> A" "serves t (insert (page_block_of (p, lay)) A) (n - 1)" by auto
  moreover have "keeps A mem (store_bytes (p + 0) bs mem)"
    using p(3,4) assms(4,5) by (intro store_keeps [where lay = lay]) (auto simp: page_consts)
  ultimately show ?thesis by (simp add: box_new_def)
qed

lemma test_pushes:
  assumes "serves s R n" and "0 < n"
  shows "\<exists>w mem' t. for_each [1, 2, 3] push (vec_new, mem, s) = Inr (w, mem', t) \<and> vec_cap w = 4 \<and> vec_holds w [1, 2, 3] mem' \<and>
    serves t (vec_blocks w \<union> R) (n - 1) \<and> vec_blocks w \<inter> R = {} \<and> keeps R mem mem'"
proof -
  have v: "vec_blocks vec_new = {}" "vec_holds vec_new [] mem" "push_cap vec_new = 4" "push_frames vec_new = 1"
    by (simp_all add: vec_blocks_def vec_holds_def vec_new_def push_cap_def push_frames_def grown_cap_def frames_for_def page_size_for_def array_layout_def)
  from push_serves [of s vec_new R n "[]" mem 1] assms v obtain w1 m1 t1 where
    1: "push 1 (vec_new, mem, s) = Inr (w1, m1, t1)" "vec_cap w1 = 4" "vec_holds w1 [1] m1" "serves t1 (vec_blocks w1 \<union> R) (n - 1)"
      "vec_blocks w1 \<inter> R = {}" "keeps R mem m1" by (auto simp: PAGE_SIZE_2MB_def)
  then have c1: "push_cap w1 = 4" "push_frames w1 = 0" "vec_len w1 \<noteq> vec_cap w1" by (simp_all add: vec_holds_def push_cap_def push_frames_def)
  from push_serves [OF 1(4,5,3), of 2] c1 obtain w2 m2 t2 where
    2: "push 2 (w1, m1, t1) = Inr (w2, m2, t2)" "vec_cap w2 = 4" "vec_holds w2 [1, 2] m2" "serves t2 (vec_blocks w2 \<union> R) (n - 1)"
      "vec_blocks w2 \<inter> R = {}" "keeps R m1 m2" by (auto simp: PAGE_SIZE_2MB_def)
  then have c2: "push_cap w2 = 4" "push_frames w2 = 0" "vec_len w2 \<noteq> vec_cap w2" by (simp_all add: vec_holds_def push_cap_def push_frames_def)
  from push_serves [OF 2(4,5,3), of 3] c2 obtain w3 m3 t3 where
    3: "push 3 (w2, m2, t2) = Inr (w3, m3, t3)" "vec_cap w3 = 4" "vec_holds w3 [1, 2, 3] m3" "serves t3 (vec_blocks w3 \<union> R) (n - 1)"
      "vec_blocks w3 \<inter> R = {}" "keeps R m2 m3" by (auto simp: PAGE_SIZE_2MB_def)
  with 1(1,6) 2(1,6) show ?thesis by (auto intro: keeps_trans)
qed

lemma test_values_serve:
  assumes "serves s A n" and "2 < n"
  shows "\<exists>b v l mem' t. test_values (mem, s) = Inr (b, v, l, mem', t) \<and> read_le mem' b 8 = 42 \<and> vec_holds v [1, 2, 3] mem' \<and> vec_cap v = 4 \<and>
    (\<forall>i < 1024. mem' (l + i) = 0) \<and> keeps A mem mem' \<and> page_block_of (b, u64_layout) \<notin> A \<and>
    vec_blocks v \<inter> insert (page_block_of (b, u64_layout)) A = {} \<and>
    page_block_of (l, large_layout) \<notin> vec_blocks v \<union> insert (page_block_of (b, u64_layout)) A \<and>
    serves t (insert (page_block_of (l, large_layout)) (vec_blocks v \<union> insert (page_block_of (b, u64_layout)) A)) (n - 3)"
proof -
  from box_new_serves [OF assms(1), of u64_layout "le_bytes 8 42" mem] assms(2) obtain b t1 where
    1: "box_new u64_layout (le_bytes 8 42) (mem, s) = Inr (b, store_bytes b (le_bytes 8 42) mem, t1)"
      "page_block_of (b, u64_layout) \<notin> A" "serves t1 (insert (page_block_of (b, u64_layout)) A) (n - 1)" "keeps A mem (store_bytes b (le_bytes 8 42) mem)"
    by (auto simp: u64_layout_def)
  let ?m1 = "store_bytes b (le_bytes 8 42) mem"
  let ?R = "insert (page_block_of (b, u64_layout)) A"
  from test_pushes [OF 1(3), of ?m1] assms(2) obtain v m2 t2 where
    2: "for_each [1, 2, 3] push (vec_new, ?m1, t1) = Inr (v, m2, t2)" "vec_cap v = 4" "vec_holds v [1, 2, 3] m2"
      "serves t2 (vec_blocks v \<union> ?R) (n - 1 - 1)" "vec_blocks v \<inter> ?R = {}" "keeps ?R ?m1 m2" by auto
  from box_new_serves [OF 2(4), of large_layout "replicate 1024 0" m2] assms(2) obtain l t3 where
    3: "box_new large_layout (replicate 1024 0) (m2, t2) = Inr (l, store_bytes l (replicate 1024 0) m2, t3)"
      "page_block_of (l, large_layout) \<notin> vec_blocks v \<union> ?R" "serves t3 (insert (page_block_of (l, large_layout)) (vec_blocks v \<union> ?R)) (n - 3)"
      "keeps (vec_blocks v \<union> ?R) m2 (store_bytes l (replicate 1024 0) m2)" by (auto simp: large_layout_def numeral_3_eq_3)
  let ?m3 = "store_bytes l (replicate 1024 0) m2"
  have k: "keeps ?R ?m1 ?m3" by (rule keeps_trans [OF 2(6) keeps_subset [OF 3(4)]]) blast
  have "read_le ?m3 (b + 0) 8 = read_le ?m1 (b + 0) 8" using k by (rule keeps_bytes [where lay = u64_layout]) (simp_all add: u64_layout_def page_consts)
  then have "read_le ?m3 b 8 = 42" using read_stored [of b 8 42 mem] by simp
  moreover have "vec_holds v [1, 2, 3] ?m3" by (rule keeps_holds [OF 3(4) _ 2(3)]) blast
  moreover have "\<forall>i < 1024. ?m3 (l + i) = 0" by (simp add: store_bytes_def)
  moreover have "keeps A mem ?m3" by (rule keeps_trans [OF 1(4) keeps_subset [OF k]]) auto
  moreover have "test_values (mem, s) = Inr (b, v, l, ?m3, t3)" unfolding test_values_def 1(1) by (simp only: and_then_Inr case_prod_conv 2(1) 3(1))
  ultimately show ?thesis using 1(2) 2(2,5) 3(2,3) by (intro exI [of _ b] exI [of _ v] exI [of _ l] exI [of _ ?m3] exI [of _ t3]) simp
qed

text \<open>What the test writes: the vector does not move after its first growth.\<close>

lemma test_pushes_write:
  assumes "for_each [1, 2, 3] push (vec_new, mem, s) = Inr (v, mem', t)"
  shows "mem' = store_bytes (vec_ptr v + 8) (le_bytes 4 3) (store_bytes (vec_ptr v + 4) (le_bytes 4 2) (store_bytes (vec_ptr v) (le_bytes 4 1) mem))"
proof -
  from assms obtain w1 m1 t1 w2 m2 t2 where
    p: "push 1 (vec_new, mem, s) = Inr (w1, m1, t1)" "push 2 (w1, m1, t1) = Inr (w2, m2, t2)" "push 3 (w2, m2, t2) = Inr (v, mem', t)"
    by (auto simp: and_then_eq_Inr)
  from p(1) have 1: "vec_cap w1 = 4" "vec_len w1 = 1" "m1 = store_bytes (vec_ptr w1) (le_bytes 4 1) mem"
    by (auto simp: push_def grow_one_def vec_new_def grown_cap_def and_then_eq_Inr Let_def split: if_splits)
  with p(2) have 2: "w2 = w1\<lparr>vec_len := 2\<rparr>" "m2 = store_bytes (vec_ptr w1 + 4) (le_bytes 4 2) m1" by (auto simp: push_def)
  with p(3) 1 have "v = w1\<lparr>vec_len := 3\<rparr>" "mem' = store_bytes (vec_ptr w1 + 8) (le_bytes 4 3) m2" by (auto simp: push_def)
  then show ?thesis using 1(3) 2(2) by simp
qed

lemma test_values_write:
  assumes "test_values (mem, s) = Inr (b, v, l, mem', t)" and "x \<notin> {b..<b + 8} \<union> {vec_ptr v..<vec_ptr v + 12} \<union> {l..<l + 1024}"
  shows "mem' x = mem x"
proof -
  from assms(1) obtain t1 m2 t2 where
    m: "for_each [1, 2, 3] push (vec_new, store_bytes b (le_bytes 8 42) mem, t1) = Inr (v, m2, t2)" "mem' = store_bytes l (replicate 1024 0) m2"
    unfolding test_values_def box_new_def by (auto simp: and_then_eq_Inr simp del: for_each.simps split: if_splits)
  show ?thesis unfolding m(2) test_pushes_write [OF m(1)] using assms(2) by (auto simp: store_bytes_def)
qed

text \<open>
  C19: with three pages to spare \<^verbatim>\<open>test_allocator\<close> runs to its end. When it drops its values they are what was stored, the
  boxed 42, the vector 1, 2, 3 and 1024 zero bytes; it has written no other byte, and in particular none of a page that was
  owned before; after the drops exactly the pages owned before are owned.
\<close>

theorem test_allocator_correct:
  assumes "provides s a" and "3 \<le> avail (snd a)"
  shows "\<exists>b v l mem' t u c. test_values (mem, s) = Inr (b, v, l, mem', t) \<and> test_allocator (mem, s) = Inr (mem', u) \<and>
    read_le mem' b 8 = 42 \<and> vec_len v = 3 \<and> (\<forall>i < 3. read_le mem' (vec_ptr v + 4 * i) 4 = i + 1) \<and> (\<forall>i < 1024. mem' (l + i) = 0) \<and>
    (\<forall>x. x \<notin> {b..<b + 8} \<union> {vec_ptr v..<vec_ptr v + 12} \<union> {l..<l + 1024} \<longrightarrow> mem' x = mem x) \<and>
    keeps (owned_blocks (snd a)) mem mem' \<and> provides u c \<and> owned_blocks (snd c) = owned_blocks (snd a)"
proof -
  let ?A = "owned_blocks (snd a)"
  have "serves s ?A 3" unfolding serves_def using assms by blast
  from test_values_serve [OF this, of mem] obtain b v l mem' t where
    t: "test_values (mem, s) = Inr (b, v, l, mem', t)" "read_le mem' b 8 = 42" "vec_holds v [1, 2, 3] mem'" "vec_cap v = 4"
      "\<forall>i < 1024. mem' (l + i) = 0" "keeps ?A mem mem'" "page_block_of (b, u64_layout) \<notin> ?A"
      "vec_blocks v \<inter> insert (page_block_of (b, u64_layout)) ?A = {}"
      "page_block_of (l, large_layout) \<notin> vec_blocks v \<union> insert (page_block_of (b, u64_layout)) ?A"
      "serves t (insert (page_block_of (l, large_layout)) (vec_blocks v \<union> insert (page_block_of (b, u64_layout)) ?A)) 0" by auto
  from heap_dealloc_serves [OF t(10), of l large_layout] t(9) obtain t1 where
    1: "heap_dealloc l large_layout t = Inr t1" "serves t1 (vec_blocks v \<union> insert (page_block_of (b, u64_layout)) ?A) 0"
    by (auto simp: large_layout_def)
  from drop_vec_serves [OF 1(2) t(8)] obtain t2 where
    2: "drop_vec v t1 = Inr t2" "serves t2 (insert (page_block_of (b, u64_layout)) ?A) 0" by blast
  from heap_dealloc_serves [OF 2(2), of b u64_layout] t(7) obtain u where
    3: "heap_dealloc b u64_layout t2 = Inr u" "serves u ?A 0" by (auto simp: u64_layout_def)
  have "test_allocator (mem, s) = Inr (mem', u)" using t(1) 1(1) 2(1) 3(1) by (simp add: test_allocator_def)
  moreover obtain c where "provides u c" "owned_blocks (snd c) = ?A" using 3(2) by (auto simp: serves_def)
  moreover have "unat ([1, 2, 3 :: u32] ! i) = i + 1" if i: "i < 3" for i
  proof -
    consider "i = 0" | "i = 1" | "i = 2" using i by linarith
    then show ?thesis by cases simp_all
  qed
  then have "vec_len v = 3" "\<forall>i < 3. read_le mem' (vec_ptr v + 4 * i) 4 = i + 1" using t(3) by (simp_all add: vec_holds_def)
  moreover have "\<forall>x. x \<notin> {b..<b + 8} \<union> {vec_ptr v..<vec_ptr v + 12} \<union> {l..<l + 1024} \<longrightarrow> mem' x = mem x"
    using test_values_write [OF t(1)] by blast
  ultimately show ?thesis
    using t(1,2,5,6) by (intro exI [of _ b] exI [of _ v] exI [of _ l] exI [of _ mem'] exI [of _ t] exI [of _ u] exI [of _ c] conjI)
qed

theorem test_allocator_correct_witness:
  "\<exists>b v l mem' t u. test_values ((\<lambda>_. 7), sample_allocator) = Inr (b, v, l, mem', t) \<and> test_allocator ((\<lambda>_. 7), sample_allocator) = Inr (mem', u) \<and>
     read_le mem' b 8 = 42 \<and> vec_len v = 3 \<and> (\<forall>x. x \<notin> {b..<b + 8} \<union> {vec_ptr v..<vec_ptr v + 12} \<union> {l..<l + 1024} \<longrightarrow> mem' x = 7)"
proof -
  have "3 \<le> avail (snd (500, sample_frames))" by (simp add: avail_def sample_frames_def page_consts)
  from test_allocator_correct [OF sample_provides this] show ?thesis by blast
qed

end
