(* ===== verification/Hardware.thy ===== *)
theory Hardware
  imports Bit_Fields
begin

text \<open>
  The devices as the kernel sees them: memory-mapped registers of the local APIC, model-specific registers and I/O
  ports. A device's answer may depend on everything that happened before, so a device is a parameter that
  maps the history of accesses to the value read; each access appends to the history.
\<close>

datatype msr = IA32_APIC_BASE | IA32_TSC_DEADLINE

datatype hw_access =
    RegRead usize u32 | RegWrite usize u32
  | MsrRead msr u64 | MsrWrite msr u64
  | PortIn u16 u8 | PortOut u16 u8

type_synonym history = "hw_access list"

record device =
  mmio_in :: "history \<Rightarrow> usize \<Rightarrow> u32"
  msr_in :: "history \<Rightarrow> msr \<Rightarrow> u64"
  port_in :: "history \<Rightarrow> u16 \<Rightarrow> u8"

text \<open>The instructions and volatile accesses the kernel uses.\<close>

definition rdmsr :: "device \<Rightarrow> msr \<Rightarrow> history \<Rightarrow> u64 \<times> history" where
  "rdmsr d r h = (let v = msr_in d h r in (v, h @ [MsrRead r v]))"

definition wrmsr :: "msr \<Rightarrow> u64 \<Rightarrow> history \<Rightarrow> history" where
  "wrmsr r v h = h @ [MsrWrite r v]"

definition inb :: "device \<Rightarrow> u16 \<Rightarrow> history \<Rightarrow> u8 \<times> history" where
  "inb d p h = (let v = port_in d h p in (v, h @ [PortIn p v]))"

definition outb :: "u16 \<Rightarrow> u8 \<Rightarrow> history \<Rightarrow> history" where
  "outb p v h = h @ [PortOut p v]"

text \<open>What a sequence of accesses wrote, in order.\<close>

definition writes_of :: "history \<Rightarrow> history" where
  "writes_of h = filter (\<lambda>e. case e of RegWrite _ _ \<Rightarrow> True | MsrWrite _ _ \<Rightarrow> True | PortOut _ _ \<Rightarrow> True | _ \<Rightarrow> False) h"

lemma writes_of_simps [simp]:
  "writes_of [] = []" "writes_of (g @ h) = writes_of g @ writes_of h"
  "writes_of (RegWrite i v # h) = RegWrite i v # writes_of h" "writes_of (MsrWrite r w # h) = MsrWrite r w # writes_of h"
  "writes_of (PortOut p b # h) = PortOut p b # writes_of h" "writes_of (RegRead i v # h) = writes_of h"
  "writes_of (MsrRead r w # h) = writes_of h" "writes_of (PortIn p b # h) = writes_of h"
  by (simp_all add: writes_of_def)

text \<open>A device whose registers hold the last value written to them.\<close>

definition reg_value :: "history \<Rightarrow> usize \<Rightarrow> u32" where
  "reg_value h i = fold (\<lambda>e v. case e of RegWrite j w \<Rightarrow> if i = j then w else v | _ \<Rightarrow> v) h 0"

definition msr_value :: "history \<Rightarrow> msr \<Rightarrow> u64" where
  "msr_value h r = fold (\<lambda>e v. case e of MsrWrite q w \<Rightarrow> if r = q then w else v | _ \<Rightarrow> v) h 0xFEE00100"

definition plain_device :: device where
  "plain_device = \<lparr>mmio_in = reg_value, msr_in = msr_value, port_in = (\<lambda>_ _. 0x20)\<rparr>"

end
