(* ===== verification/Serial.thy ===== *)
theory Serial
  imports Hardware
begin

text \<open>
  Serial output, \<^verbatim>\<open>src/src/serial.rs\<close>: the 16550 UART driver and the printing front end with its lazily
  initialised, lock-protected port. The device is a parameter, and so is the spin lock of the
  \<^verbatim>\<open>spin\<close> crate: an acquisition either gives the new lock word or never returns. A formatted
  argument list is the list of the string pieces \<^verbatim>\<open>write_fmt\<close> hands to \<^verbatim>\<open>write_str\<close>.
\<close>

section \<open>The port\<close>

definition COM1 :: u16 where "COM1 = 0x3F8"

record serial_port =
  port_base :: u16

definition new_port :: "u16 \<Rightarrow> serial_port" where
  "new_port b = \<lparr>port_base = b\<rparr>"

text \<open>\<^verbatim>\<open>self.base + k\<close>\<close>

definition port_at :: "serial_port \<Rightarrow> nat \<Rightarrow> u16 result" where
  "port_at p k = (if unat (port_base p) + k < 2 ^ 16 then Inr (port_base p + of_nat k) else Inl ArithmeticOverflow)"

definition out_at :: "serial_port \<Rightarrow> nat \<Rightarrow> u8 \<Rightarrow> history \<Rightarrow> history result" where
  "out_at p k v h = and_then (port_at p k) (\<lambda>q. Inr (outb q v h))"

definition port_init :: "serial_port \<Rightarrow> history \<Rightarrow> history result" where
  "port_init p h =
     and_then (out_at p 1 0x00 h) (\<lambda>h.
     and_then (out_at p 3 0x80 h) (\<lambda>h.
     and_then (out_at p 0 0x03 h) (\<lambda>h.
     and_then (out_at p 1 0x00 h) (\<lambda>h.
     and_then (out_at p 3 0x03 h) (\<lambda>h.
     and_then (out_at p 2 0xC7 h) (\<lambda>h.
     out_at p 4 0x0B h))))))"

text \<open>\<^verbatim>\<open>while (inb(self.base + 5) & 0x20) == 0 {}\<close>\<close>

partial_function (option) wait_empty :: "device \<Rightarrow> serial_port \<Rightarrow> history \<Rightarrow> history result option" where
  "wait_empty d p h =
     (case port_at p 5 of
        Inl e \<Rightarrow> Some (Inl e)
      | Inr q \<Rightarrow> (let (v, h) = inb d q h in if v AND 0x20 = 0 then wait_empty d p h else Some (Inr h)))"

definition write_byte :: "device \<Rightarrow> serial_port \<Rightarrow> u8 \<Rightarrow> history \<Rightarrow> history run" where
  "write_byte d p b h = then_run (wait_empty d p h) (\<lambda>h. Some (out_at p 0 b h))"

fun write_str :: "device \<Rightarrow> serial_port \<Rightarrow> u8 list \<Rightarrow> history \<Rightarrow> history run" where
  "write_str d p [] h = Some (Inr h)"
| "write_str d p (b # bs) h = then_run (write_byte d p b h) (\<lambda>h. write_str d p bs h)"

fun write_fmt :: "device \<Rightarrow> serial_port \<Rightarrow> u8 list list \<Rightarrow> history \<Rightarrow> history run" where
  "write_fmt d p [] h = Some (Inr h)"
| "write_fmt d p (s # ss) h = then_run (write_str d p s h) (\<lambda>h. write_fmt d p ss h)"

section \<open>Printing\<close>

record 'l spin_lock =
  acquire :: "'l \<Rightarrow> 'l option"
  release :: "'l \<Rightarrow> 'l"

text \<open>\<^verbatim>\<open>SERIAL1\<close>: created and initialised at its first use.\<close>

record 'l serial_static =
  serial1 :: "serial_port option"
  serial_lock :: 'l

definition serial1_get :: "'l serial_static \<Rightarrow> history \<Rightarrow> (serial_port \<times> 'l serial_static \<times> history) result" where
  "serial1_get st h = (case serial1 st of
       Some p \<Rightarrow> Inr (p, st, h)
     | None \<Rightarrow> let p = new_port COM1 in and_then (port_init p h) (\<lambda>h. Inr (p, st\<lparr>serial1 := Some p\<rparr>, h)))"

definition print :: "device \<Rightarrow> 'l spin_lock \<Rightarrow> u8 list list \<Rightarrow> 'l serial_static \<Rightarrow> history \<Rightarrow> ('l serial_static \<times> history) run" where
  "print d sl args st h =
     (case serial1_get st h of
        Inl e \<Rightarrow> Some (Inl e)
      | Inr (p, st, h) \<Rightarrow>
          (case acquire sl (serial_lock st) of
             None \<Rightarrow> None
           | Some l \<Rightarrow>
               then_run (write_fmt d p args h) (\<lambda>h. Some (Inr (st\<lparr>serial_lock := release sl l\<rparr>, h)))))"

definition newline :: u8 where "newline = 10"

text \<open>\<^verbatim>\<open>println!\<close> prints its arguments and then a newline, as two calls.\<close>

definition println :: "device \<Rightarrow> 'l spin_lock \<Rightarrow> u8 list list \<Rightarrow> 'l serial_static \<Rightarrow> history \<Rightarrow> ('l serial_static \<times> history) run" where
  "println d sl args st h = then_run (print d sl args st h) (\<lambda>(st, h). print d sl [[newline]] st h)"

text \<open>
  The macros \<^verbatim>\<open>serial_print!\<close> and \<^verbatim>\<open>serial_println!\<close>. The latter appends the newline to its format string, so that it is one call; how
  the formatted text is cut into pieces makes no difference to \<^verbatim>\<open>write_fmt\<close>.
\<close>

definition serial_print :: "device \<Rightarrow> 'l spin_lock \<Rightarrow> u8 list list \<Rightarrow> 'l serial_static \<Rightarrow> history \<Rightarrow> ('l serial_static \<times> history) run" where
  "serial_print d sl args st h = print d sl args st h"

definition serial_println :: "device \<Rightarrow> 'l spin_lock \<Rightarrow> u8 list list \<Rightarrow> 'l serial_static \<Rightarrow> history \<Rightarrow> ('l serial_static \<times> history) run" where
  "serial_println d sl args st h = serial_print d sl (args @ [[newline]]) st h"

section \<open>Output\<close>

text \<open>The transmitter becomes empty within \<open>n\<close> further polls.\<close>

fun tx_ready :: "device \<Rightarrow> u16 \<Rightarrow> nat \<Rightarrow> history \<Rightarrow> bool" where
  "tx_ready d q 0 h \<longleftrightarrow> port_in d h q AND 0x20 \<noteq> 0"
| "tx_ready d q (Suc n) h \<longleftrightarrow> port_in d h q AND 0x20 \<noteq> 0 \<or> tx_ready d q n (h @ [PortIn q (port_in d h q)])"

text \<open>
  The accesses that send bytes through the transmitter of the port at \<open>b\<close> the way its data sheet asks for: each byte is written directly
  after the line status register was seen to report the transmitter empty, and before that it was only seen to report it busy.
\<close>

inductive transmits :: "u16 \<Rightarrow> u8 list \<Rightarrow> history \<Rightarrow> bool" for b where
  transmits_nothing: "transmits b [] []"
| transmits_byte: "\<forall>w\<in>set busy. w AND 0x20 = 0 \<Longrightarrow> v AND 0x20 \<noteq> 0 \<Longrightarrow> transmits b bs g \<Longrightarrow>
    transmits b (c # bs) (map (PortIn (b + 5)) busy @ [PortIn (b + 5) v, PortOut b c] @ g)"

lemma transmits_append: "transmits b bs g \<Longrightarrow> transmits b cs k \<Longrightarrow> transmits b (bs @ cs) (g @ k)"
proof (induction rule: transmits.induct)
  case (transmits_byte busy v bs g c)
  from transmits.transmits_byte [OF transmits_byte(1,2) transmits_byte(4) [OF transmits_byte(5)], of c] show ?case by simp
qed simp

lemma writes_of_polls [simp]: "writes_of (map (PortIn q) ps) = []"
  by (induction ps) simp_all

lemma transmits_writes: "transmits b bs g \<Longrightarrow> writes_of g = map (PortOut b) bs"
  by (induction rule: transmits.induct) simp_all

lemma wait_empty_ready:
  assumes "port_at p 5 = Inr q" and "tx_ready d q n h"
  shows "\<exists>busy v. wait_empty d p h = Some (Inr (h @ map (PortIn q) busy @ [PortIn q v])) \<and>
    (\<forall>w\<in>set busy. w AND 0x20 = 0) \<and> v AND 0x20 \<noteq> 0"
  using assms(2)
proof (induction n arbitrary: h)
  case 0
  then show ?case using assms(1)
    by (subst wait_empty.simps) (auto simp: inb_def Let_def intro!: exI [of _ "[]"])
next
  case (Suc n)
  show ?case
  proof (cases "port_in d h q AND 0x20 = 0")
    case True
    then have "tx_ready d q n (h @ [PortIn q (port_in d h q)])" using Suc.prems by simp
    from Suc.IH [OF this] obtain busy v where
      "wait_empty d p (h @ [PortIn q (port_in d h q)]) = Some (Inr ((h @ [PortIn q (port_in d h q)]) @ map (PortIn q) busy @ [PortIn q v]))"
      "\<forall>w\<in>set busy. w AND 0x20 = 0" "v AND 0x20 \<noteq> 0" by blast
    then show ?thesis using True assms(1)
      by (subst wait_empty.simps) (auto simp: inb_def Let_def intro!: exI [of _ "port_in d h q # busy"])
  next
    case False
    then show ?thesis using assms(1)
      by (subst wait_empty.simps) (auto simp: inb_def Let_def intro!: exI [of _ "[]"])
  qed
qed

text \<open>A device that never leaves the driver waiting for ever.\<close>

definition responsive :: "device \<Rightarrow> serial_port \<Rightarrow> bool" where
  "responsive d p \<longleftrightarrow> unat (port_base p) + 5 < 2 ^ 16 \<and> (\<forall>h. \<exists>n. tx_ready d (port_base p + 5) n h)"

lemma write_byte_ok:
  assumes "responsive d p"
  shows "\<exists>g. write_byte d p b h = Some (Inr (h @ g)) \<and> transmits (port_base p) [b] g"
proof -
  obtain n where n: "tx_ready d (port_base p + 5) n h" using assms by (auto simp: responsive_def)
  have q: "port_at p 5 = Inr (port_base p + 5)" using assms by (simp add: responsive_def port_at_def)
  from wait_empty_ready [OF q n] obtain busy v where
    w: "wait_empty d p h = Some (Inr (h @ map (PortIn (port_base p + 5)) busy @ [PortIn (port_base p + 5) v]))"
      "\<forall>w\<in>set busy. w AND 0x20 = 0" "v AND 0x20 \<noteq> 0" by blast
  have "port_at p 0 = Inr (port_base p)"
    using unsigned_less [of "port_base p"] by (simp add: port_at_def)
  then show ?thesis using w(1) transmits_byte [OF w(2,3) transmits_nothing, of "port_base p" b]
    by (simp add: write_byte_def out_at_def outb_def)
qed

lemma write_str_ok:
  assumes "responsive d p"
  shows "\<exists>g. write_str d p bs h = Some (Inr (h @ g)) \<and> transmits (port_base p) bs g"
proof (induction bs arbitrary: h)
  case (Cons b bs)
  from write_byte_ok [OF assms, of b h] obtain g where
    1: "write_byte d p b h = Some (Inr (h @ g))" "transmits (port_base p) [b] g" by blast
  from Cons.IH [of "h @ g"] obtain k where
    "write_str d p bs (h @ g) = Some (Inr ((h @ g) @ k))" "transmits (port_base p) bs k" by blast
  then show ?case using 1(1) transmits_append [OF 1(2), of bs k] by (intro exI [of _ "g @ k"]) simp
qed (simp add: transmits_nothing)

lemma write_fmt_ok:
  assumes "responsive d p"
  shows "\<exists>g. write_fmt d p ss h = Some (Inr (h @ g)) \<and> transmits (port_base p) (concat ss) g"
proof (induction ss arbitrary: h)
  case (Cons s ss)
  from write_str_ok [OF assms, of s h] obtain g where
    1: "write_str d p s h = Some (Inr (h @ g))" "transmits (port_base p) s g" by blast
  from Cons.IH [of "h @ g"] obtain k where
    "write_fmt d p ss (h @ g) = Some (Inr ((h @ g) @ k))" "transmits (port_base p) (concat ss) k" by blast
  then show ?case using 1(1) transmits_append [OF 1(2), of "concat ss" k] by (intro exI [of _ "g @ k"]) simp
qed (simp add: transmits_nothing)

section \<open>Configuration\<close>

text \<open>
  The 16550 as the writes to its eight ports leave it: while bit 7 of the line control register is set, the
  first two ports are the divisor latch.
\<close>

record uart =
  divisor :: nat
  irq_enable :: u8
  line_control :: u8
  fifo_control :: u8
  modem_control :: u8

definition uart_write :: "u16 \<Rightarrow> hw_access \<Rightarrow> uart \<Rightarrow> uart" where
  "uart_write b e u = (case e of
     PortOut q v \<Rightarrow>
       let k = q - b; dlab = bit (line_control u) 7 in
       if k = 0 then (if dlab then u\<lparr>divisor := divisor u div 256 * 256 + unat v\<rparr> else u)
       else if k = 1 then (if dlab then u\<lparr>divisor := unat v * 256 + divisor u mod 256\<rparr> else u\<lparr>irq_enable := v\<rparr>)
       else if k = 2 then u\<lparr>fifo_control := v\<rparr>
       else if k = 3 then u\<lparr>line_control := v\<rparr>
       else if k = 4 then u\<lparr>modem_control := v\<rparr> else u
   | _ \<Rightarrow> u)"

definition init_writes :: "u16 \<Rightarrow> history" where
  "init_writes b = [PortOut (b + 1) 0x00, PortOut (b + 3) 0x80, PortOut b 0x03, PortOut (b + 1) 0x00, PortOut (b + 3) 0x03,
     PortOut (b + 2) 0xC7, PortOut (b + 4) 0x0B]"

lemma port_init_exec: "unat (port_base p) + 4 < 2 ^ 16 \<Longrightarrow> port_init p h = Inr (h @ init_writes (port_base p))"
  by (simp add: port_init_def out_at_def port_at_def outb_def init_writes_def)

definition lock_law :: "'l spin_lock \<Rightarrow> 'l \<Rightarrow> 'l \<Rightarrow> bool" where
  "lock_law sl free held \<longleftrightarrow> acquire sl free = Some held \<and> release sl held = free \<and> acquire sl held = None"

lemma serial1_get_exec:
  assumes "serial1 st = None \<or> serial1 st = Some (new_port COM1)"
  shows "serial1_get st h = Inr (new_port COM1, st\<lparr>serial1 := Some (new_port COM1)\<rparr>,
    h @ (if serial1 st = None then init_writes COM1 else []))"
  using assms by (cases "serial1 st") (auto simp: serial1_get_def port_init_exec new_port_def COM1_def Let_def)

lemma print_exec:
  assumes "responsive d (new_port COM1)" and "lock_law sl free held" and "serial_lock st = free"
    and "serial1 st = None \<or> serial1 st = Some (new_port COM1)"
  shows "\<exists>g. print d sl args st h = Some (Inr (st\<lparr>serial1 := Some (new_port COM1)\<rparr>,
      h @ (if serial1 st = None then init_writes COM1 else []) @ g)) \<and> transmits COM1 (concat args) g"
proof -
  let ?h = "h @ (if serial1 st = None then init_writes COM1 else [])"
  from write_fmt_ok [OF assms(1), of args ?h] obtain g where
    "write_fmt d (new_port COM1) args ?h = Some (Inr (?h @ g))" "transmits COM1 (concat args) g"
    by (auto simp: new_port_def)
  then show ?thesis
    using assms(2,3) by (intro exI [of _ g]) (simp add: print_def serial1_get_exec [OF assms(4)] lock_law_def)
qed

lemma println_exec:
  assumes "responsive d (new_port COM1)" and "lock_law sl free held" and "serial_lock st = free"
    and "serial1 st = None \<or> serial1 st = Some (new_port COM1)"
  shows "\<exists>g. println d sl args st h = Some (Inr (st\<lparr>serial1 := Some (new_port COM1)\<rparr>,
      h @ (if serial1 st = None then init_writes COM1 else []) @ g)) \<and> transmits COM1 (concat args @ [newline]) g"
proof -
  let ?st = "st\<lparr>serial1 := Some (new_port COM1)\<rparr>" and ?h = "h @ (if serial1 st = None then init_writes COM1 else [])"
  from print_exec [OF assms, of args h] obtain g where
    1: "print d sl args st h = Some (Inr (?st, ?h @ g))" "transmits COM1 (concat args) g" by auto
  have st: "serial_lock ?st = free" "serial1 ?st = None \<or> serial1 ?st = Some (new_port COM1)" using assms(3) by simp_all
  from print_exec [OF assms(1,2) st, of "[[newline]]" "?h @ g"] obtain k where
    2: "print d sl [[newline]] ?st (?h @ g) = Some (Inr (?st, ?h @ g @ k))" "transmits COM1 [newline] k" by auto
  have "println d sl args st h = Some (Inr (?st, ?h @ g @ k))" using 1(1) 2(1) by (simp add: println_def)
  then show ?thesis using transmits_append [OF 1(2) 2(2)] by (intro exI [of _ "g @ k"]) simp
qed

section \<open>Properties\<close>

text \<open>
  C17: \<^verbatim>\<open>println!\<close> on a responsive port with a free lock returns; it initialises the port exactly
  when this is its first use, then sends exactly the bytes of its arguments followed by a newline, in order, each directly after the
  transmitter was seen empty and with no access to the hardware besides, and leaves the lock free.
\<close>

theorem println_correct:
  assumes "responsive d (new_port COM1)" and "lock_law sl free held" and "serial_lock st = free"
    and "serial1 st = None \<or> serial1 st = Some (new_port COM1)"
  shows "\<exists>st' g. println d sl args st h = Some (Inr (st', h @ (if serial1 st = None then init_writes COM1 else []) @ g)) \<and>
    serial_lock st' = free \<and> serial1 st' = Some (new_port COM1) \<and> transmits COM1 (concat args @ [newline]) g \<and>
    writes_of g = map (PortOut COM1) (concat args @ [newline])"
proof -
  from println_exec [OF assms, of args h] obtain g where
    "println d sl args st h = Some (Inr (st\<lparr>serial1 := Some (new_port COM1)\<rparr>, h @ (if serial1 st = None then init_writes COM1 else []) @ g))"
    "transmits COM1 (concat args @ [newline]) g" by blast
  then show ?thesis using transmits_writes assms(3)
    by (intro exI [of _ "st\<lparr>serial1 := Some (new_port COM1)\<rparr>"] exI [of _ g]) simp
qed

text \<open>\<^verbatim>\<open>serial_println!\<close> sends the same bytes under one acquisition of the lock.\<close>

lemma serial_println_exec:
  assumes "responsive d (new_port COM1)" and "lock_law sl free held" and "serial_lock st = free"
    and "serial1 st = None \<or> serial1 st = Some (new_port COM1)"
  shows "\<exists>g. serial_println d sl args st h = Some (Inr (st\<lparr>serial1 := Some (new_port COM1)\<rparr>,
      h @ (if serial1 st = None then init_writes COM1 else []) @ g)) \<and> transmits COM1 (concat args @ [newline]) g"
  using print_exec [OF assms, of "args @ [[newline]]" h] by (simp add: serial_println_def serial_print_def)

definition sample_lock :: "bool spin_lock" where
  "sample_lock = \<lparr>acquire = (\<lambda>l. if l then None else Some True), release = (\<lambda>_. False)\<rparr>"

lemma plain_responsive: "responsive plain_device (new_port COM1)"
proof -
  have "tx_ready plain_device q 0 h" for q h by (simp add: plain_device_def)
  then have "\<forall>h. \<exists>n. tx_ready plain_device (port_base (new_port COM1) + 5) n h" by blast
  then show ?thesis unfolding responsive_def by (simp add: new_port_def COM1_def)
qed

theorem println_correct_witness:
  "\<exists>st' g. println plain_device sample_lock [[72, 105]] \<lparr>serial1 = None, serial_lock = False\<rparr> [] = Some (Inr (st', init_writes COM1 @ g)) \<and>
     transmits COM1 [72, 105, 10] g \<and> writes_of g = [PortOut 0x3F8 72, PortOut 0x3F8 105, PortOut 0x3F8 10]"
proof -
  have "lock_law sample_lock False True" by (simp add: lock_law_def sample_lock_def)
  from println_correct [OF plain_responsive this, of "\<lparr>serial1 = None, serial_lock = False\<rparr>" "[[72, 105]]" "[]"] show ?thesis
    by (simp add: COM1_def newline_def) blast
qed

text \<open>
  C32: \<^verbatim>\<open>SerialPort::init\<close> returns for any base with room for its ports. If the divisor latch of the UART was closed before, whatever
  the rest of its state, it ends with divisor 3 (38400 baud), 8 data bits without parity and the divisor latch closed again, so that the data port
  is the transmitter; its interrupt enable register is zero, so that it raises no interrupt, and its modem control register 0x0B, which includes the gate
  for the interrupt line that the comment on that write calls enabling interrupts.
\<close>

theorem port_init_configures:
  assumes "unat (port_base p) + 4 < 2 ^ 16" and "\<not> bit (line_control u) 7"
  shows "\<exists>ws. port_init p h = Inr (h @ ws) \<and>
    fold (uart_write (port_base p)) ws u = \<lparr>divisor = 3, irq_enable = 0, line_control = 3, fifo_control = 0xC7, modem_control = 0x0B\<rparr>"
  using port_init_exec [OF assms(1), of h] assms(2)
  by (intro exI [of _ "init_writes (port_base p)"]) (cases u, simp add: init_writes_def uart_write_def Let_def)

theorem port_init_configures_witness:
  "\<exists>ws. port_init (new_port COM1) [] = Inr ([] @ ws) \<and>
    divisor (fold (uart_write COM1) ws \<lparr>divisor = 1, irq_enable = 0xFF, line_control = 0, fifo_control = 0, modem_control = 0\<rparr>) = 3"
  using port_init_configures [of "new_port COM1"
      "\<lparr>divisor = 1, irq_enable = 0xFF, line_control = 0, fifo_control = 0, modem_control = 0\<rparr>" "[]"]
  by (auto simp: new_port_def COM1_def)

text \<open>
  Printing while the serial lock is held never returns, whatever the device does. The lock does not mask
  interrupts, and the exception handlers and the panic handler print: an exception raised while the
  interrupted code prints hangs the kernel instead of reporting.
\<close>

lemma println_while_locked:
  assumes "lock_law sl free held" and "serial_lock st = held" and "serial1 st = Some p"
  shows "println d sl args st h = None"
  using assms by (simp add: println_def print_def serial1_get_def lock_law_def)

end
