(* ===== verification/Boot_Report.thy ===== *)
theory Boot_Report
  imports Samples Serial
begin

text \<open>
  The lines \<^verbatim>\<open>PageAllocator::init\<close> (\<^verbatim>\<open>src/src/memory/page_allocator.rs\<close>) prints: which of them it has printed when it
  returns or panics, how \<^verbatim>\<open>println!\<close> formats them, and their way through the serial port. Nothing else in \<^verbatim>\<open>memory::init\<close>
  touches a device, so that the lines can be printed in one go.
\<close>

section \<open>The lines printed\<close>

text \<open>What follows a call is printed only if the call returns.\<close>

definition after_call :: "'a result \<Rightarrow> ('a \<Rightarrow> log_line list) \<Rightarrow> log_line list" where
  "after_call r f = (case r of Inl _ \<Rightarrow> [] | Inr x \<Rightarrow> f x)"

lemma after_call_simps [simp]: "after_call (Inr x) f = f x" "after_call (Inl e) f = []"
  by (simp_all add: after_call_def)

definition place_report :: "usize \<Rightarrow> usize \<Rightarrow> (usize \<Rightarrow> page_metadata) \<Rightarrow> usize \<Rightarrow> page_allocator \<Rightarrow> log_line list" where
  "place_report end_sym meta_size raw actual_max s =
     after_call (round_up actual_max PAGE_SIZE_2MB) (\<lambda>max_addr.
       let total_pages = max_addr div PAGE_SIZE_4KB in
       (''Total pages to track: {}'', [total_pages]) #
     after_call (round_up end_sym PAGE_SIZE_4KB) (\<lambda>kend.
       (''Kernel end: {:#x}'', [kend]) #
     after_call (checked_mul total_pages meta_size) (\<lambda>metadata_size.
       (''Metadata size: {} bytes ({} KB)'', [metadata_size, metadata_size div 1024]) #
     after_call (place_array end_sym meta_size raw actual_max s) (\<lambda>(_, s).
       [(''Final kernel end (after metadata): {:#x}'', [data (kernel_end s)])]))))"

definition count_report :: "page_allocator \<Rightarrow> log_line list" where
  "count_report s =
     after_call (lock_page_array s) (\<lambda>(_, s).
     after_call (for_each [0..<length (pages s)] (count_body (pages s)) (0, 0)) (\<lambda>(free_4kb, free_2mb).
       (''Free 4KB pages: {}'', [free_4kb]) # (''Free 2MB pages: {}'', [free_2mb]) #
     after_call (checked_i32 (free_4kb * 4)) (\<lambda>kb4.
     after_call (checked_i32 (free_2mb * 2048)) (\<lambda>kb2.
     after_call (checked_i32 (kb4 + kb2)) (\<lambda>kb.
       [(''Total free memory: {} MB'', [kb div 1024])])))))"

definition init_report ::
  "usize \<Rightarrow> usize \<Rightarrow> (usize \<Rightarrow> page_metadata) \<Rightarrow> memory \<Rightarrow> memory \<Rightarrow> usize \<Rightarrow> page_allocator \<Rightarrow> log_line list" where
  "init_report end_sym meta_size raw mem mem' mmap s =
     after_call (memory_areas mem mmap) (\<lambda>it.
     case for_areas mem max_area it 0 of Some (Inr actual_max) \<Rightarrow>
       place_report end_sym meta_size raw actual_max s @
       after_call (place_array end_sym meta_size raw actual_max s) (\<lambda>(_, s).
       after_call (memory_areas mem' mmap) (\<lambda>it.
       case for_areas mem' mark_area it s of Some (Inr s) \<Rightarrow> after_call (build_lists s) count_report | _ \<Rightarrow> []))
     | _ \<Rightarrow> [])"

definition memory_report ::
  "usize \<Rightarrow> usize \<Rightarrow> (usize \<Rightarrow> page_metadata) \<Rightarrow> memory \<Rightarrow> memory \<Rightarrow> usize \<Rightarrow> page_allocator \<Rightarrow> log_line list" where
  "memory_report end_sym meta_size raw mem mem' multiboot_info_addr s =
     (case parse multiboot_info_addr of
        None \<Rightarrow> []
      | Some boot_info \<Rightarrow>
          (case memory_map_tag mem boot_info of
             Some (Inr (Some mmap_tag)) \<Rightarrow> init_report end_sym meta_size raw mem mem' mmap_tag s
           | _ \<Rightarrow> []))"

lemma store_kernel_end_data: "store_kernel_end v s = Inr t \<Longrightarrow> data (kernel_end t) = v"
  by (auto simp: store_kernel_end_def and_then_eq_Inr drop_kernel_end_def drop_in_def drop_guard_def deref_mut_def Let_def)

lemma place_array_report:
  assumes "place_array end_sym meta_size raw actual_max s = Inr (log, t)"
  shows "place_report end_sym meta_size raw actual_max s = log"
  unfolding place_report_def assms
  using assms by (auto simp: place_array_def and_then_eq_Inr Let_def dest!: store_kernel_end_data)

lemma count_free_report:
  assumes "count_free s = Inr (log, t)"
  shows "count_report s = log"
  using assms by (auto simp: count_report_def count_free_def and_then_eq_Inr Let_def)

text \<open>When start-up returns, the lines printed are all of those it has to print.\<close>

lemma memory_init_report:
  assumes "memory_init end_sym meta_size raw mem mem' addr s = Some (Inr (log, t))"
  shows "memory_report end_sym meta_size raw mem mem' addr s = log"
proof -
  from assms obtain boot_info mmap where
    m: "parse addr = Some boot_info" "memory_map_tag mem boot_info = Some (Inr (Some mmap))" and
    i: "init_allocator end_sym meta_size raw mem mem' mmap s = Some (Inr (log, t))"
    by (auto simp: memory_init_def split: option.splits sum.splits)
  from i obtain it actual_max log1 s1 it' s2 where
    p: "memory_areas mem mmap = Inr it" "for_areas mem max_area it 0 = Some (Inr actual_max)"
      "place_array end_sym meta_size raw actual_max s = Inr (log1, s1)" "memory_areas mem' mmap = Inr it'"
      "for_areas mem' mark_area it' s1 = Some (Inr s2)" and
    r: "and_then (build_lists s2) (\<lambda>s. and_then (count_free s) (\<lambda>(log2, s). Inr (log1 @ log2, s))) = Inr (log, t)"
    by (auto simp: init_allocator_def split: option.splits sum.splits)
  from r obtain s3 log2 where "build_lists s2 = Inr s3" "count_free s3 = Inr (log2, t)" "log = log1 @ log2"
    by (auto simp: and_then_eq_Inr)
  then show ?thesis
    using place_array_report [OF p(3)] count_free_report [of s3 log2 t]
    by (simp add: memory_report_def init_report_def m p)
qed

section \<open>Formatting\<close>

text \<open>
  The arguments \<^verbatim>\<open>{}\<close> and \<^verbatim>\<open>{:#x}\<close> of the format strings: decimal, and hexadecimal with prefix, as the Rust library prints unsigned numbers.
\<close>

function digits :: "nat \<Rightarrow> nat \<Rightarrow> nat list" where
  "digits b n = (if b < 2 \<or> n < b then [n] else digits b (n div b) @ [n mod b])"
  by auto
termination by (relation "measure snd") auto

declare digits.simps [simp del]

definition show_number :: "nat \<Rightarrow> nat \<Rightarrow> string" where
  "show_number b n = map (\<lambda>d. ''0123456789abcdef'' ! d) (digits b n)"

text \<open>The second argument counts the characters of a placeholder that are still to be skipped.\<close>

primrec format_from :: "string \<Rightarrow> nat \<Rightarrow> nat list \<Rightarrow> string" where
  "format_from [] k ns = []"
| "format_from (c # cs) k ns =
     (if 0 < k then format_from cs (k - 1) ns
      else if take 2 (c # cs) = ''{}'' \<and> ns \<noteq> [] then show_number 10 (hd ns) @ format_from cs 1 (tl ns)
      else if take 5 (c # cs) = ''{:#x}'' \<and> ns \<noteq> [] then ''0x'' @ show_number 16 (hd ns) @ format_from cs 4 (tl ns)
      else c # format_from cs 0 ns)"

definition str_bytes :: "string \<Rightarrow> u8 list" where
  "str_bytes s = map of_char s"

definition line_bytes :: "log_line \<Rightarrow> u8 list" where
  "line_bytes l = str_bytes (format_from (fst l) 0 (snd l))"

definition of_digits :: "nat \<Rightarrow> nat list \<Rightarrow> nat" where
  "of_digits b ds = foldl (\<lambda>x d. b * x + d) 0 ds"

text \<open>The digits printed are those of the number.\<close>

lemma digits_value: "of_digits b (digits b n) = n \<and> (1 < b \<longrightarrow> (\<forall>d\<in>set (digits b n). d < b))"
proof (induction b n rule: digits.induct)
  case (1 b n)
  show ?case
  proof (cases "b < 2 \<or> n < b")
    case True
    then show ?thesis by (subst (1 2) digits.simps) (auto simp: of_digits_def)
  next
    case False
    with 1 show ?thesis by (subst (1 2) digits.simps) (auto simp: of_digits_def)
  qed
qed

section \<open>Printing\<close>

fun print_report ::
  "device \<Rightarrow> 'l spin_lock \<Rightarrow> log_line list \<Rightarrow> 'l serial_static \<times> history \<Rightarrow> ('l serial_static \<times> history) run" where
  "print_report d sl [] c = Some (Inr c)"
| "print_report d sl (l # ls) (st, h) = then_run (println d sl [line_bytes l] st h) (\<lambda>c. print_report d sl ls c)"

definition report_bytes :: "log_line list \<Rightarrow> u8 list" where
  "report_bytes ls = concat (map (\<lambda>l. line_bytes l @ [newline]) ls)"

text \<open>Once the port is initialised, a report is transmitted line by line.\<close>

lemma print_more:
  assumes "responsive d (new_port COM1)" and "lock_law sl free held" and "st = \<lparr>serial1 = Some (new_port COM1), serial_lock = free\<rparr>"
  shows "\<exists>g. print_report d sl ls (st, h) = Some (Inr (st, h @ g)) \<and> transmits COM1 (report_bytes ls) g"
proof (induction ls arbitrary: h)
  case (Cons l ls)
  have st: "serial_lock st = free" "serial1 st = None \<or> serial1 st = Some (new_port COM1)" "st\<lparr>serial1 := Some (new_port COM1)\<rparr> = st"
    "serial1 st \<noteq> None" by (simp_all add: assms(3))
  from println_exec [OF assms(1,2) st(1,2), of "[line_bytes l]" h] obtain g where
    1: "println d sl [line_bytes l] st h = Some (Inr (st, h @ g))" "transmits COM1 (line_bytes l @ [newline]) g"
    using st(3,4) by auto
  from Cons.IH [of "h @ g"] obtain k where
    "print_report d sl ls (st, h @ g) = Some (Inr (st, (h @ g) @ k))" "transmits COM1 (report_bytes ls) k" by blast
  then show ?case using 1(1) transmits_append [OF 1(2), of "report_bytes ls" k]
    by (intro exI [of _ "g @ k"]) (simp add: report_bytes_def)
qed (simp add: report_bytes_def transmits_nothing)

text \<open>The first line initialises it.\<close>

lemma print_report_exec:
  assumes "responsive d (new_port COM1)" and "lock_law sl free held" and "ls \<noteq> []"
  shows "\<exists>g. print_report d sl ls (\<lparr>serial1 = None, serial_lock = free\<rparr>, h) =
      Some (Inr (\<lparr>serial1 = Some (new_port COM1), serial_lock = free\<rparr>, h @ init_writes COM1 @ g)) \<and> transmits COM1 (report_bytes ls) g"
proof -
  obtain l ks where ls: "ls = l # ks" using assms(3) by (cases ls) auto
  let ?st = "\<lparr>serial1 = Some (new_port COM1), serial_lock = free\<rparr>"
  from println_exec [OF assms(1,2), of "\<lparr>serial1 = None, serial_lock = free\<rparr>" "[line_bytes l]" h] obtain g where
    1: "println d sl [line_bytes l] \<lparr>serial1 = None, serial_lock = free\<rparr> h = Some (Inr (?st, h @ init_writes COM1 @ g))"
      "transmits COM1 (line_bytes l @ [newline]) g" by auto
  from print_more [OF assms(1,2) refl, of ks "h @ init_writes COM1 @ g"] obtain k where
    "print_report d sl ks (?st, h @ init_writes COM1 @ g) = Some (Inr (?st, (h @ init_writes COM1 @ g) @ k))"
    "transmits COM1 (report_bytes ks) k" by blast
  then show ?thesis using 1(1) transmits_append [OF 1(2), of "report_bytes ks" k] ls
    by (intro exI [of _ "g @ k"]) (simp add: report_bytes_def)
qed

section \<open>The report\<close>

text \<open>
  C18: on the first use of a responsive serial port, start-up from well-formed boot information prints its report and nothing else, in decimal or
  hexadecimal as stated: the number of frames tracked, the end of the kernel, the size of the metadata in bytes and KB, the end of the metadata, and the
  numbers of free pages of both sizes and the free memory in MB as they are in the allocator it leaves. The digits printed are those of the numbers.
\<close>

theorem boot_report_correct:
  assumes "boot_ok end_sym meta_size mem mem' addr areas" and "a = start_frames end_sym meta_size areas" and "free_kb a < 2 ^ 31"
    and "responsive d (new_port COM1)" and "lock_law sl free held"
    and "dec = show_number 10" and "hex = (\<lambda>n. ''0x'' @ show_number 16 n)"
  shows "\<exists>log t st g. memory_init end_sym meta_size raw mem mem' addr (new_allocator fl) = Some (Inr (log, t)) \<and>
    rep (first_frame end_sym meta_size areas) t a \<and>
    print_report d sl (memory_report end_sym meta_size raw mem mem' addr (new_allocator fl)) (\<lparr>serial1 = None, serial_lock = free\<rparr>, h) =
      Some (Inr (st, h @ init_writes COM1 @ g)) \<and> serial_lock st = free \<and>
    transmits COM1
      (str_bytes (''Total pages to track: '' @ dec (total_pages areas)) @ [newline] @
       str_bytes (''Kernel end: '' @ hex (page_up end_sym)) @ [newline] @
       str_bytes (''Metadata size: '' @ dec (total_pages areas * meta_size) @ '' bytes ('' @ dec (total_pages areas * meta_size div 1024) @ '' KB)'') @ [newline] @
       str_bytes (''Final kernel end (after metadata): '' @ hex (final_end end_sym meta_size areas)) @ [newline] @
       str_bytes (''Free 4KB pages: '' @ dec (length (free4 a))) @ [newline] @
       str_bytes (''Free 2MB pages: '' @ dec (length (free2 a))) @ [newline] @
       str_bytes (''Total free memory: '' @ dec ((length (free4 a) * 4 + length (free2 a) * 2048) div 1024) @ '' MB'') @ [newline]) g \<and>
    (\<forall>n. of_digits 10 (digits 10 n) = n \<and> of_digits 16 (digits 16 n) = n)"
proof -
  let ?log = "init_lines end_sym meta_size areas a"
  from memory_init_rep [OF assms(1) unlocked_new assms(3) [unfolded assms(2)], of raw fl] obtain t where
    m: "memory_init end_sym meta_size raw mem mem' addr (new_allocator fl) = Some (Inr (?log, t))"
      "rep (first_frame end_sym meta_size areas) t a" unfolding assms(2) by blast
  from print_report_exec [OF assms(4,5), of ?log h] obtain g where
    g: "print_report d sl ?log (\<lparr>serial1 = None, serial_lock = free\<rparr>, h) =
        Some (Inr (\<lparr>serial1 = Some (new_port COM1), serial_lock = free\<rparr>, h @ init_writes COM1 @ g))"
      "transmits COM1 (report_bytes ?log) g" by (auto simp: init_lines_def)
  have b: "report_bytes ?log =
      str_bytes (''Total pages to track: '' @ dec (total_pages areas)) @ [newline] @
      str_bytes (''Kernel end: '' @ hex (page_up end_sym)) @ [newline] @
      str_bytes (''Metadata size: '' @ dec (total_pages areas * meta_size) @ '' bytes ('' @ dec (total_pages areas * meta_size div 1024) @ '' KB)'') @ [newline] @
      str_bytes (''Final kernel end (after metadata): '' @ hex (final_end end_sym meta_size areas)) @ [newline] @
      str_bytes (''Free 4KB pages: '' @ dec (length (free4 a))) @ [newline] @
      str_bytes (''Free 2MB pages: '' @ dec (length (free2 a))) @ [newline] @
      str_bytes (''Total free memory: '' @ dec ((length (free4 a) * 4 + length (free2 a) * 2048) div 1024) @ '' MB'') @ [newline]"
    unfolding assms(6,7) by (simp add: report_bytes_def init_lines_def line_bytes_def str_bytes_def free_kb_def)
  show ?thesis
    using m g(1) g(2) [unfolded b] digits_value unfolding memory_init_report [OF m(1)]
    by (intro exI [of _ ?log] exI [of _ t] exI [of _ "\<lparr>serial1 = Some (new_port COM1), serial_lock = free\<rparr>"] exI [of _ g] conjI) simp_all
qed

theorem boot_report_correct_witness:
  "\<exists>t st g bs. memory_init 0x150000 40 (\<lambda>_. new_metadata) sample_memory sample_memory 0x10000 (new_allocator 2) =
      Some (Inr (memory_report 0x150000 40 (\<lambda>_. new_metadata) sample_memory sample_memory 0x10000 (new_allocator 2), t)) \<and>
     print_report plain_device sample_lock (memory_report 0x150000 40 (\<lambda>_. new_metadata) sample_memory sample_memory 0x10000 (new_allocator 2))
      (\<lparr>serial1 = None, serial_lock = False\<rparr>, []) = Some (Inr (st, init_writes COM1 @ g)) \<and>
     transmits COM1 (str_bytes ''Total pages to track: 2048'' @ [newline] @ str_bytes ''Kernel end: 0x150000'' @ [newline] @ bs) g"
proof -
  have l: "lock_law sample_lock False True" by (simp add: lock_law_def sample_lock_def)
  have v: "total_pages [sample_area] = 2048" "page_up 0x150000 = 0x150000" by (simp_all add: sample_boot_values page_up_def page_consts)
  have d: "show_number 10 2048 = ''2048''" "show_number 16 0x150000 = ''150000''" by (simp_all add: show_number_def digits.simps)
  from boot_report_correct [OF sample_boot refl sample_free_kb plain_responsive l refl refl, of "\<lambda>_. new_metadata" 2 "[]"]
  obtain log t st g where
    m: "memory_init 0x150000 40 (\<lambda>_. new_metadata) sample_memory sample_memory 0x10000 (new_allocator 2) = Some (Inr (log, t))" and
    p: "print_report plain_device sample_lock (memory_report 0x150000 40 (\<lambda>_. new_metadata) sample_memory sample_memory 0x10000 (new_allocator 2))
      (\<lparr>serial1 = None, serial_lock = False\<rparr>, []) = Some (Inr (st, init_writes COM1 @ g))"
      "\<exists>bs. transmits COM1 (str_bytes (''Total pages to track: '' @ show_number 10 (total_pages [sample_area])) @ [newline] @
        str_bytes (''Kernel end: '' @ ''0x'' @ show_number 16 (page_up 0x150000)) @ [newline] @ bs) g" unfolding append_Nil by blast
  show ?thesis using m p(1) p(2) [unfolded v d] unfolding memory_init_report [OF m] by simp
qed

end
