(* ===== verification/Idt.thy ===== *)
theory Idt
  imports Bit_Fields
begin

text \<open>
  Exceptions and the Interrupt Descriptor Table: \<^verbatim>\<open>src/src/interrupt/exception.rs\<close> and
  \<^verbatim>\<open>src/src/interrupt/idt.rs\<close>. The setters of the \<^verbatim>\<open>bit_field\<close> crate and the current code
  selector are parameters.
\<close>

section \<open>Exceptions\<close>

definition EXCEPTION_MAX :: usize where "EXCEPTION_MAX = 31"

datatype exception =
    DivideByZero | Debug | NonMaskableInterrupt | Breakpoint | Overflow | BoundRangeExceeded | InvalidOpcode
  | DeviceNotAvailable | DoubleFault | InvalidTss | SegmentNotPresent | StackSegmentFault
  | GeneralProtectionFault | PageFault | X87FloatingPoint | AlignmentCheck | MachineCheck
  | SimdFloatingPoint | Virtualization | Security | Reserved usize

fun exception_number :: "exception \<Rightarrow> usize" where
  "exception_number DivideByZero = 0x0"
| "exception_number Debug = 0x1"
| "exception_number NonMaskableInterrupt = 0x2"
| "exception_number Breakpoint = 0x3"
| "exception_number Overflow = 0x4"
| "exception_number BoundRangeExceeded = 0x5"
| "exception_number InvalidOpcode = 0x6"
| "exception_number DeviceNotAvailable = 0x7"
| "exception_number DoubleFault = 0x8"
| "exception_number InvalidTss = 0xa"
| "exception_number SegmentNotPresent = 0xb"
| "exception_number StackSegmentFault = 0xc"
| "exception_number GeneralProtectionFault = 0xd"
| "exception_number PageFault = 0xe"
| "exception_number X87FloatingPoint = 0x10"
| "exception_number AlignmentCheck = 0x11"
| "exception_number MachineCheck = 0x12"
| "exception_number SimdFloatingPoint = 0x13"
| "exception_number Virtualization = 0x14"
| "exception_number Security = 0x1e"
| "exception_number (Reserved num) = num"

definition exception_try_from :: "usize \<Rightarrow> string + exception" where
  "exception_try_from num =
     (if EXCEPTION_MAX \<le> num then Inl ''Not an exception''
      else if num = 0x0 then Inr DivideByZero
      else if num = 0x1 then Inr Debug
      else if num = 0x2 then Inr NonMaskableInterrupt
      else if num = 0x3 then Inr Breakpoint
      else if num = 0x4 then Inr Overflow
      else if num = 0x5 then Inr BoundRangeExceeded
      else if num = 0x6 then Inr InvalidOpcode
      else if num = 0x7 then Inr DeviceNotAvailable
      else if num = 0x8 then Inr DoubleFault
      else if num = 0xa then Inr InvalidTss
      else if num = 0xb then Inr SegmentNotPresent
      else if num = 0xc then Inr StackSegmentFault
      else if num = 0xd then Inr GeneralProtectionFault
      else if num = 0xe then Inr PageFault
      else if num = 0x10 then Inr X87FloatingPoint
      else if num = 0x11 then Inr AlignmentCheck
      else if num = 0x12 then Inr MachineCheck
      else if num = 0x13 then Inr SimdFloatingPoint
      else if num = 0x14 then Inr Virtualization
      else if num = 0x1e then Inr Security
      else Inr (Reserved num))"

section \<open>Entries\<close>

type_synonym entry_attributes = u8

definition missing_attributes :: entry_attributes where
  "missing_attributes = 0"

definition attr_set_present :: "u8 bit_setter \<Rightarrow> bool \<Rightarrow> entry_attributes \<Rightarrow> entry_attributes" where
  "attr_set_present sb present a = sb a 7 present"

definition attr_set_privilege_level :: "u8 range_setter \<Rightarrow> u8 \<Rightarrow> entry_attributes \<Rightarrow> entry_attributes" where
  "attr_set_privilege_level sr dpl a = sr a 5 7 dpl"

datatype gate_type = Int32 | Int16 | Trap32 | Trap16

definition gate_code :: "gate_type \<Rightarrow> u8" where
  "gate_code g = (case g of Int32 \<Rightarrow> 0b1110 | Trap32 \<Rightarrow> 0b1111 | Int16 \<Rightarrow> 0b0110 | Trap16 \<Rightarrow> 0b0111)"

definition attr_set_gate_type :: "u8 range_setter \<Rightarrow> gate_type \<Rightarrow> entry_attributes \<Rightarrow> entry_attributes" where
  "attr_set_gate_type sr g a = sr a 0 4 (gate_code g)"

record entry =
  entry_low :: u16
  selector :: u16
  entry_ist :: u8
  attributes :: entry_attributes
  entry_mid :: u16
  entry_hi :: u32
  entry_reserved :: u32

definition missing :: entry where
  "missing = \<lparr>entry_low = 0, selector = 0, entry_ist = 0, attributes = missing_attributes, entry_mid = 0,
     entry_hi = 0, entry_reserved = 0\<rparr>"

definition missing_exception :: entry where
  "missing_exception = missing\<lparr>entry_ist := 0\<rparr>"

definition missing_irq :: entry where
  "missing_irq = missing\<lparr>entry_ist := 0\<rparr>"

text \<open>\<open>cs\<close> is the value of the code segment register.\<close>

definition set_handler_addr :: "u8 bit_setter \<Rightarrow> u8 range_setter \<Rightarrow> u16 \<Rightarrow> u64 \<Rightarrow> entry \<Rightarrow> entry" where
  "set_handler_addr sb sr cs addr e =
     e\<lparr>entry_low := ucast addr, entry_mid := ucast (drop_bit 16 addr), entry_hi := ucast (drop_bit 32 addr),
       attributes := attr_set_gate_type sr Int32 (attr_set_present sb True (attributes e)), selector := cs\<rparr>"

definition entry_set_ist :: "u8 \<Rightarrow> entry \<Rightarrow> entry" where
  "entry_set_ist i e = e\<lparr>entry_ist := i\<rparr>"

definition set_handler_fn :: "u8 bit_setter \<Rightarrow> u8 range_setter \<Rightarrow> u16 \<Rightarrow> u64 \<Rightarrow> entry \<Rightarrow> entry" where
  "set_handler_fn sb sr cs handler e = set_handler_addr sb sr cs handler e"

section \<open>The table\<close>

record idt =
  divide_by_zero :: entry
  debug :: entry
  non_maskable_interrupt :: entry
  breakpoint :: entry
  overflow :: entry
  bound_range_exceeded :: entry
  invalid_opcode :: entry
  device_not_available :: entry
  double_fault :: entry
  exception_9 :: entry
  invalid_tss :: entry
  segment_not_present :: entry
  stack_segment_fault :: entry
  general_protection_fault :: entry
  page_fault :: entry
  exception_15 :: entry
  x87_floating_point :: entry
  alignment_check :: entry
  machine_check :: entry
  simd_floating_point :: entry
  virtualization :: entry
  control_exception :: entry
  idt_reserved :: "entry list"
  interrupts :: "entry list"

definition new_idt :: idt where
  "new_idt = \<lparr>divide_by_zero = missing_exception, debug = missing_exception, non_maskable_interrupt = missing_exception,
     breakpoint = missing, overflow = missing_exception, bound_range_exceeded = missing_exception,
     invalid_opcode = missing_exception, device_not_available = missing_exception, double_fault = missing_exception,
     exception_9 = missing_exception, invalid_tss = missing_exception, segment_not_present = missing_exception,
     stack_segment_fault = missing_exception, general_protection_fault = missing_exception,
     page_fault = missing_exception, exception_15 = missing_exception, x87_floating_point = missing_exception,
     alignment_check = missing_exception, machine_check = missing_exception, simd_floating_point = missing_exception,
     virtualization = missing_exception, control_exception = missing, idt_reserved = replicate 10 missing,
     interrupts = replicate (256 - 32) missing_irq\<rparr>"

text \<open>The table as the processor indexes it: the fields in the order of the \<^verbatim>\<open>repr(C)\<close> structure.\<close>

definition vectors :: "idt \<Rightarrow> entry list" where
  "vectors t = [divide_by_zero t, debug t, non_maskable_interrupt t, breakpoint t, overflow t, bound_range_exceeded t,
     invalid_opcode t, device_not_available t, double_fault t, exception_9 t, invalid_tss t, segment_not_present t,
     stack_segment_fault t, general_protection_fault t, page_fault t, exception_15 t, x87_floating_point t,
     alignment_check t, machine_check t, simd_floating_point t, virtualization t, control_exception t] @
     idt_reserved t @ interrupts t"

text \<open>\<^verbatim>\<open>Idt::load\<close>: the limit and base given to \<^verbatim>\<open>lidt\<close>; an entry has 16 bytes.\<close>

definition load_idt :: "usize \<Rightarrow> idt \<Rightarrow> u16 \<times> usize" where
  "load_idt addr t = (of_nat (16 * length (vectors t) - 1), addr)"

section \<open>Handlers\<close>

text \<open>The offset, presence, gate type and privilege level the processor reads from an entry.\<close>

definition entry_addr :: "entry \<Rightarrow> nat" where
  "entry_addr e = unat (entry_low e) + 2 ^ 16 * unat (entry_mid e) + 2 ^ 32 * unat (entry_hi e)"

definition present :: "entry \<Rightarrow> bool" where
  "present e = bit (attributes e) 7"

definition gate_bits :: "entry \<Rightarrow> u8" where
  "gate_bits e = attributes e AND 0x0F"

definition privilege_bits :: "entry \<Rightarrow> u8" where
  "privilege_bits e = drop_bit 5 (attributes e) AND 3"

lemma not_present_missing [simp]:
  "\<not> present missing" "\<not> present missing_exception" "\<not> present missing_irq"
  by (simp_all add: present_def missing_def missing_exception_def missing_irq_def missing_attributes_def)

lemma join_16: "x mod 65536 + 65536 * (x div 65536 mod 65536) + 4294967296 * (x div 4294967296) = (x::nat)"
proof -
  have "x mod (65536 * 65536) = 65536 * (x div 65536 mod 65536) + x mod 65536" by (rule mod_mult2_eq)
  moreover have "x mod 4294967296 + 4294967296 * (x div 4294967296) = x" by simp
  ultimately show ?thesis by simp
qed

lemma set_handler_addr_addr: "entry_addr (set_handler_addr sb sr cs addr e) = unat addr"
proof -
  have "unat addr div 4294967296 < 4294967296"
    using unsigned_less [of addr] by (intro less_mult_imp_div_less) simp
  then have "unat (ucast (drop_bit 32 addr) :: u32) = unat addr div 4294967296"
    by (simp only: unat_ucast_mod unat_drop_bit) simp
  moreover have "unat (ucast (drop_bit 16 addr) :: u16) = unat addr div 65536 mod 65536"
    "unat (ucast addr :: u16) = unat addr mod 65536"
    by (simp_all only: unat_ucast_mod unat_drop_bit) simp_all
  ultimately show ?thesis using join_16 [of "unat addr"] by (simp add: entry_addr_def set_handler_addr_def)
qed

lemma set_handler_attributes:
  assumes "sets_bit sb" and "sets_bits sr" and "attributes e = 0"
  shows "attributes (set_handler_addr sb sr cs addr e) = 0x8E"
proof (rule bit_word_eqI)
  fix k
  assume "k < LENGTH(8)"
  then have "k \<in> {0, 1, 2, 3, 4, 5, 6, 7}" by (auto simp: less_Suc_eq numeral_eq_Suc)
  then show "bit (attributes (set_handler_addr sb sr cs addr e)) k = bit (0x8E :: u8) k"
    by (auto simp: set_handler_addr_def attr_set_gate_type_def attr_set_present_def gate_code_def assms(3)
        sets_bitD [OF assms(1)] sets_bitsD [OF assms(2)])
qed

definition installed :: "u16 \<Rightarrow> u64 \<Rightarrow> entry \<Rightarrow> bool" where
  "installed cs addr e \<longleftrightarrow> entry_addr e = unat addr \<and> selector e = cs \<and> attributes e = 0x8E \<and> entry_ist e = 0"

lemma set_handler_installed:
  assumes "sets_bit sb" and "sets_bits sr" and "attributes e = 0" and "entry_ist e = 0"
  shows "installed cs addr (set_handler_fn sb sr cs addr e)"
  using set_handler_addr_addr [of sb sr cs addr e] set_handler_attributes [OF assms(1-3), of cs addr] assms(4)
  by (simp add: installed_def set_handler_fn_def) (simp add: set_handler_addr_def)

lemma installed_present: "installed cs addr e \<Longrightarrow> present e \<and> gate_bits e = gate_code Int32 \<and> privilege_bits e = 0"
  by (simp add: installed_def present_def gate_bits_def privilege_bits_def gate_code_def)

lemma length_vectors: "length (idt_reserved t) = 10 \<Longrightarrow> length (interrupts t) = 224 \<Longrightarrow> length (vectors t) = 256"
  by (simp add: vectors_def)

text \<open>The values \<^verbatim>\<open>try_from\<close> can produce: a reserved number is one of those without a name of its own.\<close>

definition canonical :: "exception \<Rightarrow> bool" where
  "canonical e = (case e of Reserved n \<Rightarrow> n \<in> {0x9, 0xf} \<union> {0x15..0x1d} | _ \<Rightarrow> True)"

lemma exception_decode: "canonical e \<Longrightarrow> exception_try_from (exception_number e) = Inr e"
  by (cases e) (auto simp: canonical_def exception_try_from_def EXCEPTION_MAX_def)

lemma exception_encode:
  assumes "exception_try_from n = Inr e"
  shows "exception_number e = n \<and> canonical e"
proof (cases "e = Reserved n")
  case True
  then have "n \<notin> {0, 1, 2, 3, 4, 5, 6, 7, 8, 10, 11, 12, 13, 14, 16, 17, 18, 19, 20, 30}" "n < 31"
    using assms by (auto simp: exception_try_from_def EXCEPTION_MAX_def split: if_splits)
  moreover have "n \<in> set [0..<31]" using \<open>n < 31\<close> by simp
  ultimately show ?thesis using True by (auto simp: canonical_def upt_conv_Cons)
next
  case False
  then show ?thesis using assms
    by (auto simp: exception_try_from_def canonical_def split: if_splits)
qed

interpretation exception_codes: code_table exception_number exception_try_from canonical
  using exception_decode exception_encode by unfold_locales auto

section \<open>Properties\<close>

text \<open>
  The values the documentation of \<^verbatim>\<open>Exception\<close> describes: the named exceptions and \<^verbatim>\<open>Reserved\<close> with one of the
  listed numbers.
\<close>

definition documented :: "exception \<Rightarrow> bool" where
  "documented e = (case e of Reserved n \<Rightarrow> n = 0x9 \<or> n = 0xf \<or> 0x15 \<le> n \<and> n \<le> 0x1d \<or> n = 0x1f | _ \<Rightarrow> True)"

lemma documented_canonical: "documented e \<longleftrightarrow> canonical e \<or> e = Reserved 0x1f"
  by (cases e) (auto simp: documented_def canonical_def)

text \<open>The documentation lists 0x1f as well, which \<^verbatim>\<open>try_from\<close> rejects.\<close>

lemma reserved_1f_rejected: "documented (Reserved 0x1f) \<and> exception_try_from 0x1f = Inl ''Not an exception''"
  by (simp add: documented_def exception_try_from_def EXCEPTION_MAX_def)

text \<open>
  The entry of the table that belongs to an exception. \<^verbatim>\<open>Security\<close> and most reserved numbers lie in the array
  \<^verbatim>\<open>reserved\<close>, which starts with vector 22.
\<close>

fun exception_field :: "exception \<Rightarrow> idt \<Rightarrow> entry option" where
  "exception_field DivideByZero t = Some (divide_by_zero t)"
| "exception_field Debug t = Some (debug t)"
| "exception_field NonMaskableInterrupt t = Some (non_maskable_interrupt t)"
| "exception_field Breakpoint t = Some (breakpoint t)"
| "exception_field Overflow t = Some (overflow t)"
| "exception_field BoundRangeExceeded t = Some (bound_range_exceeded t)"
| "exception_field InvalidOpcode t = Some (invalid_opcode t)"
| "exception_field DeviceNotAvailable t = Some (device_not_available t)"
| "exception_field DoubleFault t = Some (double_fault t)"
| "exception_field InvalidTss t = Some (invalid_tss t)"
| "exception_field SegmentNotPresent t = Some (segment_not_present t)"
| "exception_field StackSegmentFault t = Some (stack_segment_fault t)"
| "exception_field GeneralProtectionFault t = Some (general_protection_fault t)"
| "exception_field PageFault t = Some (page_fault t)"
| "exception_field X87FloatingPoint t = Some (x87_floating_point t)"
| "exception_field AlignmentCheck t = Some (alignment_check t)"
| "exception_field MachineCheck t = Some (machine_check t)"
| "exception_field SimdFloatingPoint t = Some (simd_floating_point t)"
| "exception_field Virtualization t = Some (virtualization t)"
| "exception_field Security t = Some (idt_reserved t ! (0x1e - 22))"
| "exception_field (Reserved n) t =
     (if n = 9 then Some (exception_9 t) else if n = 15 then Some (exception_15 t)
      else if n = 21 then Some (control_exception t)
      else if 22 \<le> n \<and> n < 32 \<and> n \<noteq> 0x1e then Some (idt_reserved t ! (n - 22)) else None)"

text \<open>
  C29: numbers and exceptions correspond one to one: every number below 31 decodes to a documented exception with that
  number, every documented exception other than \<^verbatim>\<open>Reserved(0x1f)\<close> is what its number decodes to, and a number above
  31 is an error.
\<close>

theorem exception_codec:
  "(n < 31 \<longrightarrow> (\<exists>e. exception_try_from n = Inr e \<and> exception_number e = n \<and> documented e)) \<and>
   (documented e \<and> e \<noteq> Reserved 0x1f \<longrightarrow> exception_try_from (exception_number e) = Inr e) \<and>
   (31 < n \<longrightarrow> exception_try_from n = Inl ''Not an exception'')"
proof (intro conjI impI)
  show "exception_try_from n = Inl ''Not an exception''" if "31 < n"
    using that by (simp add: exception_try_from_def EXCEPTION_MAX_def)
  show "\<exists>e. exception_try_from n = Inr e \<and> exception_number e = n \<and> documented e" if n: "n < 31"
  proof -
    have "exception_try_from n \<noteq> Inl m" for m using n by (simp add: exception_try_from_def EXCEPTION_MAX_def)
    then obtain e where "exception_try_from n = Inr e" by (cases "exception_try_from n") auto
    then show ?thesis using exception_encode [of n e] by (auto simp: documented_canonical)
  qed
  show "exception_try_from (exception_number e) = Inr e" if "documented e \<and> e \<noteq> Reserved 0x1f"
    using that exception_codes.decode_iff [of "exception_number e" e] by (auto simp: documented_canonical)
qed

theorem exception_codec_witness:
  "(\<exists>e. exception_try_from 14 = Inr e \<and> exception_number e = 14) \<and> exception_try_from (exception_number (Reserved 0x16)) = Inr (Reserved 0x16) \<and>
   exception_try_from 32 = Inl ''Not an exception''"
proof -
  have "documented (Reserved 0x16)" by (simp add: documented_def)
  then show ?thesis using exception_codec [of 14 "Reserved 0x16"] exception_codec [of 32] by auto
qed

text \<open>
  C20: the structure \<^verbatim>\<open>Idt\<close> is laid out as the processor indexes it: it has 256 entries, every documented exception has
  an entry, which stands at the exception's number, and interrupt \<open>i\<close> at vector \<open>32 + i\<close>; \<^verbatim>\<open>load\<close> passes the table's limit.
\<close>

theorem idt_layout:
  assumes "length (idt_reserved t) = 10" and "length (interrupts t) = 224"
  shows "length (vectors t) = 256 \<and>
    (exception_field e t = None \<or> exception_field e t = Some (vectors t ! exception_number e)) \<and>
    (documented e \<longrightarrow> exception_field e t \<noteq> None) \<and>
    (i < 224 \<longrightarrow> vectors t ! (32 + i) = interrupts t ! i) \<and>
    load_idt addr t = (0xFFF, addr)"
proof (intro conjI)
  show "length (vectors t) = 256" using assms by (rule length_vectors)
  then show "load_idt addr t = (0xFFF, addr)" by (simp add: load_idt_def)
  show "exception_field e t = None \<or> exception_field e t = Some (vectors t ! exception_number e)"
  proof (cases e)
    case (Reserved n)
    have mid: "length xs = 22 \<Longrightarrow> 22 \<le> n \<Longrightarrow> n < 32 \<Longrightarrow> (xs @ idt_reserved t @ interrupts t) ! n = idt_reserved t ! (n - 22)" for xs
      using assms(1) by (simp add: nth_append)
    have "vectors t ! n = idt_reserved t ! (n - 22)" if "22 \<le> n" "n < 32" unfolding vectors_def by (rule mid) (use that in simp_all)
    then show ?thesis using Reserved by (simp add: vectors_def)
  qed (use assms(1) in \<open>simp_all add: vectors_def nth_append\<close>)
  show "documented e \<longrightarrow> exception_field e t \<noteq> None" by (cases e) (auto simp: documented_def)
  show "i < 224 \<longrightarrow> vectors t ! (32 + i) = interrupts t ! i"
    using assms by (simp add: vectors_def nth_append)
qed

theorem idt_layout_witness:
  "length (vectors new_idt) = 256 \<and> exception_field PageFault new_idt = Some (vectors new_idt ! 14) \<and>
   vectors new_idt ! (32 + 0) = interrupts new_idt ! 0 \<and> load_idt 0x200000 new_idt = (0xFFF, 0x200000)"
  using idt_layout [of new_idt PageFault 0 "0x200000"] by (simp add: new_idt_def)

end
