(* ===== verification/Trampoline.thy ===== *)
theory Trampoline
  imports Bit_Fields
begin

text \<open>
  Interrupt entry and return, \<^verbatim>\<open>src/src/interrupt/mod.rs\<close>: the two assembly trampolines, the frame
  \<^verbatim>\<open>InterruptStackFrame\<close> they build, and the exception handlers. The trampolines run on a small machine with
  the general registers, the stack and what \<^verbatim>\<open>iretq\<close> restores; the processor's own part of interrupt
  delivery is modelled after the Intel manual. The handler called in the middle is a parameter.
\<close>

section \<open>The machine\<close>

datatype reg = RAX | RDI | RSI | RDX | RCX | R8 | R9 | R10 | R11 | RBX | RBP | R12 | R13 | R14 | R15

record machine =
  reg :: "reg \<Rightarrow> u64"
  rsp_reg :: u64
  mem64 :: "u64 \<Rightarrow> u64"
  rip_reg :: u64
  cs_reg :: u64
  rflags_reg :: u64
  ss_reg :: u64

datatype instr = Cld | Push reg | PushImm u64 | MovRdiRsp | CallHandler | Pop reg | AddRsp u64 | Iretq

definition push_value :: "u64 \<Rightarrow> machine \<Rightarrow> machine" where
  "push_value v m = m\<lparr>rsp_reg := rsp_reg m - 8, mem64 := (mem64 m)(rsp_reg m - 8 := v)\<rparr>"

text \<open>The direction flag is bit 10 of RFLAGS.\<close>

fun exec :: "(machine \<Rightarrow> machine) \<Rightarrow> instr \<Rightarrow> machine \<Rightarrow> machine" where
  "exec handler Cld m = m\<lparr>rflags_reg := unset_bit 10 (rflags_reg m)\<rparr>"
| "exec handler (Push r) m = push_value (reg m r) m"
| "exec handler (PushImm v) m = push_value v m"
| "exec handler MovRdiRsp m = m\<lparr>reg := (reg m)(RDI := rsp_reg m)\<rparr>"
| "exec handler CallHandler m = handler m"
| "exec handler (Pop r) m = m\<lparr>reg := (reg m)(r := mem64 m (rsp_reg m)), rsp_reg := rsp_reg m + 8\<rparr>"
| "exec handler (AddRsp v) m = m\<lparr>rsp_reg := rsp_reg m + v\<rparr>"
| "exec handler Iretq m = m\<lparr>rip_reg := mem64 m (rsp_reg m), cs_reg := mem64 m (rsp_reg m + 8),
     rflags_reg := mem64 m (rsp_reg m + 16), rsp_reg := mem64 m (rsp_reg m + 24), ss_reg := mem64 m (rsp_reg m + 32)\<rparr>"

fun run :: "(machine \<Rightarrow> machine) \<Rightarrow> instr list \<Rightarrow> machine \<Rightarrow> machine" where
  "run handler [] m = m"
| "run handler (i # is) m = run handler is (exec handler i m)"

text \<open>
  Delivery of an interrupt in 64-bit mode without a stack switch: the processor aligns the stack pointer to
  16 bytes, pushes SS, RSP, RFLAGS, CS and RIP, and for some exceptions an error code; an interrupt gate clears IF.
\<close>

definition deliver :: "u64 option \<Rightarrow> u64 \<Rightarrow> machine \<Rightarrow> machine" where
  "deliver err handler_addr m =
     (let sp = rsp_reg m;
          m1 = push_value (rip_reg m) (push_value (cs_reg m) (push_value (rflags_reg m) (push_value sp
                 (push_value (ss_reg m) (m\<lparr>rsp_reg := sp AND NOT 15\<rparr>)))));
          m2 = (case err of None \<Rightarrow> m1 | Some c \<Rightarrow> push_value c m1)
      in m2\<lparr>rip_reg := handler_addr, rflags_reg := unset_bit 9 (rflags_reg m)\<rparr>)"

section \<open>The trampolines\<close>

definition save_registers :: "instr list" where
  "save_registers = [Push RAX, Push RDI, Push RSI, Push RDX, Push RCX, Push R8, Push R9, Push R10, Push R11,
     Push RBX, Push RBP, Push R12, Push R13, Push R14, Push R15]"

definition restore_registers :: "instr list" where
  "restore_registers = [Pop R15, Pop R14, Pop R13, Pop R12, Pop RBP, Pop RBX, Pop R11, Pop R10, Pop R9, Pop R8,
     Pop RCX, Pop RDX, Pop RSI, Pop RDI, Pop RAX]"

text \<open>\<^verbatim>\<open>wrap_interrupt_with_error_code!\<close>\<close>

definition trampoline_with_error_code :: "instr list" where
  "trampoline_with_error_code = [Cld] @ save_registers @ [MovRdiRsp, CallHandler] @ restore_registers @ [AddRsp 8, Iretq]"

text \<open>\<^verbatim>\<open>wrap_interrupt!\<close>\<close>

definition trampoline :: "instr list" where
  "trampoline = [Cld, PushImm 0] @ save_registers @ [MovRdiRsp, CallHandler] @ restore_registers @ [AddRsp 8, Iretq]"

record interrupt_stack_frame =
  fr_r15 :: u64
  fr_r14 :: u64
  fr_r13 :: u64
  fr_r12 :: u64
  fr_rbp :: u64
  fr_rbx :: u64
  fr_r11 :: u64
  fr_r10 :: u64
  fr_r9 :: u64
  fr_r8 :: u64
  fr_rcx :: u64
  fr_rdx :: u64
  fr_rsi :: u64
  fr_rdi :: u64
  fr_rax :: u64
  fr_error_code :: u64
  fr_rip :: u64
  fr_cs :: u64
  fr_rflags :: u64
  fr_rsp :: u64
  fr_ss :: u64

text \<open>The \<^verbatim>\<open>repr(C)\<close> structure at an address: its fields are consecutive 8-byte words.\<close>

definition frame_at :: "(u64 \<Rightarrow> u64) \<Rightarrow> u64 \<Rightarrow> interrupt_stack_frame" where
  "frame_at mm a = \<lparr>fr_r15 = mm a, fr_r14 = mm (a + 8), fr_r13 = mm (a + 16), fr_r12 = mm (a + 24),
     fr_rbp = mm (a + 32), fr_rbx = mm (a + 40), fr_r11 = mm (a + 48), fr_r10 = mm (a + 56), fr_r9 = mm (a + 64),
     fr_r8 = mm (a + 72), fr_rcx = mm (a + 80), fr_rdx = mm (a + 88), fr_rsi = mm (a + 96), fr_rdi = mm (a + 104),
     fr_rax = mm (a + 112), fr_error_code = mm (a + 120), fr_rip = mm (a + 128), fr_cs = mm (a + 136),
     fr_rflags = mm (a + 144), fr_rsp = mm (a + 152), fr_ss = mm (a + 160)\<rparr>"

section \<open>The handlers\<close>

text \<open>A handler gets the frame and either returns or panics with a message and its values.\<close>

type_synonym panic_info = "string \<times> u64 list"

definition invalid_opcode_handler :: "interrupt_stack_frame \<Rightarrow> panic_info + interrupt_stack_frame" where
  "invalid_opcode_handler regs = Inr regs"

definition breakpoint_handler :: "interrupt_stack_frame \<Rightarrow> panic_info + interrupt_stack_frame" where
  "breakpoint_handler regs = Inr regs"

text \<open>\<open>cr2\<close> is the value of the processor's CR2.\<close>

definition page_fault_handler :: "u64 \<Rightarrow> interrupt_stack_frame \<Rightarrow> panic_info + interrupt_stack_frame" where
  "page_fault_handler cr2 regs = Inl (''Page fault at address {:#x}, RIP: {:#x}, error code: {:#x}'',
     [cr2, fr_rip regs, fr_error_code regs])"

definition general_protection_fault_handler :: "interrupt_stack_frame \<Rightarrow> panic_info + interrupt_stack_frame" where
  "general_protection_fault_handler regs = Inl (''General Protection Fault at RIP: {:#x}, error code: {:#x}'',
     [fr_rip regs, fr_error_code regs])"

definition double_fault_handler :: "interrupt_stack_frame \<Rightarrow> panic_info + interrupt_stack_frame" where
  "double_fault_handler regs = Inl (''Double Fault at RIP: {:#x}'', [fr_rip regs])"

section \<open>Execution of the trampolines\<close>

lemma run_append: "run h (xs @ ys) m = run h ys (run h xs m)"
  by (induction xs arbitrary: m) auto

text \<open>The machine after the registers are saved, as the handler finds it.\<close>

definition saved :: "(reg \<Rightarrow> u64) \<Rightarrow> u64 \<Rightarrow> (u64 \<Rightarrow> u64) \<Rightarrow> u64 \<Rightarrow> u64" where
  "saved rg a mm = mm(a := rg R15, a + 8 := rg R14, a + 16 := rg R13, a + 24 := rg R12, a + 32 := rg RBP,
     a + 40 := rg RBX, a + 48 := rg R11, a + 56 := rg R10, a + 64 := rg R9, a + 72 := rg R8, a + 80 := rg RCX,
     a + 88 := rg RDX, a + 96 := rg RSI, a + 104 := rg RDI, a + 112 := rg RAX)"

lemma run_save: "run h save_registers m =
    m\<lparr>rsp_reg := rsp_reg m - 120, mem64 := saved (reg m) (rsp_reg m - 120) (mem64 m)\<rparr>"
proof -
  have "mem64 (run h save_registers m) = saved (reg m) (rsp_reg m - 120) (mem64 m)"
    by (rule ext) (simp add: save_registers_def push_value_def saved_def fun_upd_def diff_diff_eq)
  then show ?thesis by (simp add: save_registers_def push_value_def diff_diff_eq)
qed

text \<open>The register a frame holds, and the frame that records a machine interrupted with an error code.\<close>

definition frame_reg :: "interrupt_stack_frame \<Rightarrow> reg \<Rightarrow> u64" where
  "frame_reg fr r = (case r of RAX \<Rightarrow> fr_rax fr | RDI \<Rightarrow> fr_rdi fr | RSI \<Rightarrow> fr_rsi fr | RDX \<Rightarrow> fr_rdx fr | RCX \<Rightarrow> fr_rcx fr
     | R8 \<Rightarrow> fr_r8 fr | R9 \<Rightarrow> fr_r9 fr | R10 \<Rightarrow> fr_r10 fr | R11 \<Rightarrow> fr_r11 fr | RBX \<Rightarrow> fr_rbx fr | RBP \<Rightarrow> fr_rbp fr
     | R12 \<Rightarrow> fr_r12 fr | R13 \<Rightarrow> fr_r13 fr | R14 \<Rightarrow> fr_r14 fr | R15 \<Rightarrow> fr_r15 fr)"

definition snapshot :: "u64 \<Rightarrow> machine \<Rightarrow> interrupt_stack_frame" where
  "snapshot err m = \<lparr>fr_r15 = reg m R15, fr_r14 = reg m R14, fr_r13 = reg m R13, fr_r12 = reg m R12, fr_rbp = reg m RBP,
     fr_rbx = reg m RBX, fr_r11 = reg m R11, fr_r10 = reg m R10, fr_r9 = reg m R9, fr_r8 = reg m R8, fr_rcx = reg m RCX,
     fr_rdx = reg m RDX, fr_rsi = reg m RSI, fr_rdi = reg m RDI, fr_rax = reg m RAX, fr_error_code = err,
     fr_rip = rip_reg m, fr_cs = cs_reg m, fr_rflags = rflags_reg m, fr_rsp = rsp_reg m, fr_ss = ss_reg m\<rparr>"

definition resumes :: "interrupt_stack_frame \<Rightarrow> machine \<Rightarrow> bool" where
  "resumes fr m \<longleftrightarrow> reg m = frame_reg fr \<and> rip_reg m = fr_rip fr \<and> cs_reg m = fr_cs fr \<and>
     rflags_reg m = fr_rflags fr \<and> rsp_reg m = fr_rsp fr \<and> ss_reg m = fr_ss fr"

lemma run_restore: "run h (restore_registers @ [AddRsp 8, Iretq]) m =
    (let fr = frame_at (mem64 m) (rsp_reg m) in
     m\<lparr>reg := frame_reg fr, rip_reg := fr_rip fr, cs_reg := fr_cs fr, rflags_reg := fr_rflags fr,
       rsp_reg := fr_rsp fr, ss_reg := fr_ss fr\<rparr>)"
proof -
  have "reg (run h (restore_registers @ [AddRsp 8, Iretq]) m) = frame_reg (frame_at (mem64 m) (rsp_reg m))"
  proof
    fix r
    show "reg (run h (restore_registers @ [AddRsp 8, Iretq]) m) r = frame_reg (frame_at (mem64 m) (rsp_reg m)) r"
      by (cases r) (simp_all add: restore_registers_def frame_reg_def frame_at_def add.assoc)
  qed
  then show ?thesis
    by (simp add: restore_registers_def frame_at_def Let_def add.assoc)
qed

text \<open>The machine at the call of the handler, for an interrupt with an error code and one without.\<close>

definition at_call :: "u64 option \<Rightarrow> u64 \<Rightarrow> machine \<Rightarrow> machine" where
  "at_call err addr m = (case err of
     None \<Rightarrow> run id ([Cld, PushImm 0] @ save_registers @ [MovRdiRsp]) (deliver None addr m)
   | Some c \<Rightarrow> run id ([Cld] @ save_registers @ [MovRdiRsp]) (deliver (Some c) addr m))"

definition trampoline_for :: "u64 option \<Rightarrow> instr list" where
  "trampoline_for err = (if err = None then trampoline else trampoline_with_error_code)"

lemma run_no_call: "CallHandler \<notin> set is \<Longrightarrow> run h is m = run h' is m"
proof (induction "is" arbitrary: m)
  case (Cons i "is")
  then show ?case by (cases i) auto
qed simp

lemma run_call:
  assumes "CallHandler \<notin> set xs"
  shows "run h (xs @ CallHandler # ys) m = run h ys (h (run id xs m))"
  using run_no_call [OF assms, of h m id] by (simp add: run_append)

lemma run_trampoline:
  "run h (trampoline_for err) (deliver err addr m) = run h (restore_registers @ [AddRsp 8, Iretq]) (h (at_call err addr m))"
proof (cases err)
  case None
  have t: "trampoline = ([Cld, PushImm 0] @ save_registers @ [MovRdiRsp]) @ CallHandler # restore_registers @ [AddRsp 8, Iretq]"
    by (simp add: trampoline_def)
  have n: "CallHandler \<notin> set ([Cld, PushImm 0] @ save_registers @ [MovRdiRsp])"
    by (simp add: save_registers_def)
  show ?thesis
    by (simp only: trampoline_for_def at_call_def None t run_call [OF n] option.case if_True refl)
next
  case (Some c)
  have t: "trampoline_with_error_code = ([Cld] @ save_registers @ [MovRdiRsp]) @ CallHandler # restore_registers @ [AddRsp 8, Iretq]"
    by (simp add: trampoline_with_error_code_def)
  have n: "CallHandler \<notin> set ([Cld] @ save_registers @ [MovRdiRsp])"
    by (simp add: save_registers_def)
  show ?thesis
    by (simp only: trampoline_for_def at_call_def Some t run_call [OF n] option.case option.distinct if_False refl)
qed

lemma at_call_rsp: "rsp_reg (at_call err addr m) = (rsp_reg m AND NOT 15) - 168"
  by (simp add: at_call_def run_append run_save deliver_def push_value_def Let_def diff_diff_eq split: option.splits)

lemma at_call_rdi: "reg (at_call err addr m) RDI = rsp_reg (at_call err addr m)"
  by (simp add: at_call_def run_append split: option.splits)

lemma at_call_frame:
  "frame_at (mem64 (at_call err addr m)) (rsp_reg (at_call err addr m)) = snapshot (case err of None \<Rightarrow> 0 | Some c \<Rightarrow> c) m"
  by (cases err) (simp_all add: at_call_def run_append run_save deliver_def push_value_def Let_def frame_at_def
      snapshot_def saved_def diff_diff_eq)

text \<open>
  What a handler compiled for the C calling convention guarantees at a call in machine \<open>m\<close>: it returns with
  the stack pointer it was called with.
\<close>

definition returns_balanced :: "(machine \<Rightarrow> machine) \<Rightarrow> machine \<Rightarrow> bool" where
  "returns_balanced h m \<longleftrightarrow> rsp_reg (h m) = rsp_reg m"

lemma trampoline_resumes:
  assumes "returns_balanced h (at_call err addr m)"
  shows "resumes (frame_at (mem64 (h (at_call err addr m))) (rsp_reg (at_call err addr m)))
    (run h (trampoline_for err) (deliver err addr m))"
  using assms unfolding run_trampoline run_restore
  by (simp add: resumes_def returns_balanced_def Let_def)

lemma snapshot_resumes: "resumes (snapshot err m) m' \<Longrightarrow> reg m' = reg m \<and> rip_reg m' = rip_reg m \<and>
    cs_reg m' = cs_reg m \<and> rflags_reg m' = rflags_reg m \<and> rsp_reg m' = rsp_reg m \<and> ss_reg m' = ss_reg m"
proof -
  assume r: "resumes (snapshot err m) m'"
  have "frame_reg (snapshot err m) = reg m"
  proof
    fix x
    show "frame_reg (snapshot err m) x = reg m x" by (cases x) (simp_all add: frame_reg_def snapshot_def)
  qed
  with r show ?thesis by (simp add: resumes_def) (simp add: snapshot_def)
qed

lemma and_not_15_mod: "((x AND NOT 15) - 168) AND 15 = (8 :: u64)"
proof -
  have m: "(15 :: u64) = mask 4" "(8 :: u64) = 2 ^ 3" by (simp_all add: mask_eq_exp_minus_1)
  let ?z = "drop_bit 4 x - 11"
  have "x AND NOT (mask 4) = push_bit 4 (drop_bit 4 x)" by (rule bit_word_eqI) (auto simp: bit_simps)
  then have "(x AND NOT (mask 4)) - 168 = push_bit 4 ?z + 2 ^ 3" by (simp add: push_bit_eq_mult algebra_simps)
  also have "\<dots> = push_bit 4 ?z OR 2 ^ 3" by (rule disjunctive_add) (simp only: bit_push_bit_iff bit_exp_iff, auto)
  finally show ?thesis unfolding m
    by (simp only:) (rule bit_word_eqI, auto simp only: bit_and_iff bit_or_iff bit_push_bit_iff bit_exp_iff bit_mask_iff)
qed

section \<open>Properties\<close>

text \<open>
  C21: whatever is interrupted, with or without an error code, the handler is called with its argument
  pointing at an \<^verbatim>\<open>InterruptStackFrame\<close> whose fields are the interrupted registers, the error code (0 if
  the processor pushes none) and the interrupted RIP, CS, RFLAGS, RSP and SS.
\<close>

theorem handler_sees_frame:
  "frame_at (mem64 (at_call err addr m)) (reg (at_call err addr m) RDI) = snapshot (case err of None \<Rightarrow> 0 | Some c \<Rightarrow> c) m"
  by (simp only: at_call_rdi at_call_frame)

text \<open>
  C7: when the handler returns balanced, the trampoline resumes exactly what the frame then
  says; so a handler that leaves the frame alone is invisible to the interrupted code: all fifteen general
  registers, RIP, CS, RFLAGS, RSP and SS are back. In particular an exception whose handler just returns
  (\<^verbatim>\<open>divide_by_zero\<close> is wired to such a handler) resumes at the faulting instruction.
\<close>

theorem trampoline_transparent:
  assumes "returns_balanced h (at_call err addr m)"
  shows "let fr = frame_at (mem64 (h (at_call err addr m))) (rsp_reg (at_call err addr m));
             m' = run h (trampoline_for err) (deliver err addr m)
         in resumes fr m' \<and> (fr = snapshot (case err of None \<Rightarrow> 0 | Some c \<Rightarrow> c) m \<longrightarrow>
              reg m' = reg m \<and> rip_reg m' = rip_reg m \<and> cs_reg m' = cs_reg m \<and> rflags_reg m' = rflags_reg m \<and>
              rsp_reg m' = rsp_reg m \<and> ss_reg m' = ss_reg m)"
  using trampoline_resumes [OF assms] by (simp add: Let_def) (metis snapshot_resumes)

definition sample_machine :: machine where
  "sample_machine = \<lparr>reg = (\<lambda>r. if r = RBX then 7 else 1), rsp_reg = 0x9FF8, mem64 = (\<lambda>_. 0), rip_reg = 0x100010,
     cs_reg = 16, rflags_reg = 0x202, ss_reg = 8\<rparr>"

theorem trampoline_transparent_witness:
  "reg (run id (trampoline_for None) (deliver None 0x200000 sample_machine)) RBX = 7 \<and>
   rip_reg (run id (trampoline_for None) (deliver None 0x200000 sample_machine)) = 0x100010 \<and>
   rsp_reg (run id (trampoline_for None) (deliver None 0x200000 sample_machine)) = 0x9FF8"
  using trampoline_transparent [of id None "0x200000" sample_machine] at_call_frame [of None "0x200000" sample_machine]
  by (simp add: returns_balanced_def Let_def) (simp add: sample_machine_def)

text \<open>
  C40: at the call of the handler the stack pointer is always 8 modulo 16, because the
  processor's frame with the error code slot has six words and the trampoline pushes fifteen. The System V calling
  convention, which \<^verbatim>\<open>extern "C"\<close> handlers follow, wants 0 there.
\<close>

theorem handler_stack_misaligned:
  "rsp_reg (at_call err addr m) AND 15 = 8"
  by (simp only: at_call_rsp and_not_15_mod)

end
