(* ===== verification/Gdt.thy ===== *)
theory Gdt
  imports Bit_Fields
begin

text \<open>
  The Global Descriptor Table: \<^verbatim>\<open>src/src/gdt/types.rs\<close>, \<^verbatim>\<open>src/src/gdt/mod.rs\<close>, the per-CPU data of
  \<^verbatim>\<open>src/src/cpu.rs\<close> and the errors of \<^verbatim>\<open>src/src/error.rs\<close>. The accessors generated by the \<^verbatim>\<open>bitfield\<close>
  crate, the task state segment and the segment selectors of the \<^verbatim>\<open>x86\<close> crate are parameters.
  Loading the tables is recorded as the list of privileged instructions executed.
\<close>

section \<open>Errors\<close>

datatype error = NoSuchScript | InvalidDescriptorType u8 | Other string

section \<open>Access bytes\<close>

type_synonym access_byte = u8

definition set_present :: "u8 bit_setter \<Rightarrow> bool \<Rightarrow> access_byte \<Rightarrow> access_byte" where
  "set_present sb b a = sb a 7 b"

definition set_privilege :: "u8 range_setter \<Rightarrow> u8 \<Rightarrow> access_byte \<Rightarrow> access_byte" where
  "set_privilege sr v a = sr a 5 7 v"

definition set_code_data :: "u8 bit_setter \<Rightarrow> bool \<Rightarrow> access_byte \<Rightarrow> access_byte" where
  "set_code_data sb b a = sb a 4 b"

definition set_executable :: "u8 bit_setter \<Rightarrow> bool \<Rightarrow> access_byte \<Rightarrow> access_byte" where
  "set_executable sb b a = sb a 3 b"

definition set_direction :: "u8 bit_setter \<Rightarrow> bool \<Rightarrow> access_byte \<Rightarrow> access_byte" where
  "set_direction sb b a = sb a 2 b"

definition set_read_write :: "u8 bit_setter \<Rightarrow> bool \<Rightarrow> access_byte \<Rightarrow> access_byte" where
  "set_read_write sb b a = sb a 1 b"

definition set_accessed :: "u8 bit_setter \<Rightarrow> bool \<Rightarrow> access_byte \<Rightarrow> access_byte" where
  "set_accessed sb b a = sb a 0 b"

definition new_access :: "u8 bit_setter \<Rightarrow> access_byte" where
  "new_access sb = set_code_data sb True (set_present sb True 0)"

definition not_present :: access_byte where
  "not_present = 0"

datatype system_descriptor_type = AvailableTss | BusyTss

definition descriptor_code :: "system_descriptor_type \<Rightarrow> u8" where
  "descriptor_code d = (case d of AvailableTss \<Rightarrow> 0b1001 | BusyTss \<Rightarrow> 0b1011)"

definition descriptor_of_code :: "u8 \<Rightarrow> error + system_descriptor_type" where
  "descriptor_of_code c =
     (if c = 0b1001 then Inr AvailableTss else if c = 0b1011 then Inr BusyTss else Inl (InvalidDescriptorType c))"

definition set_real_descriptor_type :: "u8 range_setter \<Rightarrow> u8 \<Rightarrow> access_byte \<Rightarrow> access_byte" where
  "set_real_descriptor_type sr v a = sr a 0 4 v"

definition set_descriptor_type :: "u8 range_setter \<Rightarrow> system_descriptor_type \<Rightarrow> access_byte \<Rightarrow> access_byte" where
  "set_descriptor_type sr d a = set_real_descriptor_type sr (descriptor_code d) a"

definition new_system_access :: "u8 bit_setter \<Rightarrow> u8 range_setter \<Rightarrow> system_descriptor_type \<Rightarrow> access_byte" where
  "new_system_access sb sr d = set_descriptor_type sr d (set_code_data sb False (set_present sb True 0))"

section \<open>Descriptors\<close>

definition GDT_F_LONG_MODE :: u8 where "GDT_F_LONG_MODE = push_bit 5 1"

record gdt_entry =
  limitl :: u16
  offsetl :: u16
  offsetm :: u8
  access :: u8
  flags_limith :: u8
  offseth :: u8

definition new_entry :: "u32 \<Rightarrow> u32 \<Rightarrow> access_byte \<Rightarrow> u8 \<Rightarrow> gdt_entry" where
  "new_entry off lim acc flags =
     \<lparr>limitl = ucast lim, offsetl = ucast off, offsetm = ucast (drop_bit 16 off), access = acc,
      flags_limith = (flags AND 0xF0) OR (ucast (drop_bit 16 lim) AND 0x0F), offseth = ucast (drop_bit 24 off)\<rparr>"

definition empty_entry :: gdt_entry where
  "empty_entry = new_entry 0 0 not_present 0"

definition access_bytes :: "gdt_entry \<Rightarrow> u32" where
  "access_bytes e = (let flags = flags_limith e AND 0b11110000 in ucast (access e) OR push_bit 8 (ucast flags))"

record big_gdt_entry =
  big_limitl :: u16
  big_offsetl :: u16
  big_offsetm :: u8
  access_type :: u8
  big_flags_limith :: u8
  big_offseth :: u8
  offsetx :: u32
  big_reserved :: u32

definition new_big_entry :: "u64 \<Rightarrow> u32 \<Rightarrow> access_byte \<Rightarrow> u8 \<Rightarrow> big_gdt_entry" where
  "new_big_entry off lim acc flags =
     \<lparr>big_limitl = ucast lim, big_offsetl = ucast off, big_offsetm = ucast (drop_bit 16 off), access_type = acc,
      big_flags_limith = (flags AND 0xF0) OR (ucast (drop_bit 16 lim) AND 0x0F),
      big_offseth = ucast (drop_bit 24 off), offsetx = ucast (drop_bit 32 off), big_reserved = 0\<rparr>"

definition empty_big_entry :: big_gdt_entry where
  "empty_big_entry = new_big_entry 0 0 not_present 0"

definition big_access_bytes :: "big_gdt_entry \<Rightarrow> u32" where
  "big_access_bytes e = (let flags = big_flags_limith e AND 0b11110000 in ucast (access_type e) OR push_bit 8 (ucast flags))"

record global_descriptor_table =
  null_entry :: gdt_entry
  kernel_data :: gdt_entry
  kernel_code :: gdt_entry
  user_data :: gdt_entry
  user_code :: gdt_entry
  tss_entry :: big_gdt_entry

definition KERNEL_DATA_INDEX :: u16 where "KERNEL_DATA_INDEX = 1"
definition KERNEL_CODE_INDEX :: u16 where "KERNEL_CODE_INDEX = 2"
definition USER_DATA_INDEX :: u16 where "USER_DATA_INDEX = 3"
definition USER_CODE_INDEX :: u16 where "USER_CODE_INDEX = 4"
definition TSS_INDEX :: u16 where "TSS_INDEX = 5"

lemmas gdt_indices = KERNEL_DATA_INDEX_def KERNEL_CODE_INDEX_def USER_DATA_INDEX_def USER_CODE_INDEX_def TSS_INDEX_def

definition empty_gdt :: global_descriptor_table where
  "empty_gdt = \<lparr>null_entry = empty_entry, kernel_data = empty_entry, kernel_code = empty_entry,
     user_data = empty_entry, user_code = empty_entry, tss_entry = empty_big_entry\<rparr>"

text \<open>The bytes of the table in memory, each structure packed in the order its fields are declared.\<close>

definition entry_bytes :: "gdt_entry \<Rightarrow> u8 list" where
  "entry_bytes e = le_bytes 2 (unat (limitl e)) @ le_bytes 2 (unat (offsetl e)) @ [offsetm e, access e, flags_limith e, offseth e]"

definition big_entry_bytes :: "big_gdt_entry \<Rightarrow> u8 list" where
  "big_entry_bytes e = le_bytes 2 (unat (big_limitl e)) @ le_bytes 2 (unat (big_offsetl e)) @
     [big_offsetm e, access_type e, big_flags_limith e, big_offseth e] @
     le_bytes 4 (unat (offsetx e)) @ le_bytes 4 (unat (big_reserved e))"

definition gdt_bytes :: "global_descriptor_table \<Rightarrow> u8 list" where
  "gdt_bytes g = entry_bytes (null_entry g) @ entry_bytes (kernel_data g) @ entry_bytes (kernel_code g) @
     entry_bytes (user_data g) @ entry_bytes (user_code g) @ big_entry_bytes (tss_entry g)"

section \<open>Per-CPU data\<close>

definition IST_STACK_SIZE :: usize where "IST_STACK_SIZE = 1 * 1024 * 1024"

text \<open>A stack is known by the address of its array.\<close>

record stack =
  stack_ptr :: usize

definition bottom :: "stack \<Rightarrow> usize" where
  "bottom st = stack_ptr st + IST_STACK_SIZE"

record ('t, 'x) cpu =
  cpu_id :: usize
  xapic :: "'x option"
  gdt :: global_descriptor_table
  tss :: 't
  ist :: "stack list"

text \<open>\<^verbatim>\<open>Cpu::new\<close> with its seven stacks one after the other from \<open>ist_base\<close> on; \<open>tss_new\<close> is the crate's empty TSS.\<close>

definition new_cpu :: "'t \<Rightarrow> usize \<Rightarrow> ('t, 'x) cpu" where
  "new_cpu tss_new ist_base = \<lparr>cpu_id = 0, xapic = None, gdt = empty_gdt, tss = tss_new,
     ist = map (\<lambda>i. \<lparr>stack_ptr = ist_base + i * IST_STACK_SIZE\<rparr>) [0..<7]\<rparr>"

definition get_cpu_id :: int where
  "get_cpu_id = 0"

section \<open>Initialisation\<close>

datatype ring = Ring0 | Ring1 | Ring2 | Ring3

text \<open>
  What the \<^verbatim>\<open>x86\<close> crate provides: the task state segment and the selectors. Setting a stack that the segment does not
  have panics in the crate.
\<close>

record 't x86_crate =
  set_ist :: "nat \<Rightarrow> u64 \<Rightarrow> 't \<Rightarrow> 't result"
  set_rsp :: "ring \<Rightarrow> u64 \<Rightarrow> 't \<Rightarrow> 't result"
  tss_size :: usize
  selector_bits :: "u16 \<Rightarrow> ring \<Rightarrow> u16"

definition USER_CS :: "'t x86_crate \<Rightarrow> u16" where "USER_CS x = selector_bits x USER_CODE_INDEX Ring3"
definition USER_SS :: "'t x86_crate \<Rightarrow> u16" where "USER_SS x = selector_bits x USER_DATA_INDEX Ring3"
definition KERNEL_CS :: "'t x86_crate \<Rightarrow> u16" where "KERNEL_CS x = selector_bits x KERNEL_CODE_INDEX Ring0"
definition KERNEL_SS :: "'t x86_crate \<Rightarrow> u16" where "KERNEL_SS x = selector_bits x KERNEL_DATA_INDEX Ring0"

datatype privileged = Lgdt u16 usize | LoadCs u16 | LoadDs u16 | LoadEs u16 | LoadSs u16 | LoadTr u16

definition get_pointer :: "usize \<Rightarrow> global_descriptor_table \<Rightarrow> privileged result" where
  "get_pointer gdt_addr g =
     (let limit = length (gdt_bytes g) in
      if limit < 2 ^ 16 then Inr (Lgdt (of_nat limit) gdt_addr) else Inl (ExpectFailed ''GDT too big''))"

definition init_tss :: "'t x86_crate \<Rightarrow> ('t, 'x) cpu \<Rightarrow> ('t, 'x) cpu result" where
  "init_tss x c =
     and_then (for_each [0..<min (length (ist c)) 7] (\<lambda>i c.
       and_then (get_at (ist c) i) (\<lambda>st.
       and_then (set_ist x i (of_nat (bottom st)) (tss c)) (\<lambda>t. Inr (c\<lparr>tss := t\<rparr>)))) c) (\<lambda>c.
     and_then (get_at (ist c) 0) (\<lambda>st.
     and_then (set_rsp x Ring0 (of_nat (bottom st)) (tss c)) (\<lambda>t. Inr (c\<lparr>tss := t\<rparr>))))"

definition segment_access :: "u8 bit_setter \<Rightarrow> u8 range_setter \<Rightarrow> u8 \<Rightarrow> bool \<Rightarrow> access_byte" where
  "segment_access sb sr dpl ex = set_read_write sb True (set_executable sb ex (set_privilege sr dpl (new_access sb)))"

definition init_gdt :: "u8 bit_setter \<Rightarrow> u8 range_setter \<Rightarrow> 't x86_crate \<Rightarrow> usize \<Rightarrow> global_descriptor_table \<Rightarrow> global_descriptor_table" where
  "init_gdt sb sr x tss_addr g =
     g\<lparr>kernel_data := new_entry 0 0 (segment_access sb sr 0 False) GDT_F_LONG_MODE,
       kernel_code := new_entry 0 0 (segment_access sb sr 0 True) GDT_F_LONG_MODE,
       user_data := new_entry 0 0 (segment_access sb sr 3 False) GDT_F_LONG_MODE,
       user_code := new_entry 0 0 (segment_access sb sr 3 True) GDT_F_LONG_MODE,
       tss_entry := new_big_entry (of_nat tss_addr) (of_nat (tss_size x))
                      (set_privilege sr 3 (new_system_access sb sr AvailableTss)) 0\<rparr>"

definition gdt_init_cpu ::
  "u8 bit_setter \<Rightarrow> u8 range_setter \<Rightarrow> 't x86_crate \<Rightarrow> usize \<Rightarrow> usize \<Rightarrow> ('t, 'x) cpu \<Rightarrow> (privileged list \<times> ('t, 'x) cpu) result" where
  "gdt_init_cpu sb sr x gdt_addr tss_addr c =
     and_then (init_tss x c) (\<lambda>c.
       let c = c\<lparr>gdt := init_gdt sb sr x tss_addr (gdt c)\<rparr>; sel = selector_bits x in
     and_then (get_pointer gdt_addr (gdt c)) (\<lambda>lgdt.
     Inr ([lgdt, LoadCs (sel KERNEL_CODE_INDEX Ring0), LoadDs (sel KERNEL_DATA_INDEX Ring0),
           LoadEs (sel KERNEL_DATA_INDEX Ring0), LoadSs (sel KERNEL_DATA_INDEX Ring0), LoadTr (sel TSS_INDEX Ring0)], c)))"

section \<open>The processor's view of a descriptor\<close>

text \<open>The fields the processor extracts from the bytes of a descriptor (Intel SDM Vol. 3, Figures 3-8 and 8-4).\<close>

definition desc_base :: "u8 list \<Rightarrow> nat" where
  "desc_base bs = of_le_bytes [bs ! 2, bs ! 3, bs ! 4, bs ! 7]"

definition desc_limit :: "u8 list \<Rightarrow> nat" where
  "desc_limit bs = of_le_bytes [bs ! 0, bs ! 1, bs ! 6 AND 0x0F]"

definition desc_access :: "u8 list \<Rightarrow> u8" where
  "desc_access bs = bs ! 5"

definition desc_flags :: "u8 list \<Rightarrow> u8" where
  "desc_flags bs = bs ! 6 AND 0xF0"

definition sys_base :: "u8 list \<Rightarrow> nat" where
  "sys_base bs = of_le_bytes [bs ! 2, bs ! 3, bs ! 4, bs ! 7, bs ! 8, bs ! 9, bs ! 10, bs ! 11]"

lemma ucast_drop_bit_u8: "(ucast (drop_bit k w) :: u8) = of_nat (unat w div 2 ^ k mod 256)"
  for w :: "'a::len word"
  by (simp only: ucast_drop_bit_of_nat word_unat_eq_iff unat_of_nat) simp

lemma unat_ucast_u16: "unat (ucast w :: u16) = unat w mod 65536"
  for w :: "'a::len word"
  by (simp only: unat_ucast_mod) simp

lemma le_bytes_take:
  "le_bytes 2 x = [of_nat (x mod 256), of_nat (x div 256 mod 256)]"
  "le_bytes 4 x = [of_nat (x mod 256), of_nat (x div 256 mod 256), of_nat (x div 65536 mod 256), of_nat (x div 16777216 mod 256)]"
proof -
  have n: "2 = Suc (Suc 0)" "4 = Suc (Suc (Suc (Suc 0)))" by simp_all
  have "x div 256 div 256 = x div (256 * 256)" "x div 256 div 256 div 256 = x div (256 * 256 * 256)"
    by (simp_all only: div_mult2_eq)
  then have d: "x div 256 div 256 = x div 65536" "x div 65536 div 256 = x div 16777216" by simp_all
  show "le_bytes 2 x = [of_nat (x mod 256), of_nat (x div 256 mod 256)]"
    by (simp only: n(1) le_bytes.simps)
  show "le_bytes 4 x = [of_nat (x mod 256), of_nat (x div 256 mod 256), of_nat (x div 65536 mod 256), of_nat (x div 16777216 mod 256)]"
    by (simp only: n(2) le_bytes.simps d)
qed

lemma mod_16_bits: "(x mod 65536) mod 256 = x mod (256::nat)" "(x mod 65536) div 256 mod 256 = x div 256 mod (256::nat)"
proof -
  have "x mod (256 * 256) = 256 * (x div 256 mod 256) + x mod 256" by (rule mod_mult2_eq)
  then show "(x mod 65536) mod 256 = x mod (256::nat)" "(x mod 65536) div 256 mod 256 = x div 256 mod (256::nat)"
    by simp_all
qed

lemma entry_bytes_nth:
  assumes "e = new_entry off lim acc fl"
  shows "entry_bytes e = [of_nat (unat lim mod 256), of_nat (unat lim div 256 mod 256),
     of_nat (unat off mod 256), of_nat (unat off div 256 mod 256), of_nat (unat off div 65536 mod 256), acc,
     (fl AND 0xF0) OR (of_nat (unat lim div 65536 mod 256) AND 0x0F), of_nat (unat off div 16777216 mod 256)]"
  unfolding assms entry_bytes_def new_entry_def
  by (simp add: le_bytes_take unat_ucast_u16 ucast_drop_bit_u8 mod_16_bits)

lemma big_entry_bytes_nth:
  assumes "e = new_big_entry off lim acc fl"
  shows "\<exists>r. big_entry_bytes e = [of_nat (unat lim mod 256), of_nat (unat lim div 256 mod 256),
     of_nat (unat off mod 256), of_nat (unat off div 256 mod 256), of_nat (unat off div 65536 mod 256), acc,
     (fl AND 0xF0) OR (of_nat (unat lim div 65536 mod 256) AND 0x0F), of_nat (unat off div 16777216 mod 256)] @
     le_bytes 4 (unat off div 4294967296) @ r \<and> length r = 4"
proof -
  have "unat off div 4294967296 < 4294967296" using unsigned_less [of off] by (intro less_mult_imp_div_less) simp
  then have x: "unat (ucast (drop_bit 32 off) :: u32) = unat off div 4294967296"
    by (simp only: unat_ucast_mod unat_drop_bit) simp
  show ?thesis
    unfolding assms big_entry_bytes_def new_big_entry_def
    by (simp add: le_bytes_take(1) unat_ucast_u16 ucast_drop_bit_u8 mod_16_bits x)
qed

lemma of_le_bytes_4: "x < 4294967296 \<Longrightarrow>
  of_le_bytes [of_nat (x mod 256), of_nat (x div 256 mod 256), of_nat (x div 65536 mod 256), of_nat (x div 16777216 mod 256)] = x"
  using of_le_bytes_le_bytes [of 4 x] unfolding le_bytes_take(2) by simp

lemma of_le_bytes_append: "of_le_bytes (as @ bs) = of_le_bytes as + 256 ^ length as * of_le_bytes bs"
  by (induction as) (simp_all add: algebra_simps)

lemma high_nibble: "((f AND 0xF0) OR (w AND 0x0F)) AND 0x0F = w AND (0x0F :: u8)"
  "((f AND 0xF0) OR (w AND 0x0F)) AND 0xF0 = f AND (0xF0 :: u8)"
  by (simp_all add: bit.conj_disj_distrib2 and.assoc)

lemma limit_bytes: "of_le_bytes [of_nat (x mod 256), of_nat (x div 256 mod 256), of_nat (x div 65536 mod 256) AND 0x0F] = x mod 1048576"
proof -
  have "unat (of_nat (x div 65536 mod 256) AND 0x0F :: u8) = x div 65536 mod 16"
  proof -
    have "unat (of_nat (x div 65536 mod 256) AND mask 4 :: u8) = x div 65536 mod 256 mod 2 ^ 4"
      by (simp only: take_bit_eq_mask [symmetric] unsigned_take_bit_eq) (simp add: take_bit_eq_mod unat_of_nat)
    moreover have "(mask 4 :: u8) = 0x0F" by (simp add: mask_eq_exp_minus_1)
    ultimately show ?thesis by (simp add: mod_mod_cancel)
  qed
  moreover have "x mod (65536 * 16) = 65536 * (x div 65536 mod 16) + x mod 65536" by (rule mod_mult2_eq)
  moreover have "x mod (256 * 256) = 256 * (x div 256 mod 256) + x mod 256" by (rule mod_mult2_eq)
  ultimately show ?thesis by (simp add: unat_of_nat)
qed

lemma entry_fields:
  "desc_base (entry_bytes (new_entry off lim acc fl)) = unat off"
  "desc_limit (entry_bytes (new_entry off lim acc fl)) = unat lim mod 1048576"
  "desc_access (entry_bytes (new_entry off lim acc fl)) = acc"
  "desc_flags (entry_bytes (new_entry off lim acc fl)) = fl AND 0xF0"
  "length (entry_bytes (new_entry off lim acc fl)) = 8"
proof -
  have "unat off < 4294967296" using unsigned_less [of off] by simp
  note b = of_le_bytes_4 [OF this]
  note e = entry_bytes_nth [OF refl, of off lim acc fl]
  show "desc_base (entry_bytes (new_entry off lim acc fl)) = unat off"
    unfolding desc_base_def e using b by (simp only: nth_Cons_numeral numeral_2_eq_2 nth_Cons_0 nth_Cons_Suc) simp
  show "desc_limit (entry_bytes (new_entry off lim acc fl)) = unat lim mod 1048576"
    unfolding desc_limit_def e using limit_bytes [of "unat lim"] by (simp only: nth_Cons_numeral nth_Cons_0 nth_Cons_Suc) (simp add: high_nibble)
  show "desc_access (entry_bytes (new_entry off lim acc fl)) = acc"
    "desc_flags (entry_bytes (new_entry off lim acc fl)) = fl AND 0xF0"
    "length (entry_bytes (new_entry off lim acc fl)) = 8"
    unfolding desc_access_def desc_flags_def e by (simp_all add: high_nibble)
qed

lemma big_entry_fields:
  "sys_base (big_entry_bytes (new_big_entry off lim acc fl)) = unat off"
  "desc_limit (big_entry_bytes (new_big_entry off lim acc fl)) = unat lim mod 1048576"
  "desc_access (big_entry_bytes (new_big_entry off lim acc fl)) = acc"
  "desc_flags (big_entry_bytes (new_big_entry off lim acc fl)) = fl AND 0xF0"
  "length (big_entry_bytes (new_big_entry off lim acc fl)) = 16"
proof -
  obtain r where e: "big_entry_bytes (new_big_entry off lim acc fl) = [of_nat (unat lim mod 256), of_nat (unat lim div 256 mod 256),
     of_nat (unat off mod 256), of_nat (unat off div 256 mod 256), of_nat (unat off div 65536 mod 256), acc,
     (fl AND 0xF0) OR (of_nat (unat lim div 65536 mod 256) AND 0x0F), of_nat (unat off div 16777216 mod 256)] @
     le_bytes 4 (unat off div 4294967296) @ r" and r: "length r = 4"
    using big_entry_bytes_nth [OF refl] by blast
  let ?lo = "unat off mod 4294967296" and ?hi = "unat off div 4294967296"
  have hi: "?hi < 4294967296" using unsigned_less [of off] by (intro less_mult_imp_div_less) simp
  have "sys_base (big_entry_bytes (new_big_entry off lim acc fl)) = of_le_bytes (le_bytes 4 (unat off) @ le_bytes 4 ?hi)"
    unfolding sys_base_def e by (simp add: le_bytes_take(2))
  also have "\<dots> = ?lo + 4294967296 * ?hi"
    using hi by (simp add: of_le_bytes_append of_le_bytes_le_bytes)
  finally show "sys_base (big_entry_bytes (new_big_entry off lim acc fl)) = unat off" by simp
  show "desc_limit (big_entry_bytes (new_big_entry off lim acc fl)) = unat lim mod 1048576"
    unfolding desc_limit_def e using limit_bytes [of "unat lim"] by (simp add: high_nibble)
  show "desc_access (big_entry_bytes (new_big_entry off lim acc fl)) = acc"
    "desc_flags (big_entry_bytes (new_big_entry off lim acc fl)) = fl AND 0xF0"
    "length (big_entry_bytes (new_big_entry off lim acc fl)) = 16"
    unfolding desc_access_def desc_flags_def e by (simp_all add: high_nibble r)
qed

section \<open>The table after initialisation\<close>

lemma bit_u8_eqI: "(\<And>k. k \<in> {0, 1, 2, 3, 4, 5, 6, 7} \<Longrightarrow> bit v k = bit w k) \<Longrightarrow> v = (w :: u8)"
  by (rule bit_word_eqI) (auto simp: less_Suc_eq numeral_eq_Suc)

lemma segment_access_values:
  assumes "sets_bit sb" and "sets_bits sr"
  shows "segment_access sb sr 0 False = 0x92" "segment_access sb sr 0 True = 0x9A"
    "segment_access sb sr 3 False = 0xF2" "segment_access sb sr 3 True = 0xFA"
  by (rule bit_u8_eqI, auto simp: segment_access_def set_read_write_def set_executable_def set_privilege_def
      new_access_def set_code_data_def set_present_def sets_bitD [OF assms(1)] sets_bitsD [OF assms(2)])+

lemma tss_access_value:
  assumes "sets_bit sb" and "sets_bits sr"
  shows "set_privilege sr 3 (new_system_access sb sr AvailableTss) = 0xE9"
  by (rule bit_u8_eqI, auto simp: set_privilege_def new_system_access_def set_descriptor_type_def
      set_real_descriptor_type_def descriptor_code_def set_code_data_def set_present_def
      sets_bitD [OF assms(1)] sets_bitsD [OF assms(2)])

text \<open>The documented behaviour of the task state segment: it has seven interrupt stacks and a stack for each of the rings 0 to 2, and
  setting one of them changes that one only.\<close>

definition tss_laws :: "'t x86_crate \<Rightarrow> ('t \<Rightarrow> nat \<Rightarrow> u64) \<Rightarrow> ('t \<Rightarrow> ring \<Rightarrow> u64) \<Rightarrow> bool" where
  "tss_laws x get_ist get_rsp \<longleftrightarrow>
     (\<forall>t i v. i < 7 \<longrightarrow> (\<exists>t'. set_ist x i v t = Inr t' \<and> get_ist t' i = v \<and>
        (\<forall>j. j < 7 \<and> j \<noteq> i \<longrightarrow> get_ist t' j = get_ist t j) \<and> (\<forall>r. r \<noteq> Ring3 \<longrightarrow> get_rsp t' r = get_rsp t r))) \<and>
     (\<forall>t r v. r \<noteq> Ring3 \<longrightarrow> (\<exists>t'. set_rsp x r v t = Inr t' \<and> get_rsp t' r = v \<and> (\<forall>j<7. get_ist t' j = get_ist t j)))"

lemma ist_loop:
  assumes "tss_laws x get_ist get_rsp" and "n \<le> length (ist c)" and "n \<le> 7"
  shows "\<exists>t. for_each [0..<n] (\<lambda>i c. and_then (get_at (ist c) i) (\<lambda>st.
       and_then (set_ist x i (of_nat (bottom st)) (tss c)) (\<lambda>t. Inr (c\<lparr>tss := t\<rparr>)))) c = Inr (c\<lparr>tss := t\<rparr>) \<and>
    (\<forall>i<n. get_ist t i = of_nat (bottom (ist c ! i)))"
  using assms(2,3)
proof (induction n)
  case 0
  then show ?case by (auto intro: exI [of _ "tss c"])
next
  case (Suc n)
  then obtain t where t: "for_each [0..<n] (\<lambda>i c. and_then (get_at (ist c) i) (\<lambda>st.
       and_then (set_ist x i (of_nat (bottom st)) (tss c)) (\<lambda>t. Inr (c\<lparr>tss := t\<rparr>)))) c = Inr (c\<lparr>tss := t\<rparr>)"
    "\<forall>i<n. get_ist t i = of_nat (bottom (ist c ! i))" by auto
  from Suc.prems assms(1) obtain t' where
    t': "set_ist x n (of_nat (bottom (ist c ! n))) t = Inr t'" "get_ist t' n = of_nat (bottom (ist c ! n))"
      "\<forall>j. j < 7 \<and> j \<noteq> n \<longrightarrow> get_ist t' j = get_ist t j" unfolding tss_laws_def by (metis Suc_le_lessD)
  then show ?case using Suc.prems t by (intro exI [of _ t']) (simp add: for_each_append less_Suc_eq)
qed

lemma init_tss_ok:
  assumes "tss_laws x get_ist get_rsp" and "length (ist c) = 7"
  shows "\<exists>t. init_tss x c = Inr (c\<lparr>tss := t\<rparr>) \<and> (\<forall>i<7. get_ist t i = of_nat (bottom (ist c ! i))) \<and>
    get_rsp t Ring0 = of_nat (bottom (ist c ! 0))"
proof -
  from ist_loop [OF assms(1), of 7 c] assms(2) obtain t where
    t: "for_each [0..<7] (\<lambda>i c. and_then (get_at (ist c) i) (\<lambda>st.
       and_then (set_ist x i (of_nat (bottom st)) (tss c)) (\<lambda>t. Inr (c\<lparr>tss := t\<rparr>)))) c = Inr (c\<lparr>tss := t\<rparr>)"
    "\<forall>i<7. get_ist t i = of_nat (bottom (ist c ! i))" by auto
  from assms(1) obtain t' where "set_rsp x Ring0 (of_nat (bottom (ist c ! 0))) t = Inr t'"
    "get_rsp t' Ring0 = of_nat (bottom (ist c ! 0))" "\<forall>j<7. get_ist t' j = get_ist t j"
    unfolding tss_laws_def by (metis ring.distinct(5))
  then show ?thesis using t assms(2)
    by (intro exI [of _ t']) (simp add: init_tss_def del: upt_rec_numeral upt_Suc)
qed

text \<open>The descriptor a selector names: the one at eight times its index.\<close>

definition desc_at :: "global_descriptor_table \<Rightarrow> u16 \<Rightarrow> u8 list" where
  "desc_at g sel = drop (8 * (unat sel div 8)) (gdt_bytes g)"

lemma length_entry_bytes [simp]: "length (entry_bytes e) = 8" "length (big_entry_bytes b) = 16"
  by (simp_all add: entry_bytes_def big_entry_bytes_def)

lemma desc_prefix:
  assumes "length bs = 8"
  shows "desc_base (bs @ r) = desc_base bs" "desc_limit (bs @ r) = desc_limit bs"
    "desc_access (bs @ r) = desc_access bs" "desc_flags (bs @ r) = desc_flags bs"
  using assms by (simp_all add: desc_base_def desc_limit_def desc_access_def desc_flags_def nth_append)

lemma desc_at_drop:
  "desc_at g 8 = entry_bytes (kernel_data g) @ drop 16 (gdt_bytes g)"
  "desc_at g 16 = entry_bytes (kernel_code g) @ drop 24 (gdt_bytes g)"
  "desc_at g 27 = entry_bytes (user_data g) @ drop 32 (gdt_bytes g)"
  "desc_at g 35 = entry_bytes (user_code g) @ drop 40 (gdt_bytes g)"
  "desc_at g 40 = big_entry_bytes (tss_entry g)"
  by (simp_all add: desc_at_def gdt_bytes_def)

text \<open>The documented value of a selector: the index in the upper 13 bits, the privilege level in the lower two.\<close>

definition ring_level :: "ring \<Rightarrow> u16" where
  "ring_level r = (case r of Ring0 \<Rightarrow> 0 | Ring1 \<Rightarrow> 1 | Ring2 \<Rightarrow> 2 | Ring3 \<Rightarrow> 3)"

definition selector_law :: "'t x86_crate \<Rightarrow> bool" where
  "selector_law x \<longleftrightarrow> (\<forall>i r. selector_bits x i r = push_bit 3 i OR ring_level r)"

lemma selector_values:
  assumes "selector_law x"
  shows "USER_CS x = 0x23" "USER_SS x = 0x1B" "KERNEL_CS x = 0x10" "KERNEL_SS x = 8"
  using assms
  by (simp_all add: selector_law_def USER_CS_def USER_SS_def KERNEL_CS_def KERNEL_SS_def gdt_indices ring_level_def)

text \<open>The segment descriptor at selector \<open>sel\<close> is a flat 64-bit segment with the given access byte.\<close>

definition flat_segment :: "global_descriptor_table \<Rightarrow> u16 \<Rightarrow> u8 \<Rightarrow> bool" where
  "flat_segment g sel acc \<longleftrightarrow> desc_base (desc_at g sel) = 0 \<and> desc_access (desc_at g sel) = acc \<and>
     desc_flags (desc_at g sel) = 0x20"

lemma init_gdt_segments:
  assumes "sets_bit sb" and "sets_bits sr" and "g' = init_gdt sb sr x tss_addr g"
  shows "flat_segment g' 8 0x92" "flat_segment g' 16 0x9A" "flat_segment g' 27 0xF2" "flat_segment g' 35 0xFA"
  using segment_access_values [OF assms(1,2)] unfolding assms(3) flat_segment_def desc_at_drop
  by (simp_all add: init_gdt_def desc_prefix entry_fields GDT_F_LONG_MODE_def)

lemma init_gdt_tss:
  assumes "sets_bit sb" and "sets_bits sr" and "tss_addr < usize_limit" and "tss_size x < 2 ^ 20"
    and "g' = init_gdt sb sr x tss_addr g"
  shows "sys_base (desc_at g' 40) = tss_addr" "desc_limit (desc_at g' 40) = tss_size x" "desc_access (desc_at g' 40) = 0xE9"
proof -
  have "unat (of_nat tss_addr :: u64) = tss_addr" "unat (of_nat (tss_size x) :: u32) = tss_size x"
    using assms(3,4) by (simp_all add: unat_of_nat)
  then show "sys_base (desc_at g' 40) = tss_addr" "desc_limit (desc_at g' 40) = tss_size x" "desc_access (desc_at g' 40) = 0xE9"
    using assms(4) tss_access_value [OF assms(1,2)]
    unfolding assms(5) desc_at_drop by (simp_all add: init_gdt_def big_entry_fields)
qed

lemma gdt_init_cpu_exec:
  assumes "tss_laws x get_ist get_rsp" and "selector_law x" and "length (ist c) = 7"
  shows "\<exists>t. gdt_init_cpu sb sr x gdt_addr tss_addr c =
      Inr ([Lgdt 56 gdt_addr, LoadCs 16, LoadDs 8, LoadEs 8, LoadSs 8, LoadTr 40],
           c\<lparr>tss := t, gdt := init_gdt sb sr x tss_addr (gdt c)\<rparr>) \<and>
    (\<forall>i<7. get_ist t i = of_nat (bottom (ist c ! i))) \<and> get_rsp t Ring0 = of_nat (bottom (ist c ! 0))"
proof -
  from init_tss_ok [OF assms(1,3)] obtain t where
    t: "init_tss x c = Inr (c\<lparr>tss := t\<rparr>)" "\<forall>i<7. get_ist t i = of_nat (bottom (ist c ! i))"
      "get_rsp t Ring0 = of_nat (bottom (ist c ! 0))" by blast
  have "length (gdt_bytes g) = 56" for g by (simp add: gdt_bytes_def)
  then have "gdt_init_cpu sb sr x gdt_addr tss_addr c =
      Inr ([Lgdt 56 gdt_addr, LoadCs 16, LoadDs 8, LoadEs 8, LoadSs 8, LoadTr 40],
           c\<lparr>tss := t, gdt := init_gdt sb sr x tss_addr (gdt c)\<rparr>)"
    using assms(2) by (simp add: gdt_init_cpu_def t(1) get_pointer_def Let_def selector_law_def ring_level_def gdt_indices)
  then show ?thesis using t(2,3) by blast
qed

interpretation descriptor_types: code_table descriptor_code descriptor_of_code "\<lambda>_. True"
  by unfold_locales
    (auto simp: descriptor_code_def descriptor_of_code_def split: system_descriptor_type.splits if_splits)

section \<open>Properties\<close>

text \<open>
  A code or data descriptor built by \<^verbatim>\<open>GdtEntry::new\<close> is read back by the processor as it was
  meant: the full 32-bit base, the low 20 bits of the limit, the access byte and the four flag bits.
\<close>

lemma gdt_entry_roundtrip:
  "desc_base (entry_bytes (new_entry off lim acc fl)) = unat off \<and>
   desc_limit (entry_bytes (new_entry off lim acc fl)) = unat lim mod 2 ^ 20 \<and>
   desc_access (entry_bytes (new_entry off lim acc fl)) = acc \<and>
   desc_flags (entry_bytes (new_entry off lim acc fl)) = fl AND 0xF0 \<and>
   access_bytes (new_entry off lim acc fl) = ucast acc OR push_bit 8 (ucast (fl AND 0xF0))"
  by (simp add: entry_fields) (simp add: access_bytes_def new_entry_def high_nibble)

text \<open>
  A system descriptor built by \<^verbatim>\<open>BigGdtEntry::new\<close> is read back with its full 64-bit base,
  the low 20 bits of the limit, the access byte and the flags.
\<close>

lemma big_gdt_entry_roundtrip:
  "sys_base (big_entry_bytes (new_big_entry off lim acc fl)) = unat off \<and>
   desc_limit (big_entry_bytes (new_big_entry off lim acc fl)) = unat lim mod 2 ^ 20 \<and>
   desc_access (big_entry_bytes (new_big_entry off lim acc fl)) = acc \<and>
   desc_flags (big_entry_bytes (new_big_entry off lim acc fl)) = fl AND 0xF0 \<and>
   big_access_bytes (new_big_entry off lim acc fl) = ucast acc OR push_bit 8 (ucast (fl AND 0xF0))"
  by (simp add: big_entry_fields) (simp add: big_access_bytes_def new_big_entry_def high_nibble)

text \<open>
  C28: descriptors are read back by the processor as they were meant: from the bytes of a code or data descriptor built by
  \<^verbatim>\<open>GdtEntry::new\<close> the full 32-bit base, from those of a system descriptor built by \<^verbatim>\<open>BigGdtEntry::new\<close> the full 64-bit base, and
  from both the low 20 bits of the limit, the access byte and the four flag bits; \<^verbatim>\<open>access_bytes\<close> combines the latter two.
\<close>

theorem descriptors_roundtrip:
  "(desc_base (entry_bytes (new_entry off lim acc fl)) = unat off \<and>
    desc_limit (entry_bytes (new_entry off lim acc fl)) = unat lim mod 2 ^ 20 \<and>
    desc_access (entry_bytes (new_entry off lim acc fl)) = acc \<and>
    desc_flags (entry_bytes (new_entry off lim acc fl)) = fl AND 0xF0 \<and>
    access_bytes (new_entry off lim acc fl) = ucast acc OR push_bit 8 (ucast (fl AND 0xF0))) \<and>
   (sys_base (big_entry_bytes (new_big_entry base lim acc fl)) = unat base \<and>
    desc_limit (big_entry_bytes (new_big_entry base lim acc fl)) = unat lim mod 2 ^ 20 \<and>
    desc_access (big_entry_bytes (new_big_entry base lim acc fl)) = acc \<and>
    desc_flags (big_entry_bytes (new_big_entry base lim acc fl)) = fl AND 0xF0 \<and>
    big_access_bytes (new_big_entry base lim acc fl) = ucast acc OR push_bit 8 (ucast (fl AND 0xF0)))"
  using gdt_entry_roundtrip big_gdt_entry_roundtrip by blast

text \<open>
  C15: \<^verbatim>\<open>gdt::init_cpu\<close> returns, loads the table and then the code, data, extra, stack and task
  registers with selectors of descriptors that are what they should be: kernel code and data are flat
  64-bit segments of privilege 0, the user segments of privilege 3, the task descriptor names the CPU's
  TSS with its size as limit; and every interrupt stack and the ring-0 stack of the TSS is the top of a stack
  of the CPU.
\<close>

theorem gdt_init_cpu_correct:
  assumes "sets_bit sb" and "sets_bits sr" and "tss_laws x get_ist get_rsp" and "selector_law x"
    and "length (ist c) = 7" and "tss_addr < usize_limit" and "tss_size x < 2 ^ 20"
  shows "\<exists>c'. gdt_init_cpu sb sr x gdt_addr tss_addr c =
      Inr ([Lgdt 56 gdt_addr, LoadCs 16, LoadDs 8, LoadEs 8, LoadSs 8, LoadTr 40], c') \<and>
    flat_segment (gdt c') 8 0x92 \<and> flat_segment (gdt c') 16 0x9A \<and>
    flat_segment (gdt c') (selector_bits x USER_DATA_INDEX Ring3) 0xF2 \<and>
    flat_segment (gdt c') (selector_bits x USER_CODE_INDEX Ring3) 0xFA \<and>
    sys_base (desc_at (gdt c') 40) = tss_addr \<and> desc_limit (desc_at (gdt c') 40) = tss_size x \<and>
    desc_access (desc_at (gdt c') 40) = 0xE9 \<and>
    (\<forall>i. i < 7 \<longrightarrow> get_ist (tss c') i = of_nat (bottom (ist c ! i))) \<and>
    get_rsp (tss c') Ring0 = of_nat (bottom (ist c ! 0)) \<and> ist c' = ist c"
proof -
  from gdt_init_cpu_exec [OF assms(3-5), of sb sr gdt_addr tss_addr] obtain t where
    t: "gdt_init_cpu sb sr x gdt_addr tss_addr c =
      Inr ([Lgdt 56 gdt_addr, LoadCs 16, LoadDs 8, LoadEs 8, LoadSs 8, LoadTr 40],
           c\<lparr>tss := t, gdt := init_gdt sb sr x tss_addr (gdt c)\<rparr>)"
    "\<forall>i<7. get_ist t i = of_nat (bottom (ist c ! i))" "get_rsp t Ring0 = of_nat (bottom (ist c ! 0))" by blast
  have u: "selector_bits x USER_DATA_INDEX Ring3 = 27" "selector_bits x USER_CODE_INDEX Ring3 = 35"
    using assms(4) by (simp_all add: selector_law_def ring_level_def gdt_indices)
  show ?thesis
    unfolding t(1) u
    using t(2,3) init_gdt_segments [OF assms(1,2) refl, of x tss_addr "gdt c"]
      init_gdt_tss [OF assms(1,2,6,7) refl, of "gdt c"]
    by (intro exI conjI) (rule refl, simp_all)
qed

text \<open>A task state segment with room for eight interrupt stacks and four ring stacks, of which seven and three are used.\<close>

type_synonym sample_tss = "(3 word \<Rightarrow> u64) \<times> (2 word \<Rightarrow> u64)"

definition sample_x86 :: "sample_tss x86_crate" where
  "sample_x86 = \<lparr>set_ist = (\<lambda>i v t. if i < 7 then Inr ((fst t)(of_nat i := v), snd t) else Inl (PanicMsg ''Invalid IST index'')),
     set_rsp = (\<lambda>r v t. if r = Ring3 then Inl (PanicMsg ''Invalid ring'') else Inr (fst t, (snd t)(ucast (ring_level r) := v))),
     tss_size = 104, selector_bits = (\<lambda>i r. push_bit 3 i OR ring_level r)\<rparr>"

definition sample_ist :: "sample_tss \<Rightarrow> nat \<Rightarrow> u64" where "sample_ist t i = fst t (of_nat i)"
definition sample_rsp :: "sample_tss \<Rightarrow> ring \<Rightarrow> u64" where "sample_rsp t r = snd t (ucast (ring_level r))"

lemma sample_laws: "tss_laws sample_x86 sample_ist sample_rsp" "selector_law sample_x86"
proof -
  have "(of_nat i :: 3 word) = of_nat j \<longleftrightarrow> i = j" if "i < 7" "j < 7" for i j :: nat
    using that by (simp add: word_of_nat_eq_iff take_bit_nat_eq_self)
  then show "tss_laws sample_x86 sample_ist sample_rsp"
    by (auto simp: tss_laws_def sample_x86_def sample_ist_def sample_rsp_def)
  show "selector_law sample_x86" by (simp add: selector_law_def sample_x86_def)
qed

theorem gdt_init_cpu_correct_witness:
  "\<exists>c'. gdt_init_cpu hol_set_bit hol_set_bits sample_x86 0x108000 0x108040
      (new_cpu ((\<lambda>_. 0), (\<lambda>_. 0)) 0x109000 :: (sample_tss, unit) cpu) =
      Inr ([Lgdt 56 0x108000, LoadCs 16, LoadDs 8, LoadEs 8, LoadSs 8, LoadTr 40], c') \<and>
    sys_base (desc_at (gdt c') 40) = 0x108040 \<and> sample_ist (tss c') 6 = 0x809000"
proof -
  let ?c = "new_cpu ((\<lambda>_. 0), (\<lambda>_. 0)) 0x109000 :: (sample_tss, unit) cpu"
  have "length (ist ?c) = 7" "bottom (ist ?c ! 6) = 0x809000" by (simp_all add: new_cpu_def bottom_def IST_STACK_SIZE_def)
  then show ?thesis
    using gdt_init_cpu_correct [OF hol_sets_bit hol_sets_bits sample_laws, where c = ?c and tss_addr = "0x108040" and gdt_addr = "0x108000"]
    by (auto simp: sample_x86_def dest!: spec [of _ 6])
qed

end
