(* ===== verification/Xapic.thy ===== *)
theory Xapic
  imports Hardware Gdt
begin

text \<open>
  The local APIC driver: \<^verbatim>\<open>src/src/interrupt/x86_xapic.rs\<close> and its users \<^verbatim>\<open>src/src/interrupt/lapic.rs\<close>
  and the timer handler of \<^verbatim>\<open>src/src/interrupt/mod.rs\<close>. Every register access is an event of the device's history;
  indexing the register region may panic. The bit setters of the \<^verbatim>\<open>bit_field\<close> crate and the
  interrupt command register of the \<^verbatim>\<open>x86\<close> crate are parameters.
\<close>

section \<open>Registers\<close>

datatype apic_register =
    XAPIC_ID | XAPIC_VERSION | XAPIC_TPR | XAPIC_PPR | XAPIC_EOI | XAPIC_LDR | XAPIC_SVR | XAPIC_ISR0
  | XAPIC_ISR1 | XAPIC_ISR2 | XAPIC_ISR3 | XAPIC_ISR4 | XAPIC_ISR5 | XAPIC_ISR6 | XAPIC_ISR7 | XAPIC_TMR0
  | XAPIC_TMR1 | XAPIC_TMR2 | XAPIC_TMR3 | XAPIC_TMR4 | XAPIC_TMR5 | XAPIC_TMR6 | XAPIC_TMR7 | XAPIC_IRR0
  | XAPIC_IRR1 | XAPIC_IRR2 | XAPIC_IRR3 | XAPIC_IRR4 | XAPIC_IRR5 | XAPIC_IRR6 | XAPIC_IRR7 | XAPIC_ESR
  | XAPIC_LVT_CMCI | XAPIC_ICR0 | XAPIC_ICR1 | XAPIC_LVT_TIMER | XAPIC_LVT_THERMAL | XAPIC_LVT_PMI
  | XAPIC_LVT_LINT0 | XAPIC_LVT_LINT1 | XAPIC_LVT_ERROR | XAPIC_TIMER_INIT_COUNT | XAPIC_TIMER_CURRENT_COUNT
  | XAPIC_TIMER_DIV_CONF

fun offset_of :: "apic_register \<Rightarrow> usize" where
  "offset_of XAPIC_ID = 0x020"
| "offset_of XAPIC_VERSION = 0x030"
| "offset_of XAPIC_TPR = 0x080"
| "offset_of XAPIC_PPR = 0x0A0"
| "offset_of XAPIC_EOI = 0x0B0"
| "offset_of XAPIC_LDR = 0x0D0"
| "offset_of XAPIC_SVR = 0x0F0"
| "offset_of XAPIC_ISR0 = 0x100"
| "offset_of XAPIC_ISR1 = 0x110"
| "offset_of XAPIC_ISR2 = 0x120"
| "offset_of XAPIC_ISR3 = 0x130"
| "offset_of XAPIC_ISR4 = 0x140"
| "offset_of XAPIC_ISR5 = 0x150"
| "offset_of XAPIC_ISR6 = 0x160"
| "offset_of XAPIC_ISR7 = 0x170"
| "offset_of XAPIC_TMR0 = 0x180"
| "offset_of XAPIC_TMR1 = 0x190"
| "offset_of XAPIC_TMR2 = 0x1A0"
| "offset_of XAPIC_TMR3 = 0x1B0"
| "offset_of XAPIC_TMR4 = 0x1C0"
| "offset_of XAPIC_TMR5 = 0x1D0"
| "offset_of XAPIC_TMR6 = 0x1E0"
| "offset_of XAPIC_TMR7 = 0x1F0"
| "offset_of XAPIC_IRR0 = 0x200"
| "offset_of XAPIC_IRR1 = 0x210"
| "offset_of XAPIC_IRR2 = 0x220"
| "offset_of XAPIC_IRR3 = 0x230"
| "offset_of XAPIC_IRR4 = 0x240"
| "offset_of XAPIC_IRR5 = 0x250"
| "offset_of XAPIC_IRR6 = 0x260"
| "offset_of XAPIC_IRR7 = 0x270"
| "offset_of XAPIC_ESR = 0x280"
| "offset_of XAPIC_LVT_CMCI = 0x2F0"
| "offset_of XAPIC_ICR0 = 0x300"
| "offset_of XAPIC_ICR1 = 0x310"
| "offset_of XAPIC_LVT_TIMER = 0x320"
| "offset_of XAPIC_LVT_THERMAL = 0x330"
| "offset_of XAPIC_LVT_PMI = 0x340"
| "offset_of XAPIC_LVT_LINT0 = 0x350"
| "offset_of XAPIC_LVT_LINT1 = 0x360"
| "offset_of XAPIC_LVT_ERROR = 0x370"
| "offset_of XAPIC_TIMER_INIT_COUNT = 0x380"
| "offset_of XAPIC_TIMER_CURRENT_COUNT = 0x390"
| "offset_of XAPIC_TIMER_DIV_CONF = 0x3E0"

section \<open>The driver\<close>

text \<open>
  The register region is a slice of 32-bit words, known by its address and length; its contents are the device's. The word
  with index \<open>i\<close> is the device register at the address \<open>mmio_base + 4 * i\<close>.
\<close>

record xapic_driver =
  mmio_base :: usize
  mmio_len :: usize
  base :: u64

definition xapic_new :: "device \<Rightarrow> usize \<Rightarrow> usize \<Rightarrow> history \<Rightarrow> xapic_driver \<times> history" where
  "xapic_new d region len h =
     (let (v, h) = rdmsr d IA32_APIC_BASE h in (\<lparr>mmio_base = region, mmio_len = len, base = v\<rparr>, h))"

definition xapic_read :: "device \<Rightarrow> apic_register \<Rightarrow> xapic_driver \<Rightarrow> history \<Rightarrow> (u32 \<times> history) result" where
  "xapic_read d r x h =
     (if offset_of r mod 4 \<noteq> 0 then Inl (PanicMsg ''assertion failed: offset as usize % 4 == 0'')
      else let index = offset_of r div 4 in
        if index < mmio_len x then let a = mmio_base x + 4 * index; v = mmio_in d h a in Inr (v, h @ [RegRead a v])
        else Inl IndexOutOfBounds)"

definition xapic_write :: "apic_register \<Rightarrow> u32 \<Rightarrow> xapic_driver \<Rightarrow> history \<Rightarrow> history result" where
  "xapic_write r v x h =
     (if offset_of r mod 4 \<noteq> 0 then Inl (PanicMsg ''assertion failed: offset as usize % 4 == 0'')
      else let index = offset_of r div 4 in
        if index < mmio_len x then Inr (h @ [RegWrite (mmio_base x + 4 * index) v]) else Inl IndexOutOfBounds)"

definition attach :: "device \<Rightarrow> u64 bit_setter \<Rightarrow> xapic_driver \<Rightarrow> history \<Rightarrow> (xapic_driver \<times> history) result" where
  "attach d sb x h =
     (let (v, h) = rdmsr d IA32_APIC_BASE h; x = x\<lparr>base := v\<rparr>; x = x\<lparr>base := sb (base x) 11 True\<rparr>;
          h = wrmsr IA32_APIC_BASE (base x) h; svr = push_bit 8 1 OR 15 in
      and_then (xapic_write XAPIC_SVR svr x h) (\<lambda>h. Inr (x, h)))"

definition detach :: "device \<Rightarrow> u64 bit_setter \<Rightarrow> xapic_driver \<Rightarrow> history \<Rightarrow> xapic_driver \<times> history" where
  "detach d sb x h =
     (let (v, h) = rdmsr d IA32_APIC_BASE h; x = x\<lparr>base := v\<rparr>; x = x\<lparr>base := sb (base x) 11 False\<rparr> in
      (x, wrmsr IA32_APIC_BASE (base x) h))"

definition tsc_set_oneshot :: "u32 \<Rightarrow> xapic_driver \<Rightarrow> history \<Rightarrow> history result" where
  "tsc_set_oneshot v x h = xapic_write XAPIC_TIMER_INIT_COUNT v x h"

definition bsp :: "xapic_driver \<Rightarrow> bool" where
  "bsp x \<longleftrightarrow> base x AND push_bit 8 1 > 0"

definition apic_id :: "device \<Rightarrow> xapic_driver \<Rightarrow> history \<Rightarrow> (u32 \<times> history) result" where
  "apic_id d x h = xapic_read d XAPIC_ID x h"

definition logical_id :: "device \<Rightarrow> xapic_driver \<Rightarrow> history \<Rightarrow> (u32 \<times> history) result" where
  "logical_id d x h = xapic_read d XAPIC_LDR x h"

definition apic_version :: "device \<Rightarrow> xapic_driver \<Rightarrow> history \<Rightarrow> (u32 \<times> history) result" where
  "apic_version d x h = xapic_read d XAPIC_VERSION x h"

definition eoi :: "xapic_driver \<Rightarrow> history \<Rightarrow> history result" where
  "eoi x h = xapic_write XAPIC_EOI 0 x h"

definition tsc_enable :: "device \<Rightarrow> u32 bit_setter \<Rightarrow> u8 \<Rightarrow> xapic_driver \<Rightarrow> history \<Rightarrow> history result" where
  "tsc_enable d sb vector x h =
     and_then (xapic_read d XAPIC_LVT_TIMER x h) (\<lambda>(lvt, h).
       let lvt = lvt AND NOT 0xff; lvt = lvt OR ucast vector;
           lvt = sb lvt 16 False; lvt = sb lvt 17 True; lvt = sb lvt 18 False in
     xapic_write XAPIC_LVT_TIMER lvt x h)"

definition tsc_set :: "u64 \<Rightarrow> history \<Rightarrow> history" where
  "tsc_set v h = wrmsr IA32_TSC_DEADLINE v h"

section \<open>Interprocessor interrupts\<close>

text \<open>The crate's interrupt command register: two words, built from the fields of the command.\<close>

record icr =
  icr_upper :: u32
  icr_lower :: u32

datatype apic_dest = XApicId u8 | X2ApicId u32
datatype shorthand = NoShorthand | Myself | AllIncludingSelf | AllExcludingSelf
datatype delivery_mode = Fixed | Init | StartUp
datatype destination_mode = Physical | Logical
datatype delivery_status = Idle | SendPending
datatype level = Deassert | Assert
datatype trigger_mode = Edge | Level

type_synonym icr_maker =
  "u8 \<Rightarrow> apic_dest \<Rightarrow> shorthand \<Rightarrow> delivery_mode \<Rightarrow> destination_mode \<Rightarrow> delivery_status \<Rightarrow> level \<Rightarrow> trigger_mode \<Rightarrow> icr"

partial_function (option) ipi_wait :: "device \<Rightarrow> xapic_driver \<Rightarrow> history \<Rightarrow> history result option" where
  "ipi_wait d drv h =
     (case xapic_read d XAPIC_ICR0 drv h of
        Inl e \<Rightarrow> Some (Inl e)
      | Inr (c, h) \<Rightarrow>
          if drop_bit 12 c AND 1 = 0 then Some (Inr h)
          else (case xapic_read d XAPIC_ESR drv h of
                  Inl e \<Rightarrow> Some (Inl e)
                | Inr (es, h) \<Rightarrow> if es > 0 then Some (Inr h) else ipi_wait d drv h))"

definition send_ipi :: "device \<Rightarrow> icr \<Rightarrow> xapic_driver \<Rightarrow> history \<Rightarrow> history result option" where
  "send_ipi d c x h =
     (case and_then (xapic_write XAPIC_ESR 0 x h) (\<lambda>h.
           and_then (xapic_write XAPIC_ESR 0 x h) (\<lambda>h.
           and_then (xapic_write XAPIC_ICR1 (icr_upper c) x h) (\<lambda>h.
           xapic_write XAPIC_ICR0 (icr_lower c) x h))) of
        Inl e \<Rightarrow> Some (Inl e)
      | Inr h \<Rightarrow> ipi_wait d x h)"

definition ipi_init :: "device \<Rightarrow> icr_maker \<Rightarrow> apic_dest \<Rightarrow> xapic_driver \<Rightarrow> history \<Rightarrow> history result option" where
  "ipi_init d mk core x h =
     send_ipi d (mk 0 core NoShorthand Init Physical Idle Assert Level) x h"

definition ipi_init_deassert :: "device \<Rightarrow> icr_maker \<Rightarrow> xapic_driver \<Rightarrow> history \<Rightarrow> history result option" where
  "ipi_init_deassert d mk x h =
     send_ipi d (mk 0 (XApicId 0) AllIncludingSelf Init Physical Idle Deassert Level) x h"

definition ipi_startup :: "device \<Rightarrow> icr_maker \<Rightarrow> apic_dest \<Rightarrow> u8 \<Rightarrow> xapic_driver \<Rightarrow> history \<Rightarrow> history result option" where
  "ipi_startup d mk core start_page x h =
     send_ipi d (mk start_page core NoShorthand StartUp Physical Idle Assert Edge) x h"

section \<open>Debug output\<close>

text \<open>The fields \<^verbatim>\<open>fmt\<close> prints, each read from the device.\<close>

definition debug_fields :: "(string \<times> apic_register) list" where
  "debug_fields = [(''XAPIC_ID'', XAPIC_ID), (''XAPIC_VERSION'', XAPIC_VERSION), (''XAPIC_TPR'', XAPIC_TPR),
     (''XAPIC_PPR'', XAPIC_PPR), (''XAPIC_EOI'', XAPIC_EOI), (''XAPIC_LDR'', XAPIC_LDR),
     (''XAPIC_SVR'', XAPIC_SVR), (''XAPIC_ISR0'', XAPIC_ISR0), (''XAPIC_ISR1'', XAPIC_ISR1),
     (''XAPIC_ISR2'', XAPIC_ISR2), (''XAPIC_ISR3'', XAPIC_ISR3), (''XAPIC_ISR4'', XAPIC_ISR4),
     (''XAPIC_ISR5'', XAPIC_ISR5), (''XAPIC_ISR6'', XAPIC_ISR6), (''XAPIC_ISR7'', XAPIC_ISR7),
     (''XAPIC_TMR0'', XAPIC_TMR0), (''XAPIC_TMR1'', XAPIC_TMR1), (''XAPIC_TMR2'', XAPIC_TMR2),
     (''XAPIC_TMR3'', XAPIC_TMR3), (''XAPIC_TMR4'', XAPIC_TMR4), (''XAPIC_TMR5'', XAPIC_TMR5),
     (''XAPIC_TMR6'', XAPIC_TMR6), (''XAPIC_TMR7'', XAPIC_TMR7), (''XAPIC_IRR0'', XAPIC_IRR0),
     (''XAPIC_IRR1'', XAPIC_IRR1), (''XAPIC_IRR2'', XAPIC_IRR2), (''XAPIC_IRR3'', XAPIC_IRR3),
     (''XAPIC_IRR4'', XAPIC_IRR4), (''XAPIC_IRR5'', XAPIC_IRR5), (''XAPIC_IRR6'', XAPIC_IRR6),
     (''XAPIC_IRR7'', XAPIC_IRR7), (''XAPIC_ESR'', XAPIC_ESR), (''XAPIC_LVT_CMCI'', XAPIC_LVT_CMCI),
     (''XAPIC_ICR0'', XAPIC_ICR0), (''XAPIC_ICR1'', XAPIC_ICR1), (''XAPIC_LVT_TIMER'', XAPIC_LVT_TIMER),
     (''XAPIC_LVT_THERMAL'', XAPIC_LVT_THERMAL), (''XAPIC_LVT_PMI'', XAPIC_LVT_PMI),
     (''XAPIC_LVT_LINT0'', XAPIC_LVT_LINT0), (''XAPIC_LVT_LINT1'', XAPIC_LVT_LINT1),
     (''XAPIC_LVT_ERROR'', XAPIC_LVT_ERROR), (''XAPIC_TIMER_INIT_COUNT'', XAPIC_TIMER_INIT_COUNT),
     (''XAPIC_TIMER_CURRENT_COUNT'', XAPIC_TIMER_CURRENT_COUNT),
     (''XAPIC_TIMER_DIV_CONF'', XAPIC_TIMER_DIV_CONF)]"

definition fmt_debug :: "device \<Rightarrow> xapic_driver \<Rightarrow> history \<Rightarrow> ((string \<times> u32) list \<times> history) result" where
  "fmt_debug d x h = for_each debug_fields (\<lambda>(name, r) (out, h).
     and_then (xapic_read d r x h) (\<lambda>(v, h). Inr (out @ [(name, v)], h))) ([], h)"

section \<open>The local APIC\<close>

text \<open>Reading the region's address truncates the MSR to 32 bits and masks it.\<close>

definition probe_apic :: "device \<Rightarrow> history \<Rightarrow> (usize \<times> usize) \<times> history" where
  "probe_apic d h =
     (let (v, h) = rdmsr d IA32_APIC_BASE h; msr27 = ucast v :: u32 in
      ((unat (msr27 AND 0xffff0000), 4096 div 4), h))"

definition lapic_init ::
  "device \<Rightarrow> u64 bit_setter \<Rightarrow> u32 bit_setter \<Rightarrow> ('t, xapic_driver) cpu \<Rightarrow> history \<Rightarrow> (('t, xapic_driver) cpu \<times> history) result" where
  "lapic_init d sb64 sb32 c h =
     (let ((region, len), h) = probe_apic d h; (x, h) = xapic_new d region len h in
      and_then (attach d sb64 x h) (\<lambda>(x, h).
      and_then (tsc_set_oneshot 0xfffffffe x h) (\<lambda>h.
      and_then (tsc_enable d sb32 32 x h) (\<lambda>h.
      Inr (c\<lparr>xapic := Some x\<rparr>, h)))))"

text \<open>\<^verbatim>\<open>assume_init_mut\<close> before \<^verbatim>\<open>init\<close> stored the driver is undefined behaviour.\<close>

definition the_xapic :: "('t, xapic_driver) cpu \<Rightarrow> xapic_driver result" where
  "the_xapic c = (case xapic c of None \<Rightarrow> Inl UndefinedBehaviour | Some x \<Rightarrow> Inr x)"

definition set_timer :: "usize \<Rightarrow> ('t, xapic_driver) cpu \<Rightarrow> history \<Rightarrow> history result" where
  "set_timer cycles c h = and_then (the_xapic c) (\<lambda>x. tsc_set_oneshot (of_nat cycles) x h)"

definition end_of_interrupt :: "('t, xapic_driver) cpu \<Rightarrow> history \<Rightarrow> history result" where
  "end_of_interrupt c h = and_then (the_xapic c) (\<lambda>x. eoi x h)"

text \<open>The handler \<^verbatim>\<open>timer\<close>.\<close>

definition timer_handler :: "('t, xapic_driver) cpu \<Rightarrow> history \<Rightarrow> history result" where
  "timer_handler c h = and_then (set_timer 100000 c h) (\<lambda>h. end_of_interrupt c h)"

section \<open>Register accesses\<close>

text \<open>The address of a register's word.\<close>

definition reg_addr :: "xapic_driver \<Rightarrow> apic_register \<Rightarrow> usize" where
  "reg_addr x r = mmio_base x + offset_of r"

lemma offset_aligned: "offset_of r mod 4 = 0"
  by (cases r) simp_all

lemma offset_bound: "offset_of r div 4 < 1024"
  by (cases r) simp_all

lemma offset_words: "4 * (offset_of r div 4) = offset_of r"
  using div_mult_mod_eq [of "offset_of r" 4] offset_aligned [of r] by simp

lemma reg_addr_update [simp]: "reg_addr (x\<lparr>base := b\<rparr>) r = reg_addr x r"
  by (simp add: reg_addr_def)

text \<open>The debug output lists every register once.\<close>

lemma debug_fields_all: "r \<in> set (map snd debug_fields)"
  by (cases r) (simp_all add: debug_fields_def)

lemma offset_inj:
  assumes "offset_of r = offset_of r'"
  shows "r = r'"
proof -
  have "distinct (map offset_of (map snd debug_fields))" by (simp add: debug_fields_def)
  then show ?thesis
    using assms debug_fields_all [of r] debug_fields_all [of r'] unfolding distinct_map by (blast dest: inj_onD)
qed

lemma xapic_read_ok [simp]:
  "1024 \<le> mmio_len x \<Longrightarrow> xapic_read d r x h =
     Inr (mmio_in d h (reg_addr x r), h @ [RegRead (reg_addr x r) (mmio_in d h (reg_addr x r))])"
  using offset_bound [of r] by (simp add: xapic_read_def offset_aligned offset_words reg_addr_def Let_def)

lemma xapic_write_ok [simp]:
  "1024 \<le> mmio_len x \<Longrightarrow> xapic_write r v x h = Inr (h @ [RegWrite (reg_addr x r) v])"
  using offset_bound [of r] by (simp add: xapic_write_def offset_aligned offset_words reg_addr_def Let_def)

section \<open>Start-up of the local APIC\<close>

text \<open>The timer entry of the local vector table as \<^verbatim>\<open>tsc_enable\<close> leaves it, given what it was.\<close>

definition timer_entry :: "u8 \<Rightarrow> u32 \<Rightarrow> u32 \<Rightarrow> bool" where
  "timer_entry vector old new \<longleftrightarrow> (\<forall>k. bit new k \<longleftrightarrow>
     (if k < 8 then bit vector k else if k = 17 then True else if k \<in> {16, 18} then False else bit old k))"

lemma tsc_enable_exec:
  assumes "sets_bit sb" and "1024 \<le> mmio_len x"
  shows "\<exists>v. tsc_enable d sb vector x h = Inr (h @
      [RegRead (reg_addr x XAPIC_LVT_TIMER) (mmio_in d h (reg_addr x XAPIC_LVT_TIMER)), RegWrite (reg_addr x XAPIC_LVT_TIMER) v]) \<and>
    timer_entry vector (mmio_in d h (reg_addr x XAPIC_LVT_TIMER)) v"
proof -
  let ?old = "mmio_in d h (reg_addr x XAPIC_LVT_TIMER)"
  let ?v = "sb (sb (sb ((?old AND NOT 0xff) OR ucast vector) 16 False) 17 True) 18 False"
  have "bit ((?old AND NOT 0xff) OR (ucast vector :: u32)) k = (if k < 8 then bit vector k else bit ?old k)" for k
  proof -
    have "(0xff :: u32) = mask 8" by (simp add: mask_eq_exp_minus_1)
    then have "bit (0xff :: u32) k \<longleftrightarrow> k < 8" by (simp only: bit_mask_iff) auto
    then show ?thesis
      by (auto simp: bit_simps dest: bit_imp_le_length)
  qed
  then have "timer_entry vector ?old ?v"
    using assms(1) by (auto simp: timer_entry_def sets_bitD)
  then show ?thesis
    using assms(2) by (auto simp: tsc_enable_def Let_def)
qed

lemma attach_exec:
  assumes "1024 \<le> mmio_len x"
  shows "attach d sb x h = Inr (x\<lparr>base := sb (msr_in d h IA32_APIC_BASE) 11 True\<rparr>,
    h @ [MsrRead IA32_APIC_BASE (msr_in d h IA32_APIC_BASE), MsrWrite IA32_APIC_BASE (sb (msr_in d h IA32_APIC_BASE) 11 True),
         RegWrite (reg_addr x XAPIC_SVR) 0x10F])"
  using assms by (simp add: attach_def rdmsr_def wrmsr_def Let_def)

section \<open>Waiting for an interprocessor interrupt\<close>

text \<open>The driver stops waiting within \<open>n\<close> further rounds of polling after the history \<open>h\<close>.\<close>

fun ipi_ready :: "device \<Rightarrow> xapic_driver \<Rightarrow> nat \<Rightarrow> history \<Rightarrow> bool" where
  "ipi_ready d x n h =
     (let c = mmio_in d h (reg_addr x XAPIC_ICR0); h1 = h @ [RegRead (reg_addr x XAPIC_ICR0) c];
          es = mmio_in d h1 (reg_addr x XAPIC_ESR); h2 = h1 @ [RegRead (reg_addr x XAPIC_ESR) es]
      in drop_bit 12 c AND 1 = 0 \<or> es > 0 \<or> (case n of 0 \<Rightarrow> False | Suc n \<Rightarrow> ipi_ready d x n h2))"

declare ipi_ready.simps [simp del]

text \<open>The driver stopped because the command was delivered or an error was flagged.\<close>

definition ipi_stopped :: "xapic_driver \<Rightarrow> hw_access \<Rightarrow> bool" where
  "ipi_stopped x e \<longleftrightarrow> (\<exists>c. e = RegRead (reg_addr x XAPIC_ICR0) c \<and> drop_bit 12 c AND 1 = 0) \<or>
     (\<exists>es. e = RegRead (reg_addr x XAPIC_ESR) es \<and> es > 0)"

lemma ipi_wait_ready:
  assumes "1024 \<le> mmio_len x" and "ipi_ready d x n h"
  shows "\<exists>h'. ipi_wait d x h = Some (Inr h') \<and> writes_of h' = writes_of h \<and> h' \<noteq> [] \<and> ipi_stopped x (last h')"
  using assms(2)
proof (induction n arbitrary: h)
  case 0
  then show ?case using assms(1)
    by (subst ipi_wait.simps) (auto simp: ipi_ready.simps [of d x 0] Let_def ipi_stopped_def)
next
  case (Suc n)
  let ?c = "mmio_in d h (reg_addr x XAPIC_ICR0)"
  let ?h1 = "h @ [RegRead (reg_addr x XAPIC_ICR0) ?c]"
  let ?es = "mmio_in d ?h1 (reg_addr x XAPIC_ESR)"
  let ?h2 = "?h1 @ [RegRead (reg_addr x XAPIC_ESR) ?es]"
  show ?case
  proof (cases "drop_bit 12 ?c AND 1 = 0 \<or> ?es > 0")
    case True
    then show ?thesis using assms(1) by (subst ipi_wait.simps) (auto simp: ipi_stopped_def)
  next
    case False
    then have "ipi_ready d x n ?h2" using Suc.prems by (simp add: ipi_ready.simps [of d x "Suc n"] Let_def)
    from Suc.IH [OF this] False show ?thesis using assms(1) by (subst ipi_wait.simps) auto
  qed
qed

lemma ipi_wait_returns:
  assumes "ipi_wait d x h = Some r" and "1024 \<le> mmio_len x"
  shows "\<exists>n. ipi_ready d x n h"
proof -
  have "1024 \<le> mmio_len x \<longrightarrow> (\<exists>n. ipi_ready d x n h)"
  proof (rule ipi_wait.raw_induct [where P = "\<lambda>d x h r. 1024 \<le> mmio_len x \<longrightarrow> (\<exists>n. ipi_ready d x n h)", OF _ assms(1)], goal_cases)
    case (1 f d x h r)
    show ?case
    proof
      assume len: "1024 \<le> mmio_len x"
      let ?c = "mmio_in d h (reg_addr x XAPIC_ICR0)"
      let ?h1 = "h @ [RegRead (reg_addr x XAPIC_ICR0) ?c]"
      let ?es = "mmio_in d ?h1 (reg_addr x XAPIC_ESR)"
      let ?h2 = "?h1 @ [RegRead (reg_addr x XAPIC_ESR) ?es]"
      show "\<exists>n. ipi_ready d x n h"
      proof (cases "drop_bit 12 ?c AND 1 = 0 \<or> ?es > 0")
        case True
        then have "ipi_ready d x 0 h" by (subst ipi_ready.simps) (auto simp: Let_def)
        then show ?thesis ..
      next
        case False
        then have "f d x ?h2 = Some r" using 1(2) len by simp
        then obtain n where "ipi_ready d x n ?h2" using 1(1) len by blast
        then have "ipi_ready d x (Suc n) h" by (subst ipi_ready.simps) (simp add: Let_def)
        then show ?thesis ..
      qed
    qed
  qed
  then show ?thesis using assms(2) by blast
qed

text \<open>The region \<^verbatim>\<open>probe_apic\<close> finds: bits 16 to 31 of the base register, the other bits cleared.\<close>

lemma apic_region_value: "unat (ucast v AND 0xffff0000 :: u32) = unat (v :: u64) mod 2 ^ 32 div 2 ^ 16 * 2 ^ 16"
proof -
  have m: "(0xffff0000 :: u32) = push_bit 16 (mask 16)" by (simp add: mask_eq_exp_minus_1)
  have "(ucast v AND 0xffff0000 :: u32) = push_bit 16 (drop_bit 16 (ucast v))"
    unfolding m by (rule bit_word_eqI) (auto simp: bit_simps)
  moreover have "unat (drop_bit 16 (ucast v :: u32)) = unat v mod 2 ^ 32 div 2 ^ 16"
    unfolding unsigned_drop_bit_eq unsigned_ucast_eq by (simp add: drop_bit_eq_div take_bit_eq_mod)
  moreover have "unat v mod 2 ^ 32 div 2 ^ 16 * 2 ^ 16 < 2 ^ 32" by simp
  ultimately show ?thesis by (simp add: push_bit_eq_mult unat_word_ariths mult.commute)
qed

lemma lapic_init_ok:
  assumes "sets_bit sb64" and "sets_bit sb32" and "region = unat (msr_in d h IA32_APIC_BASE) mod 2 ^ 32 div 2 ^ 16 * 2 ^ 16"
  shows "\<exists>x h' v b old new. lapic_init d sb64 sb32 c h = Inr (c\<lparr>xapic := Some x\<rparr>, h') \<and> mmio_base x = region \<and> mmio_len x = 1024 \<and>
    writes_of h' = writes_of h @ [MsrWrite IA32_APIC_BASE b, RegWrite (region + 0xF0) 0x10F,
      RegWrite (region + 0x380) 0xfffffffe, RegWrite (region + 0x320) new] \<and>
    MsrRead IA32_APIC_BASE v \<in> set h' \<and> (\<forall>k. bit b k \<longleftrightarrow> k = 11 \<or> bit v k) \<and>
    RegRead (region + 0x320) old \<in> set h' \<and> timer_entry 32 old new"
proof -
  let ?h1 = "h @ [MsrRead IA32_APIC_BASE (msr_in d h IA32_APIC_BASE)]"
  let ?h2 = "?h1 @ [MsrRead IA32_APIC_BASE (msr_in d ?h1 IA32_APIC_BASE)]"
  let ?b = "sb64 (msr_in d ?h2 IA32_APIC_BASE) 11 True"
  let ?x = "\<lparr>mmio_base = region, mmio_len = 1024, base = msr_in d ?h1 IA32_APIC_BASE\<rparr>"
  let ?x' = "?x\<lparr>base := ?b\<rparr>"
  let ?h3 = "?h2 @ [MsrRead IA32_APIC_BASE (msr_in d ?h2 IA32_APIC_BASE), MsrWrite IA32_APIC_BASE ?b, RegWrite (region + 0xF0) 0x10F]"
  let ?h4 = "?h3 @ [RegWrite (region + 0x380) 0xfffffffe]" and ?lvt = "region + 0x320"
  have a: "attach d sb64 ?x ?h2 = Inr (?x', ?h3)" by (subst attach_exec) (simp_all add: reg_addr_def)
  obtain new where t: "tsc_enable d sb32 32 ?x' ?h4 = Inr (?h4 @ [RegRead ?lvt (mmio_in d ?h4 ?lvt), RegWrite ?lvt new])"
    "timer_entry 32 (mmio_in d ?h4 ?lvt) new"
    using tsc_enable_exec [OF assms(2), of ?x' d 32 ?h4] by (auto simp: reg_addr_def)
  have one: "tsc_set_oneshot 0xfffffffe ?x' ?h3 = Inr ?h4"
    unfolding tsc_set_oneshot_def by (subst xapic_write_ok) (simp_all add: reg_addr_def)
  have "lapic_init d sb64 sb32 c h = Inr (c\<lparr>xapic := Some ?x'\<rparr>, ?h4 @ [RegRead ?lvt (mmio_in d ?h4 ?lvt), RegWrite ?lvt new])"
    unfolding lapic_init_def probe_apic_def xapic_new_def rdmsr_def Let_def split apic_region_value assms(3) [symmetric]
    using a one t(1) by simp
  moreover have "\<forall>k. bit ?b k \<longleftrightarrow> k = 11 \<or> bit (msr_in d ?h2 IA32_APIC_BASE) k" using assms(1) by (simp add: sets_bitD)
  ultimately show ?thesis
    using t(2) by (intro exI [of _ ?x'] exI [of _ "?h4 @ _"] exI [of _ "msr_in d ?h2 IA32_APIC_BASE"]
        exI [of _ ?b] exI [of _ "mmio_in d ?h4 ?lvt"] exI [of _ new]) auto
qed

lemma timer_handler_exec:
  assumes "xapic c = Some x" and "1024 \<le> mmio_len x"
  shows "timer_handler c h = Inr (h @ [RegWrite (mmio_base x + 0x380) 100000, RegWrite (mmio_base x + 0xB0) 0])"
  using assms by (simp add: timer_handler_def set_timer_def end_of_interrupt_def the_xapic_def tsc_set_oneshot_def eoi_def reg_addr_def)

section \<open>Properties\<close>

text \<open>
  C31: with the 4KB region \<^verbatim>\<open>probe_apic\<close> maps, no register access panics: reading or writing a
  register touches exactly the word at its architectural offset, which lies within the region, and no two registers
  share a word.
\<close>

theorem xapic_access_safe:
  assumes "mmio_len x = 4096 div 4"
  shows "xapic_read d r x h = Inr (mmio_in d h (mmio_base x + offset_of r),
      h @ [RegRead (mmio_base x + offset_of r) (mmio_in d h (mmio_base x + offset_of r))]) \<and>
    xapic_write r v x h = Inr (h @ [RegWrite (mmio_base x + offset_of r) v]) \<and>
    4 * (offset_of r div 4) = offset_of r \<and> offset_of r + 4 \<le> 4096 \<and>
    (offset_of r div 4 = offset_of r' div 4 \<longleftrightarrow> r = r')"
proof (intro conjI)
  show "offset_of r div 4 = offset_of r' div 4 \<longleftrightarrow> r = r'"
    using offset_inj [of r r'] offset_words [of r] offset_words [of r'] by auto
  show "offset_of r + 4 \<le> 4096" using offset_bound [of r] offset_words [of r] by linarith
qed (use assms in \<open>simp_all add: reg_addr_def offset_words\<close>)

theorem xapic_access_safe_witness:
  "xapic_read plain_device XAPIC_SVR \<lparr>mmio_base = 0xFEE00000, mmio_len = 1024, base = 0\<rparr> [RegWrite 0xFEE000F0 271] =
     Inr (271, [RegWrite 0xFEE000F0 271, RegRead 0xFEE000F0 271])"
  using xapic_access_safe [of "\<lparr>mmio_base = 0xFEE00000, mmio_len = 1024, base = 0\<rparr>" plain_device XAPIC_SVR "[RegWrite 0xFEE000F0 271]"]
  by (simp add: plain_device_def reg_value_def)

text \<open>
  C16: \<^verbatim>\<open>lapic::init\<close> returns with a driver stored in the CPU structure whose region starts at the address in bits 16 to
  31 of the APIC base register and has 1024 words. Its only effects on the hardware are, in this order: the APIC base
  register is written back with the enable bit 11 set and the rest as it was, the region's spurious vector register (offset 0xF0) gets
  enable bit and vector 15, the timer's initial count (0x380) is set, and the timer's entry of the vector table (0x320) gets vector 32,
  unmasked, with bits 18:17 = 01 (the mode the comment in \<^verbatim>\<open>tsc_enable\<close> lists as periodic) and its other bits
  unchanged. From then on the timer handler, whatever happened in between, re-arms the count of the same region with 100000 cycles and then
  writes its end-of-interrupt register (0xB0).
\<close>

theorem lapic_init_correct:
  assumes "sets_bit sb64" and "sets_bit sb32" and "region = unat (msr_in d h IA32_APIC_BASE) mod 2 ^ 32 div 2 ^ 16 * 2 ^ 16"
  shows "\<exists>x c' h' v b old new. lapic_init d sb64 sb32 c h = Inr (c', h') \<and>
    xapic c' = Some x \<and> mmio_base x = region \<and> mmio_len x = 1024 \<and>
    writes_of h' = writes_of h @ [MsrWrite IA32_APIC_BASE b, RegWrite (region + 0xF0) 0x10F,
      RegWrite (region + 0x380) 0xfffffffe, RegWrite (region + 0x320) new] \<and>
    MsrRead IA32_APIC_BASE v \<in> set h' \<and> (\<forall>k. bit b k \<longleftrightarrow> k = 11 \<or> bit v k) \<and>
    RegRead (region + 0x320) old \<in> set h' \<and> timer_entry 32 old new \<and>
    (\<forall>g. timer_handler c' g = Inr (g @ [RegWrite (region + 0x380) 100000, RegWrite (region + 0xB0) 0]))"
proof -
  from lapic_init_ok [OF assms, of c] obtain x h' v b old new where
    l: "lapic_init d sb64 sb32 c h = Inr (c\<lparr>xapic := Some x\<rparr>, h')" and x: "mmio_base x = region" "mmio_len x = 1024" and
    w: "writes_of h' = writes_of h @ [MsrWrite IA32_APIC_BASE b, RegWrite (region + 0xF0) 0x10F,
        RegWrite (region + 0x380) 0xfffffffe, RegWrite (region + 0x320) new]" and
    r: "MsrRead IA32_APIC_BASE v \<in> set h'" "\<forall>k. bit b k \<longleftrightarrow> k = 11 \<or> bit v k"
      "RegRead (region + 0x320) old \<in> set h'" "timer_entry 32 old new" by blast
  have "\<forall>g. timer_handler (c\<lparr>xapic := Some x\<rparr>) g = Inr (g @ [RegWrite (region + 0x380) 100000, RegWrite (region + 0xB0) 0])"
    using timer_handler_exec [of "c\<lparr>xapic := Some x\<rparr>" x] x by simp
  with l x w r show ?thesis
    by (intro exI [of _ x] exI [of _ "c\<lparr>xapic := Some x\<rparr>"] exI [of _ h'] exI [of _ v] exI [of _ b] exI [of _ old] exI [of _ new] conjI)
      simp_all
qed

theorem lapic_init_correct_witness:
  "\<exists>x c' h' b new. lapic_init plain_device hol_set_bit hol_set_bit (new_cpu () 0) [] = Inr (c', h') \<and> xapic c' = Some x \<and>
    writes_of h' = [MsrWrite IA32_APIC_BASE b, RegWrite 0xFEE000F0 0x10F, RegWrite 0xFEE00380 0xfffffffe, RegWrite 0xFEE00320 new] \<and>
    timer_handler c' [] = Inr [RegWrite 0xFEE00380 100000, RegWrite 0xFEE000B0 0]"
proof -
  have "0xFEE00000 = unat (msr_in plain_device [] IA32_APIC_BASE) mod 2 ^ 32 div 2 ^ 16 * 2 ^ 16"
    by (simp add: plain_device_def msr_value_def)
  from lapic_init_correct [OF hol_sets_bit hol_sets_bit this, of "new_cpu () 0"] show ?thesis by fastforce
qed

text \<open>
  C30: \<^verbatim>\<open>send_ipi\<close> writes the error status register twice, then the upper and the lower half of the
  command, in that order, and then polls. It returns if and only if the device, at some round of polling, reports the
  command delivered or an error; and then the last thing it saw is that report.
\<close>

theorem send_ipi_correct:
  assumes "1024 \<le> mmio_len x"
    and "h1 = h @ [RegWrite (reg_addr x XAPIC_ESR) 0, RegWrite (reg_addr x XAPIC_ESR) 0,
      RegWrite (reg_addr x XAPIC_ICR1) (icr_upper c), RegWrite (reg_addr x XAPIC_ICR0) (icr_lower c)]"
  shows "(send_ipi d c x h = None \<longleftrightarrow> (\<nexists>n. ipi_ready d x n h1)) \<and>
    (\<forall>n. ipi_ready d x n h1 \<longrightarrow> (\<exists>h'. send_ipi d c x h = Some (Inr h') \<and> writes_of h' = writes_of h1 \<and> ipi_stopped x (last h')))"
proof -
  have eq: "send_ipi d c x h = ipi_wait d x h1"
    using assms by (simp add: send_ipi_def)
  show ?thesis
    unfolding eq using ipi_wait_ready [OF assms(1), of d _ h1] ipi_wait_returns [of d x h1, OF _ assms(1)]
    by (metis not_None_eq option.distinct(1))
qed

theorem send_ipi_correct_witness:
  "\<exists>h'. send_ipi plain_device \<lparr>icr_upper = 0x1000000, icr_lower = 0x4500\<rparr> \<lparr>mmio_base = 0xFEE00000, mmio_len = 1024, base = 0\<rparr> [] = Some (Inr h') \<and>
     writes_of h' = [RegWrite 0xFEE00280 0, RegWrite 0xFEE00280 0, RegWrite 0xFEE00310 0x1000000, RegWrite 0xFEE00300 0x4500]"
proof -
  let ?c = "\<lparr>icr_upper = 0x1000000, icr_lower = 0x4500\<rparr> :: icr" and ?x = "\<lparr>mmio_base = 0xFEE00000, mmio_len = 1024, base = 0\<rparr>"
  have r: "ipi_ready plain_device ?x 0 ([] @ [RegWrite (reg_addr ?x XAPIC_ESR) 0, RegWrite (reg_addr ?x XAPIC_ESR) 0,
      RegWrite (reg_addr ?x XAPIC_ICR1) (icr_upper ?c), RegWrite (reg_addr ?x XAPIC_ICR0) (icr_lower ?c)])"
    by (subst ipi_ready.simps) (simp add: plain_device_def reg_value_def reg_addr_def)
  show ?thesis
    using send_ipi_correct [of "\<lparr>mmio_base = 0xFEE00000, mmio_len = 1024, base = 0\<rparr>" _ "[]" ?c plain_device, OF _ refl] r
    by (auto simp: reg_addr_def)
qed

end
