(* ===== verification/Utf8.thy ===== *)
theory Utf8
  imports Prelude
begin

text \<open>
  \<^verbatim>\<open>core::str::from_utf8\<close> of Rust's library, which \<^verbatim>\<open>src/src/interrupt/mps.rs\<close> applies to the identification strings of the
  MultiProcessor tables: the validation of a byte sequence, and its equivalence with the definition of the encoding.
\<close>

section \<open>Validation\<close>

definition is_cont :: "nat \<Rightarrow> bool" where
  "is_cont b \<longleftrightarrow> 0x80 \<le> b \<and> b \<le> 0xBF"

text \<open>The second byte of a longer sequence: overlong encodings, surrogates and values above 0x10FFFF are excluded here.\<close>

definition second_of_3 :: "nat \<Rightarrow> nat \<Rightarrow> bool" where
  "second_of_3 a b \<longleftrightarrow> is_cont b \<and> (a = 0xE0 \<longrightarrow> 0xA0 \<le> b) \<and> (a = 0xED \<longrightarrow> b \<le> 0x9F)"

definition second_of_4 :: "nat \<Rightarrow> nat \<Rightarrow> bool" where
  "second_of_4 a b \<longleftrightarrow> is_cont b \<and> (a = 0xF0 \<longrightarrow> 0x90 \<le> b) \<and> (a = 0xF4 \<longrightarrow> b \<le> 0x8F)"

fun utf8_valid :: "nat list \<Rightarrow> bool" where
  "utf8_valid [] \<longleftrightarrow> True"
| "utf8_valid (a # bs) \<longleftrightarrow>
     (if a < 0x80 then utf8_valid bs
      else if 0xC2 \<le> a \<and> a \<le> 0xDF then (case bs of b # rest \<Rightarrow> is_cont b \<and> utf8_valid rest | _ \<Rightarrow> False)
      else if 0xE0 \<le> a \<and> a \<le> 0xEF then
        (case bs of b # c # rest \<Rightarrow> second_of_3 a b \<and> is_cont c \<and> utf8_valid rest | _ \<Rightarrow> False)
      else if 0xF0 \<le> a \<and> a \<le> 0xF4 then
        (case bs of b # c # d # rest \<Rightarrow> second_of_4 a b \<and> is_cont c \<and> is_cont d \<and> utf8_valid rest | _ \<Rightarrow> False)
      else False)"

text \<open>A \<^verbatim>\<open>&str\<close> is its bytes.\<close>

definition from_utf8 :: "u8 list \<Rightarrow> u8 list option" where
  "from_utf8 bs = (if utf8_valid (map unat bs) then Some bs else None)"

section \<open>The encoding\<close>

definition scalar_value :: "nat \<Rightarrow> bool" where
  "scalar_value c \<longleftrightarrow> c < 0xD800 \<or> (0xE000 \<le> c \<and> c < 0x110000)"

definition encode_char :: "nat \<Rightarrow> nat list" where
  "encode_char c =
     (if c < 0x80 then [c]
      else if c < 0x800 then [0xC0 + c div 64, 0x80 + c mod 64]
      else if c < 0x10000 then [0xE0 + c div 4096, 0x80 + c div 64 mod 64, 0x80 + c mod 64]
      else [0xF0 + c div 262144, 0x80 + c div 4096 mod 64, 0x80 + c div 64 mod 64, 0x80 + c mod 64])"

lemma encode_valid: "scalar_value c \<Longrightarrow> utf8_valid rest \<Longrightarrow> utf8_valid (encode_char c @ rest)"
proof -
  assume c: "scalar_value c" and r: "utf8_valid rest"
  have m: "x mod 64 \<le> 63" for x :: nat using mod_less_divisor [of 64 x] by linarith
  consider "c < 0x80" | "0x80 \<le> c" "c < 0x800" | "0x800 \<le> c" "c < 0x10000" | "0x10000 \<le> c" "c < 0x110000"
    using c unfolding scalar_value_def by linarith
  then show ?thesis
  proof cases
    case 2
    then have "2 \<le> c div 64" "c div 64 \<le> 31" by linarith+
    then show ?thesis using 2 r by (simp add: encode_char_def is_cont_def m)
  next
    case 3
    have "c div 4096 \<le> 15" using 3 by linarith
    moreover have "c div 64 = 64 * (c div 4096) + c div 64 mod 64" using div_mult_mod_eq [of "c div 64" 64] by (simp add: div_mult2_eq [symmetric])
    then have "c div 4096 = 0 \<Longrightarrow> 0x20 \<le> c div 64 mod 64" "c div 4096 = 13 \<Longrightarrow> c div 64 mod 64 \<le> 0x1F"
      using 3 c unfolding scalar_value_def by linarith+
    ultimately show ?thesis using 3 r by (simp add: encode_char_def is_cont_def second_of_3_def m)
  next
    case 4
    have "c div 262144 \<le> 4" using 4 by linarith
    moreover have "c div 4096 = 64 * (c div 262144) + c div 4096 mod 64" using div_mult_mod_eq [of "c div 4096" 64] by (simp add: div_mult2_eq [symmetric])
    then have "c div 262144 = 0 \<Longrightarrow> 0x10 \<le> c div 4096 mod 64" "c div 262144 = 4 \<Longrightarrow> c div 4096 mod 64 \<le> 0xF"
      using 4 by linarith+
    ultimately show ?thesis using 4 r by (simp add: encode_char_def is_cont_def second_of_4_def m)
  qed (use r in \<open>simp add: encode_char_def\<close>)
qed

lemma digit64: "y < 64 \<Longrightarrow> (x * 64 + y) div 64 = x" "y < 64 \<Longrightarrow> (x * 64 + y) mod 64 = y" for x y :: nat
  by simp_all

text \<open>The bytes of one valid sequence are the encoding of a scalar value.\<close>

lemma range_3:
  fixes x y z :: nat
  assumes "x \<le> 0xF" and "x = 0 \<longrightarrow> 0x20 \<le> y" and "x = 0xD \<longrightarrow> y \<le> 0x1F" and "y < 64" and "z < 64"
  shows "0x800 \<le> (x * 64 + y) * 64 + z \<and> (x * 64 + y) * 64 + z < 0x10000 \<and>
    ((x * 64 + y) * 64 + z < 0xD800 \<or> 0xE000 \<le> (x * 64 + y) * 64 + z)"
proof -
  consider "x = 0" | "0 < x" "x < 0xD" | "x = 0xD" | "0xD < x" by linarith
  then show ?thesis using assms by cases auto
qed

lemma range_4:
  fixes w x y z :: nat
  assumes "w \<le> 4" and "w = 0 \<longrightarrow> 0x10 \<le> x" and "w = 4 \<longrightarrow> x \<le> 0xF" and "x < 64" and "y < 64" and "z < 64"
  shows "0x10000 \<le> ((w * 64 + x) * 64 + y) * 64 + z \<and> ((w * 64 + x) * 64 + y) * 64 + z < 0x110000"
proof -
  consider "w = 0" | "0 < w" "w < 4" | "w = 4" using assms(1) by linarith
  then show ?thesis using assms by cases auto
qed

lemma decode_2:
  assumes "0xC2 \<le> a" and "a \<le> 0xDF" and "is_cont b"
  shows "\<exists>x. scalar_value x \<and> [a, b] = encode_char x"
proof -
  let ?x = "(a - 0xC0) * 64 + (b - 0x80)"
  have b: "b - 0x80 < 64" "0x80 \<le> b" using assms(3) by (auto simp: is_cont_def)
  have d: "?x div 64 = a - 0xC0" "?x mod 64 = b - 0x80" by (rule digit64 [OF b(1)])+
  have "0x80 \<le> ?x" "?x < 0x800" using assms(1,2) b(1) by linarith+
  then show ?thesis using assms(1) b(2) d by (intro exI [of _ ?x]) (simp add: scalar_value_def encode_char_def)
qed

lemma decode_3:
  assumes "0xE0 \<le> a" and "a \<le> 0xEF" and "second_of_3 a b" and "is_cont c"
  shows "\<exists>x. scalar_value x \<and> [a, b, c] = encode_char x"
proof -
  let ?x = "((a - 0xE0) * 64 + (b - 0x80)) * 64 + (c - 0x80)"
  have b: "b - 0x80 < 64" "c - 0x80 < 64" "0x80 \<le> b" "0x80 \<le> c" using assms(3,4) by (auto simp: second_of_3_def is_cont_def)
  have d: "?x div 64 = (a - 0xE0) * 64 + (b - 0x80)" "?x mod 64 = c - 0x80" by (rule digit64 [OF b(2)])+
  have "?x div 4096 = ?x div 64 div 64" by (simp only: div_mult2_eq [symmetric]) simp
  then have e: "?x div 4096 = a - 0xE0" "?x div 64 mod 64 = b - 0x80" unfolding d by (simp_all only: digit64 [OF b(1)])
  have "a - 0xE0 \<le> 0xF" "a - 0xE0 = 0 \<longrightarrow> 0x20 \<le> b - 0x80" "a - 0xE0 = 0xD \<longrightarrow> b - 0x80 \<le> 0x1F"
    using assms(1-3) by (auto simp: second_of_3_def)
  note r = range_3 [OF this b(1,2)]
  define x where "x = ?x"
  show ?thesis using r d(2) e assms(1) b(3,4) unfolding x_def [symmetric]
    by (intro exI [of _ x]) (simp add: scalar_value_def encode_char_def)
qed

lemma decode_4:
  assumes "0xF0 \<le> a" and "a \<le> 0xF4" and "second_of_4 a b" and "is_cont c" and "is_cont d"
  shows "\<exists>x. scalar_value x \<and> [a, b, c, d] = encode_char x"
proof -
  let ?y = "((a - 0xF0) * 64 + (b - 0x80)) * 64 + (c - 0x80)"
  let ?x = "?y * 64 + (d - 0x80)"
  have b: "b - 0x80 < 64" "c - 0x80 < 64" "d - 0x80 < 64" "0x80 \<le> b" "0x80 \<le> c" "0x80 \<le> d"
    using assms(3-5) by (auto simp: second_of_4_def is_cont_def)
  have y: "?x div 64 = ?y" "?x mod 64 = d - 0x80" by (rule digit64 [OF b(3)])+
  have z: "?y div 64 = (a - 0xF0) * 64 + (b - 0x80)" "?y mod 64 = c - 0x80" by (rule digit64 [OF b(2)])+
  have "?x div 4096 = ?x div 64 div 64" "?x div 262144 = ?x div 64 div 64 div 64" by (simp_all only: div_mult2_eq [symmetric]) simp_all
  then have e: "?x div 262144 = a - 0xF0" "?x div 4096 mod 64 = b - 0x80" "?x div 64 mod 64 = c - 0x80"
    unfolding y z by (simp_all only: digit64 [OF b(1)])
  have "a - 0xF0 \<le> 4" "a - 0xF0 = 0 \<longrightarrow> 0x10 \<le> b - 0x80" "a - 0xF0 = 4 \<longrightarrow> b - 0x80 \<le> 0xF"
    using assms(1-3) by (auto simp: second_of_4_def)
  note r = range_4 [OF this b(1-3)]
  define x where "x = ?x"
  show ?thesis using r y(2) e assms(1) b(4-6) unfolding x_def [symmetric]
    by (intro exI [of _ x]) (simp add: scalar_value_def encode_char_def)
qed

text \<open>A byte sequence is valid exactly if it is the encoding of some scalar values.\<close>

lemma encoded_Cons:
  assumes "\<exists>x. scalar_value x \<and> pre = encode_char x" and "\<exists>cs. list_all scalar_value cs \<and> rest = concat (map encode_char cs)"
  shows "\<exists>cs. list_all scalar_value cs \<and> pre @ rest = concat (map encode_char cs)"
proof -
  from assms obtain x cs where "scalar_value x" "pre = encode_char x" "list_all scalar_value cs" "rest = concat (map encode_char cs)" by blast
  then show ?thesis by (intro exI [of _ "x # cs"]) simp
qed

lemma valid_encoded: "utf8_valid bs \<Longrightarrow> \<exists>cs. list_all scalar_value cs \<and> bs = concat (map encode_char cs)"
proof (induction bs rule: utf8_valid.induct)
  case 1
  show ?case by (intro exI [of _ "[]"]) simp
next
  case (2 a bs)
  consider (one) "a < 0x80" "utf8_valid bs"
    | (two) b rest where "0xC2 \<le> a" "a \<le> 0xDF" "bs = b # rest" "is_cont b" "utf8_valid rest"
    | (three) b c rest where "0xE0 \<le> a" "a \<le> 0xEF" "bs = b # c # rest" "second_of_3 a b" "is_cont c" "utf8_valid rest"
    | (four) b c d rest where "0xF0 \<le> a" "a \<le> 0xF4" "bs = b # c # d # rest" "second_of_4 a b" "is_cont c" "is_cont d" "utf8_valid rest"
    using "2.prems" by (simp split: if_splits list.splits)
  then show ?case
  proof cases
    case one
    have "\<exists>x. scalar_value x \<and> [a] = encode_char x" using one(1) by (intro exI [of _ a]) (simp add: scalar_value_def encode_char_def)
    from encoded_Cons [OF this "2.IH"(1) [OF one]] show ?thesis by simp
  next
    case two
    from encoded_Cons [OF decode_2 [OF two(1,2,4)] "2.IH"(2) [of b rest]] two show ?thesis by simp
  next
    case three
    from encoded_Cons [OF decode_3 [OF three(1,2,4,5)] "2.IH"(3) [of b "c # rest" c rest]] three show ?thesis by simp
  next
    case four
    from encoded_Cons [OF decode_4 [OF four(1,2,4-6)] "2.IH"(4) [of b "c # d # rest" c "d # rest" d rest]] four show ?thesis by simp
  qed
qed

lemma utf8_valid_iff: "utf8_valid bs \<longleftrightarrow> (\<exists>cs. list_all scalar_value cs \<and> bs = concat (map encode_char cs))"
proof
  assume "\<exists>cs. list_all scalar_value cs \<and> bs = concat (map encode_char cs)"
  then obtain cs where "list_all scalar_value cs" "bs = concat (map encode_char cs)" by blast
  then show "utf8_valid bs" by (induction cs arbitrary: bs) (simp_all add: encode_valid)
qed (rule valid_encoded)

end
