(* ===== verification/Mps.thy ===== *)
theory Mps
  imports Multiboot2 Utf8
begin

text \<open>
  The MultiProcessor Specification tables, \<^verbatim>\<open>src/src/interrupt/mps.rs\<close>: the search for the floating pointer,
  the configuration table with its identification strings, and its I/O APIC entry. The structures are read from physical memory at their
  \<^verbatim>\<open>repr(C)\<close> offsets.
\<close>

section \<open>Definitions\<close>

definition FALLBACK_IOAPIC_BASE :: usize where "FALLBACK_IOAPIC_BASE = 0xfec00000"
definition EBDA_BASE :: usize where "EBDA_BASE = 0x80000"
definition EBDA_MAX_SIZE :: usize where "EBDA_MAX_SIZE = 128 * 1024"
definition BIOS_BASE :: usize where "BIOS_BASE = 0xf0000"
definition BIOS_MAX_SIZE :: usize where "BIOS_MAX_SIZE = 64 * 1024"
definition FP_SIGNATURE :: "u8 list" where "FP_SIGNATURE = [0x5f, 0x4d, 0x50, 0x5f]"
definition CONF_SIGNATURE :: "u8 list" where "CONF_SIGNATURE = [0x50, 0x43, 0x4d, 0x50]"
definition ENTRY_IOAPIC :: u8 where "ENTRY_IOAPIC = 2"
definition HEADER_SIZE :: usize where "HEADER_SIZE = 44"

definition read_bytes :: "memory \<Rightarrow> usize \<Rightarrow> nat \<Rightarrow> u8 list" where
  "read_bytes mem a n = map (\<lambda>i. mem (a + i)) [0..<n]"

definition read_u16 :: "memory \<Rightarrow> usize \<Rightarrow> u16" where
  "read_u16 mem a = of_nat (read_le mem a 2)"

record floating_pointer =
  fp_signature :: "u8 list"
  phys_addr :: u32

record configuration_table =
  ct_signature :: "u8 list"
  ct_len :: u16
  spec_rev :: u8
  checksum :: u8
  oem_id :: "u8 list"
  product_id :: "u8 list"
  oem_table_ptr :: u32
  oem_table_size :: u16
  entry_count :: u16
  lapic_base :: u32

record io_apic_entry =
  entry_type :: u8
  entry_id :: u8
  entry_version_byte :: u8
  entry_flags :: u8
  entry_base :: u32

definition read_fp :: "memory \<Rightarrow> usize \<Rightarrow> floating_pointer" where
  "read_fp mem a = \<lparr>fp_signature = read_bytes mem a 4, phys_addr = read_u32 mem (a + 4)\<rparr>"

definition read_config :: "memory \<Rightarrow> usize \<Rightarrow> configuration_table" where
  "read_config mem a = \<lparr>ct_signature = read_bytes mem a 4, ct_len = read_u16 mem (a + 4), spec_rev = mem (a + 6), checksum = mem (a + 7),
     oem_id = read_bytes mem (a + 8) 8, product_id = read_bytes mem (a + 16) 12, oem_table_ptr = read_u32 mem (a + 28),
     oem_table_size = read_u16 mem (a + 32), entry_count = read_u16 mem (a + 34), lapic_base = read_u32 mem (a + 36)\<rparr>"

definition read_io_apic :: "memory \<Rightarrow> usize \<Rightarrow> io_apic_entry" where
  "read_io_apic mem a = \<lparr>entry_type = mem a, entry_id = mem (a + 1), entry_version_byte = mem (a + 2), entry_flags = mem (a + 3),
     entry_base = read_u32 mem (a + 4)\<rparr>"

text \<open>A reference to a structure is its address.\<close>

definition get_config_table :: "memory \<Rightarrow> usize \<Rightarrow> usize result" where
  "get_config_table mem self =
     (let config = unat (phys_addr (read_fp mem self)) in
      if ct_signature (read_config mem config) \<noteq> CONF_SIGNATURE then Inl (PanicMsg ''Invalid configuration table'') else Inr config)"

definition oem_id_str :: "memory \<Rightarrow> usize \<Rightarrow> u8 list option" where
  "oem_id_str mem self = from_utf8 (oem_id (read_config mem self))"

definition product_id_str :: "memory \<Rightarrow> usize \<Rightarrow> u8 list option" where
  "product_id_str mem self = from_utf8 (product_id (read_config mem self))"

definition entry_len :: "u8 \<Rightarrow> usize option" where
  "entry_len t = (if t = 0 then Some 20 else if t = 1 \<or> t = 2 \<or> t = 3 \<or> t = 4 then Some 8 else None)"

text \<open>The loop with \<open>n\<close> entries left.\<close>

fun ioapic_loop :: "memory \<Rightarrow> nat \<Rightarrow> usize \<Rightarrow> usize option result" where
  "ioapic_loop mem 0 cur = Inr None"
| "ioapic_loop mem (Suc n) cur =
     (let entry_type = mem cur in
      case entry_len entry_type of
        None \<Rightarrow> Inl (PanicMsg ''Invalid MPS entry type {}'')
      | Some len \<Rightarrow>
          if entry_type = ENTRY_IOAPIC then Inr (Some cur)
          else and_then (checked_add cur len) (\<lambda>cur. ioapic_loop mem n cur))"

definition get_ioapic_entry :: "memory \<Rightarrow> usize \<Rightarrow> usize option result" where
  "get_ioapic_entry mem table =
     and_then (checked_add table HEADER_SIZE) (\<lambda>cur. ioapic_loop mem (unat (entry_count (read_config mem table))) cur)"

definition probe_ioapic :: usize where
  "probe_ioapic = FALLBACK_IOAPIC_BASE"

function find_fp_loop :: "memory \<Rightarrow> usize \<Rightarrow> usize \<Rightarrow> usize option result" where
  "find_fp_loop mem search_end cur =
     (if cur < search_end then
        if read_bytes mem cur 4 = FP_SIGNATURE then Inr (Some cur)
        else and_then (checked_add cur 16) (\<lambda>_. find_fp_loop mem search_end (cur + 16))
      else Inr None)"
  by pat_completeness auto
termination by (relation "measure (\<lambda>(mem, e, cur). e - cur)") auto

declare find_fp_loop.simps [simp del]

definition find_fp :: "memory \<Rightarrow> usize \<Rightarrow> usize \<Rightarrow> usize option result" where
  "find_fp mem base len =
     and_then (checked_add base len) (\<lambda>e.
     and_then (checked_sub e 16) (\<lambda>search_end. find_fp_loop mem search_end base))"

section \<open>The search\<close>

lemma find_fp_loop_find:
  assumes "search_end + 16 \<le> usize_limit"
  shows "find_fp_loop mem search_end cur =
    Inr (find (\<lambda>a. read_bytes mem a 4 = FP_SIGNATURE) (map (\<lambda>i. cur + 16 * i) [0..<area_count cur search_end 16]))"
proof (induction "search_end - cur" arbitrary: cur rule: less_induct)
  case less
  show ?case
  proof (cases "cur < search_end")
    case True
    let ?n = "area_count (cur + 16) search_end 16"
    have "map (\<lambda>i. cur + 16 * i) [0..<area_count cur search_end 16] = cur # map (\<lambda>i. (cur + 16) + 16 * i) [0..<?n]"
      using area_count_step [of 16 cur search_end] True
      by (simp add: upt_conv_Cons map_Suc_upt [symmetric] del: upt_Suc)
    moreover have "find_fp_loop mem search_end (cur + 16) =
        Inr (find (\<lambda>a. read_bytes mem a 4 = FP_SIGNATURE) (map (\<lambda>i. (cur + 16) + 16 * i) [0..<?n]))"
      using True by (intro less.hyps) simp
    ultimately show ?thesis using True assms by (subst find_fp_loop.simps) simp
  next
    case False
    then show ?thesis by (subst find_fp_loop.simps) (simp add: area_count_done)
  qed
qed

section \<open>Properties\<close>

text \<open>
  C33: \<^verbatim>\<open>find_fp\<close> terminates without a panic on every region of at least 16 bytes below \<open>2 ^ 64\<close>
  whose size is a multiple of 16, and returns the lowest 16-byte paragraph of it that carries the signature,
  the region's last paragraph excepted: that one is never examined.
\<close>

theorem find_fp_correct:
  assumes "0 < n" and "base + 16 * n < usize_limit"
  shows "find_fp mem base (16 * n) =
    Inr (find (\<lambda>a. read_bytes mem a 4 = FP_SIGNATURE) (map (\<lambda>i. base + 16 * i) [0..<n - 1]))"
proof -
  have "area_count base (base + 16 * n - 16) 16 = n - 1"
    using assms(1) by (simp add: area_count_def)
  moreover have "16 \<le> base + 16 * n" using assms(1) by simp
  ultimately show ?thesis
    using find_fp_loop_find [of "base + 16 * n - 16" mem base] assms by (simp add: find_fp_def)
qed

theorem find_fp_correct_witness:
  "find_fp (\<lambda>a. if a = 0xf0020 then 0x5f else if a = 0xf0021 then 0x4d else if a = 0xf0022 then 0x50 else
      if a = 0xf0023 then 0x5f else 0) 0xf0000 (16 * 4) = Inr (Some 0xf0020) \<and>
   find_fp (\<lambda>a. if a = 0xf0020 then 0x5f else if a = 0xf0021 then 0x4d else if a = 0xf0022 then 0x50 else
      if a = 0xf0023 then 0x5f else 0) 0xf0000 (16 * 3) = Inr None"
  using find_fp_correct [of 4 "0xf0000"] find_fp_correct [of 3 "0xf0000"]
  by (simp add: read_bytes_def FP_SIGNATURE_def upt_rec)

text \<open>\<open>entries_at mem a ts\<close>: from \<open>a\<close> on there are entries of the valid types \<open>ts\<close>.\<close>

fun entries_at :: "memory \<Rightarrow> usize \<Rightarrow> u8 list \<Rightarrow> bool" where
  "entries_at mem a [] \<longleftrightarrow> True"
| "entries_at mem a (t # ts) \<longleftrightarrow> mem a = t \<and> (case entry_len t of None \<Rightarrow> False
     | Some len \<Rightarrow> a + len < usize_limit \<and> entries_at mem (a + len) ts)"

fun first_ioapic :: "usize \<Rightarrow> u8 list \<Rightarrow> usize option" where
  "first_ioapic a [] = None"
| "first_ioapic a (t # ts) = (if t = ENTRY_IOAPIC then Some a else first_ioapic (a + the (entry_len t)) ts)"

lemma ioapic_loop_first: "entries_at mem a ts \<Longrightarrow> ioapic_loop mem (length ts) a = Inr (first_ioapic a ts)"
  by (induction ts arbitrary: a) (auto split: option.splits)

text \<open>
  On a configuration table whose entries have valid types, \<^verbatim>\<open>get_ioapic_entry\<close> returns the
  first I/O APIC entry, or none if there is none.
\<close>

lemma get_ioapic_entry_correct:
  assumes "table + HEADER_SIZE < usize_limit" and "length ts = unat (entry_count (read_config mem table))"
    and "entries_at mem (table + HEADER_SIZE) ts"
  shows "get_ioapic_entry mem table = Inr (first_ioapic (table + HEADER_SIZE) ts)"
  using assms ioapic_loop_first [OF assms(3)] by (simp add: get_ioapic_entry_def)

text \<open>The whole way from a floating pointer to the base address of the first I/O APIC, on well-formed tables.\<close>

lemma tables_lead_to_ioapic:
  assumes "fp_signature (read_fp mem fp) = FP_SIGNATURE" and "table = unat (phys_addr (read_fp mem fp))"
    and "ct_signature (read_config mem table) = CONF_SIGNATURE" and "length ts = unat (entry_count (read_config mem table))"
    and "entries_at mem (table + HEADER_SIZE) ts" and "ENTRY_IOAPIC \<in> set ts"
  shows "\<exists>e. get_config_table mem fp = Inr table \<and> get_ioapic_entry mem table = Inr (Some e) \<and> entry_type (read_io_apic mem e) = ENTRY_IOAPIC"
proof -
  have "unat (phys_addr (read_fp mem fp)) < 2 ^ 32" by (rule order_less_le_trans [OF unsigned_less]) simp
  then have "table + HEADER_SIZE < usize_limit" by (simp add: assms(2) HEADER_SIZE_def)
  moreover have "\<exists>e. first_ioapic a ts = Some e \<and> mem e = ENTRY_IOAPIC" if "entries_at mem a ts" "ENTRY_IOAPIC \<in> set ts" for a ts
    using that by (induction ts arbitrary: a) (auto split: option.splits)
  ultimately show ?thesis
    using get_ioapic_entry_correct [OF _ assms(4,5)] assms by (auto simp: get_config_table_def read_io_apic_def)
qed

text \<open>
  The identification strings are available exactly if the bytes of the table are the encoding of a sequence of scalar
  values; blanks and ASCII text, which the specification prescribes, are.
\<close>

lemma oem_id_str_iff:
  "oem_id_str mem self = Some t \<longleftrightarrow> t = oem_id (read_config mem self) \<and>
     (\<exists>cs. list_all scalar_value cs \<and> map unat t = concat (map encode_char cs))"
  by (auto simp: oem_id_str_def from_utf8_def utf8_valid_iff)

lemma product_id_str_iff:
  "product_id_str mem self = Some t \<longleftrightarrow> t = product_id (read_config mem self) \<and>
     (\<exists>cs. list_all scalar_value cs \<and> map unat t = concat (map encode_char cs))"
  by (auto simp: product_id_str_def from_utf8_def utf8_valid_iff)

lemma utf8_valid_ascii: "list_all (\<lambda>b. b < 0x80) bs \<Longrightarrow> utf8_valid bs"
  by (induction bs) simp_all

lemma id_str_ascii:
  "list_all (\<lambda>b. unat b < 0x80) (oem_id (read_config mem self)) \<Longrightarrow> oem_id_str mem self = Some (oem_id (read_config mem self))"
  "list_all (\<lambda>b. unat b < 0x80) (product_id (read_config mem self)) \<Longrightarrow> product_id_str mem self = Some (product_id (read_config mem self))"
  by (simp_all add: oem_id_str_def product_id_str_def from_utf8_def utf8_valid_ascii list_all_iff)

end
