(* ===== verification/Kernel.thy ===== *)
theory Kernel
  imports Boot_Report Idt Trampoline Xapic Mps
begin

text \<open>
  Interrupt set-up and the boot sequence: \<^verbatim>\<open>init\<close> and \<^verbatim>\<open>init_cpu\<close> of \<^verbatim>\<open>src/src/interrupt/mod.rs\<close>,
  \<^verbatim>\<open>src/src/interrupt/ioapic.rs\<close> and \<^verbatim>\<open>rust_main\<close> of \<^verbatim>\<open>src/src/main.rs\<close>. The kernel's state joins the
  states of the components; the interrupt flag is the one of RFLAGS that the mutexes work on.
\<close>

section \<open>State\<close>

text \<open>What the boot sequence does to the processor, in order.\<close>

datatype boot_event = Privileged privileged | Lidt u16 usize | Sti | Log log_line

record ('t, 'io, 'l) kernel =
  k_cpu :: "('t, xapic_driver) cpu"
  k_alloc :: page_allocator
  k_idt :: idt
  k_ioapic :: "'io option"
  k_serial :: "'l serial_static"
  k_hw :: history
  k_events :: "boot_event list"

text \<open>
  The parts of the environment the boot sequence uses. \<open>test_all\<close> is the function \<^verbatim>\<open>memory::test::test_all\<close>, for which the
  sources have no definition: it may do anything to the kernel's state, panic, or not return.
\<close>

datatype handler = InvalidOpcodeH | BreakpointH | DoubleFaultH | GeneralProtectionFaultH | PageFaultH | TimerH

record ('t, 'io, 'l) platform =
  pf_device :: device
  pf_set_bit8 :: "u8 bit_setter"
  pf_set_bits8 :: "u8 range_setter"
  pf_set_bit32 :: "u32 bit_setter"
  pf_set_bit64 :: "u64 bit_setter"
  pf_x86 :: "'t x86_crate"
  pf_spin :: "'l spin_lock"
  spin_new :: 'l
  io_new :: "usize \<Rightarrow> 'io"
  io_enable :: "u8 \<Rightarrow> u8 \<Rightarrow> 'io \<Rightarrow> 'io"
  trampoline_addr :: "nat \<Rightarrow> bool \<Rightarrow> handler \<Rightarrow> u64"
  gdt_addr :: usize
  tss_addr :: usize
  idt_addr :: usize
  end_symbol :: usize
  metadata_bytes :: usize
  raw_metadata :: "usize \<Rightarrow> page_metadata"
  boot_memory :: memory
  boot_memory_after :: memory
  bootinfo :: usize
  test_all :: "('t, 'io, 'l) kernel \<Rightarrow> ('t, 'io, 'l) kernel run"

definition IRQ_OFFSET :: usize where "IRQ_OFFSET = 32"
definition IRQ_TIMER :: usize where "IRQ_TIMER = 0"
definition PIC1_DATA :: u16 where "PIC1_DATA = 0x21"
definition PIC2_DATA :: u16 where "PIC2_DATA = 0xa1"

section \<open>The I/O APIC\<close>

definition ioapic_init :: "('t, 'io, 'l) platform \<Rightarrow> usize \<Rightarrow> ('t, 'io, 'l) kernel \<Rightarrow> ('t, 'io, 'l) kernel" where
  "ioapic_init pf ioapic_base k = k\<lparr>k_ioapic := Some (io_new pf ioapic_base)\<rparr>"

definition ioapic_init_cpu :: "('t, 'io, 'l) platform \<Rightarrow> ('t, 'io, 'l) kernel \<Rightarrow> ('t, 'io, 'l) kernel result" where
  "ioapic_init_cpu pf k = (case k_ioapic k of
       None \<Rightarrow> Inl UndefinedBehaviour
     | Some io \<Rightarrow>
         let io = io_enable pf 0 (of_int get_cpu_id) io;
             io = io_enable pf 1 (of_int get_cpu_id) io in
         Inr (k\<lparr>k_ioapic := Some io\<rparr>))"

section \<open>Interrupts\<close>

text \<open>
  \<^verbatim>\<open>init\<close>: the trampoline of each \<^verbatim>\<open>wrap_interrupt!\<close> is a function of its own, named here by the vector it is
  made for, whether it expects an error code, and the handler it calls. \<open>cs\<close> is the code segment.
\<close>

definition install_handlers :: "('t, 'io, 'l) platform \<Rightarrow> u16 \<Rightarrow> idt \<Rightarrow> idt result" where
  "install_handlers pf cs t =
     (let set = set_handler_fn (pf_set_bit8 pf) (pf_set_bits8 pf) cs; tr = trampoline_addr pf;
          t = t\<lparr>divide_by_zero := set (tr 0 False InvalidOpcodeH) (divide_by_zero t)\<rparr>;
          t = t\<lparr>breakpoint := set (tr 3 False BreakpointH) (breakpoint t)\<rparr>;
          t = t\<lparr>invalid_opcode := set (tr 6 False InvalidOpcodeH) (invalid_opcode t)\<rparr>;
          t = t\<lparr>double_fault := set (tr 8 True DoubleFaultH) (double_fault t)\<rparr>;
          t = t\<lparr>general_protection_fault := set (tr 13 True GeneralProtectionFaultH) (general_protection_fault t)\<rparr>;
          t = t\<lparr>page_fault := set (tr 14 True PageFaultH) (page_fault t)\<rparr> in
      and_then (modify_at (set (tr 32 False TimerH)) IRQ_TIMER (interrupts t)) (\<lambda>is.
      Inr (t\<lparr>interrupts := is\<rparr>)))"

definition interrupt_init :: "('t, 'io, 'l) platform \<Rightarrow> u16 \<Rightarrow> ('t, 'io, 'l) kernel \<Rightarrow> ('t, 'io, 'l) kernel result" where
  "interrupt_init pf cs k =
     (let (pic1, h) = inb (pf_device pf) PIC1_DATA (k_hw k);
          (pic2, h) = inb (pf_device pf) PIC2_DATA h;
          h = outb PIC1_DATA 0xff h;
          h = outb PIC2_DATA 0xff h in
      and_then (install_handlers pf cs (k_idt k)) (\<lambda>t.
      Inr (ioapic_init pf probe_ioapic (k\<lparr>k_hw := h, k_idt := t\<rparr>))))"

definition interrupt_init_cpu :: "('t, 'io, 'l) platform \<Rightarrow> ('t, 'io, 'l) kernel \<Rightarrow> ('t, 'io, 'l) kernel result" where
  "interrupt_init_cpu pf k =
     and_then (lapic_init (pf_device pf) (pf_set_bit64 pf) (pf_set_bit32 pf) (k_cpu k) (k_hw k)) (\<lambda>(c, h).
     and_then (ioapic_init_cpu pf (k\<lparr>k_cpu := c, k_hw := h\<rparr>)) (\<lambda>k.
       let (limit, addr) = load_idt (idt_addr pf) (k_idt k) in
     Inr (k\<lparr>k_events := k_events k @ [Lidt limit addr, Sti],
            k_alloc := (k_alloc k)\<lparr>rflags := enable_interrupts (rflags (k_alloc k))\<rparr>\<rparr>)))"

section \<open>The boot sequence\<close>

text \<open>The code segment after the loads of the boot sequence.\<close>

definition current_cs :: "boot_event list \<Rightarrow> u16" where
  "current_cs es = fold (\<lambda>e cs. case e of Privileged (LoadCs v) \<Rightarrow> v | _ \<Rightarrow> cs) es 0"

text \<open>
  \<^verbatim>\<open>rust_main\<close> up to the call of the test. \<^verbatim>\<open>memory::init\<close> prints through the serial port, polling it before each byte; the lines it
  gets to print are those of \<^const>\<open>memory_report\<close>.
\<close>

definition start_kernel :: "('t, 'io, 'l) platform \<Rightarrow> ('t, 'io, 'l) kernel \<Rightarrow> ('t, 'io, 'l) kernel run" where
  "start_kernel pf k =
     (case gdt_init_cpu (pf_set_bit8 pf) (pf_set_bits8 pf) (pf_x86 pf) (gdt_addr pf) (tss_addr pf) (k_cpu k) of
        Inl e \<Rightarrow> Some (Inl e)
      | Inr (instrs, c) \<Rightarrow>
          let k = k\<lparr>k_cpu := c, k_events := k_events k @ map Privileged instrs\<rparr> in
          then_run (print_report (pf_device pf) (pf_spin pf)
              (memory_report (end_symbol pf) (metadata_bytes pf) (raw_metadata pf) (boot_memory pf) (boot_memory_after pf)
                (bootinfo pf) (k_alloc k)) (k_serial k, k_hw k)) (\<lambda>(st, h).
          then_run (memory_init (end_symbol pf) (metadata_bytes pf) (raw_metadata pf) (boot_memory pf) (boot_memory_after pf)
              (bootinfo pf) (k_alloc k)) (\<lambda>(log, a).
          let k = k\<lparr>k_alloc := a, k_serial := st, k_hw := h, k_events := k_events k @ map Log log\<rparr> in
          Some (and_then (interrupt_init pf (current_cs (k_events k)) k) (\<lambda>k. interrupt_init_cpu pf k)))))"

text \<open>\<^verbatim>\<open>rust_main\<close>: the value is the state in which it enters its final loop.\<close>

definition rust_main :: "('t, 'io, 'l) platform \<Rightarrow> ('t, 'io, 'l) kernel \<Rightarrow> ('t, 'io, 'l) kernel run" where
  "rust_main pf k = then_run (start_kernel pf k) (\<lambda>k. test_all pf k)"

text \<open>
  The panic handler prints a banner and the panic's description and then halts for ever; the value is the state in which it
  enters the final loop. \<^verbatim>\<open>alloc_error_handler\<close> panics with the layout.
\<close>

definition panic_handler ::
  "device \<Rightarrow> 'l spin_lock \<Rightarrow> u8 list list \<Rightarrow> 'l serial_static \<Rightarrow> history \<Rightarrow> ('l serial_static \<times> history) run" where
  "panic_handler d sl info st h =
     then_run (println d sl [newline # str_bytes ''!!! KERNEL PANIC !!!''] st h) (\<lambda>(st, h). println d sl info st h)"

definition alloc_error_handler ::
  "device \<Rightarrow> 'l spin_lock \<Rightarrow> (layout \<Rightarrow> u8 list list) \<Rightarrow> layout \<Rightarrow> 'l serial_static \<Rightarrow> history \<Rightarrow> ('l serial_static \<times> history) run" where
  "alloc_error_handler d sl show_layout lay st h = panic_handler d sl (str_bytes ''Allocation error: '' # show_layout lay) st h"

definition initial_kernel :: "'t \<Rightarrow> usize \<Rightarrow> u64 \<Rightarrow> 'l \<Rightarrow> ('t, 'io, 'l) kernel" where
  "initial_kernel tss_new ist_base fl lock_new = \<lparr>k_cpu = new_cpu tss_new ist_base, k_alloc = new_allocator fl, k_idt = new_idt,
     k_ioapic = None, k_serial = \<lparr>serial1 = None, serial_lock = lock_new\<rparr>, k_hw = [], k_events = []\<rparr>"

section \<open>The interrupt table after start-up\<close>

text \<open>The vectors \<^verbatim>\<open>init\<close> installs, with the trampoline of each.\<close>

definition installed_vectors :: "(nat \<times> bool \<times> handler) list" where
  "installed_vectors = [(0, False, InvalidOpcodeH), (3, False, BreakpointH), (6, False, InvalidOpcodeH),
     (8, True, DoubleFaultH), (13, True, GeneralProtectionFaultH), (14, True, PageFaultH), (32, False, TimerH)]"

text \<open>The exceptions for which the processor pushes an error code (Intel SDM Vol. 3, Table 6-1).\<close>

definition has_error_code :: "nat \<Rightarrow> bool" where
  "has_error_code v \<longleftrightarrow> v \<in> {8, 10, 11, 12, 13, 14, 17, 21}"

lemma attributes_missing [simp]:
  "attributes missing = 0" "attributes missing_exception = 0" "attributes missing_irq = 0"
  "entry_ist missing = 0" "entry_ist missing_exception = 0" "entry_ist missing_irq = 0"
  by (simp_all add: missing_def missing_exception_def missing_irq_def missing_attributes_def)

definition booted_idt :: "('t, 'io, 'l) platform \<Rightarrow> u16 \<Rightarrow> idt" where
  "booted_idt pf cs = (let set = set_handler_fn (pf_set_bit8 pf) (pf_set_bits8 pf) cs; tr = trampoline_addr pf in
     new_idt\<lparr>divide_by_zero := set (tr 0 False InvalidOpcodeH) missing_exception,
       breakpoint := set (tr 3 False BreakpointH) missing, invalid_opcode := set (tr 6 False InvalidOpcodeH) missing_exception,
       double_fault := set (tr 8 True DoubleFaultH) missing_exception,
       general_protection_fault := set (tr 13 True GeneralProtectionFaultH) missing_exception,
       page_fault := set (tr 14 True PageFaultH) missing_exception,
       interrupts := set (tr 32 False TimerH) missing_irq # replicate 223 missing_irq\<rparr>)"

lemma install_new_idt: "install_handlers pf cs new_idt = Inr (booted_idt pf cs)"
proof -
  have "replicate 224 missing_irq = missing_irq # replicate 223 missing_irq"
    using replicate_Suc [of 223 missing_irq] by simp
  then show ?thesis
    by (simp add: install_handlers_def booted_idt_def new_idt_def IRQ_TIMER_def Let_def)
qed

lemma booted_vectors:
  "vectors (booted_idt pf cs) =
     (let set = set_handler_fn (pf_set_bit8 pf) (pf_set_bits8 pf) cs; tr = trampoline_addr pf; m = missing_exception in
      [set (tr 0 False InvalidOpcodeH) m, m, m, set (tr 3 False BreakpointH) missing, m, m, set (tr 6 False InvalidOpcodeH) m, m,
       set (tr 8 True DoubleFaultH) m, m, m, m, m, set (tr 13 True GeneralProtectionFaultH) m, set (tr 14 True PageFaultH) m, m,
       m, m, m, m, m, missing] @ replicate 10 missing @ set (tr 32 False TimerH) missing_irq # replicate 223 missing_irq)"
  by (simp add: booted_idt_def vectors_def new_idt_def Let_def)

lemma booted_vector_installed:
  assumes "sets_bit (pf_set_bit8 pf)" and "sets_bits (pf_set_bits8 pf)" and "(v, err, hn) \<in> set installed_vectors"
  shows "installed cs (trampoline_addr pf v err hn) (vectors (booted_idt pf cs) ! v)"
  using assms(3) set_handler_installed [OF assms(1,2)]
  by (auto simp: installed_vectors_def booted_vectors Let_def nth_append)

lemma booted_vector_missing:
  assumes "v < 256" and "v \<notin> fst ` set installed_vectors"
  shows "vectors (booted_idt pf cs) ! v \<in> {missing, missing_exception, missing_irq}"
proof -
  consider "v < 22" | "22 \<le> v" "v < 32" | "32 < v"
    using assms(2) by (fastforce simp: installed_vectors_def)
  then show ?thesis
  proof cases
    case 1
    then have "v \<in> {0, 1, 2, 3, 4, 5, 6, 7, 8, 9, 10, 11, 12, 13, 14, 15, 16, 17, 18, 19, 20, 21}"
      by (auto simp: less_Suc_eq numeral_eq_Suc)
    then show ?thesis using assms(2) by (auto simp: installed_vectors_def booted_vectors Let_def)
  next
    case 2
    then show ?thesis by (simp add: booted_vectors Let_def nth_append)
  next
    case 3
    then obtain j where j: "v = 33 + j" "j < 223" using assms(1) by (intro that [of "v - 33"]) auto
    then show ?thesis by (simp add: booted_vectors Let_def nth_append)
  qed
qed

lemma booted_present_iff:
  assumes "sets_bit (pf_set_bit8 pf)" and "sets_bits (pf_set_bits8 pf)" and "v < 256"
  shows "present (vectors (booted_idt pf cs) ! v) \<longleftrightarrow> v \<in> fst ` set installed_vectors"
proof
  assume "v \<in> fst ` set installed_vectors"
  then obtain err hn where "(v, err, hn) \<in> set installed_vectors" by auto
  from installed_present [OF booted_vector_installed [OF assms(1,2) this]]
  show "present (vectors (booted_idt pf cs) ! v)" by blast
next
  assume p: "present (vectors (booted_idt pf cs) ! v)"
  show "v \<in> fst ` set installed_vectors"
  proof (rule ccontr)
    assume "v \<notin> fst ` set installed_vectors"
    from booted_vector_missing [OF assms(3) this, of pf cs] p show False by auto
  qed
qed

section \<open>The whole boot\<close>

text \<open>The documented behaviour of the environment, and a memory map the kernel can work with.\<close>

definition platform_ok :: "('t, 'io, 'l) platform \<Rightarrow> ('t \<Rightarrow> nat \<Rightarrow> u64) \<Rightarrow> ('t \<Rightarrow> ring \<Rightarrow> u64) \<Rightarrow> memory_area list \<Rightarrow> bool" where
  "platform_ok pf get_ist get_rsp areas \<longleftrightarrow>
     sets_bit (pf_set_bit8 pf) \<and> sets_bits (pf_set_bits8 pf) \<and> sets_bit (pf_set_bit32 pf) \<and> sets_bit (pf_set_bit64 pf) \<and>
     tss_laws (pf_x86 pf) get_ist get_rsp \<and> selector_law (pf_x86 pf) \<and>
     responsive (pf_device pf) (new_port COM1) \<and> (\<exists>held. lock_law (pf_spin pf) (spin_new pf) held) \<and>
     boot_ok (end_symbol pf) (metadata_bytes pf) (boot_memory pf) (boot_memory_after pf) (bootinfo pf) areas \<and>
     free_kb (start_frames (end_symbol pf) (metadata_bytes pf) areas) < 2 ^ 31"

lemma rep_rflags [simp]: "rep lo (s\<lparr>rflags := fl\<rparr>) a \<longleftrightarrow> rep lo s a"
  by (simp add: rep_def unlocked_def pages_def head_4kb_def head_2mb_def)

lemma current_cs_logs: "current_cs (es @ map Log ls) = current_cs es"
proof -
  have "fold (\<lambda>e cs. case e of Privileged (LoadCs v) \<Rightarrow> v | _ \<Rightarrow> cs) (map Log ls) c = c" for c
    by (induction ls arbitrary: c) simp_all
  then show ?thesis by (simp add: current_cs_def)
qed

definition boot_loads :: "usize \<Rightarrow> privileged list" where
  "boot_loads a = [Lgdt 56 a, LoadCs 16, LoadDs 8, LoadEs 8, LoadSs 8, LoadTr 40]"

text \<open>What the boot sequence writes to the devices: the report, the masks of both PICs, and the local APIC's registers.\<close>

definition boot_output :: "log_line list \<Rightarrow> usize \<Rightarrow> u64 \<Rightarrow> u32 \<Rightarrow> history" where
  "boot_output log region apic_base lvt = init_writes COM1 @ map (PortOut COM1) (report_bytes log) @ [PortOut 0x21 0xff, PortOut 0xa1 0xff] @
     [MsrWrite IA32_APIC_BASE apic_base, RegWrite (region + 0xF0) 0x10F, RegWrite (region + 0x380) 0xfffffffe, RegWrite (region + 0x320) lvt]"

lemma init_writes_writes [simp]: "writes_of (init_writes b) = init_writes b"
  by (simp add: init_writes_def)

lemma start_kernel_memory:
  assumes "platform_ok pf get_ist get_rsp areas" and "k = initial_kernel tss_new ist_base fl (spin_new pf)"
    and "fr = start_frames (end_symbol pf) (metadata_bytes pf) areas" and "log = init_lines (end_symbol pf) (metadata_bytes pf) areas fr"
  shows "\<exists>c a st g k'. k' = k\<lparr>k_cpu := c, k_alloc := a, k_serial := st, k_hw := init_writes COM1 @ g,
        k_events := map Privileged (boot_loads (gdt_addr pf)) @ map Log log\<rparr> \<and>
    start_kernel pf k = Some (and_then (interrupt_init pf 16 k') (interrupt_init_cpu pf)) \<and>
    transmits COM1 (report_bytes log) g \<and> rep (first_frame (end_symbol pf) (metadata_bytes pf) areas) a fr \<and> rflags a = fl"
proof -
  note ok = assms(1) [unfolded platform_ok_def]
  have k: "length (ist (k_cpu k)) = 7" "unlocked (k_alloc k)" "rflags (k_alloc k) = fl" "k_serial k = \<lparr>serial1 = None, serial_lock = spin_new pf\<rparr>"
    "k_hw k = []" "k_events k = []" by (simp_all add: assms(2) initial_kernel_def new_cpu_def) (simp add: new_allocator_def)
  from gdt_init_cpu_exec [of "pf_x86 pf" get_ist get_rsp "k_cpu k" "pf_set_bit8 pf" "pf_set_bits8 pf" "gdt_addr pf" "tss_addr pf"] ok k(1)
  obtain c where g: "gdt_init_cpu (pf_set_bit8 pf) (pf_set_bits8 pf) (pf_x86 pf) (gdt_addr pf) (tss_addr pf) (k_cpu k) =
      Inr (boot_loads (gdt_addr pf), c)" by (auto simp: boot_loads_def)
  from memory_init_rep [of _ _ _ _ _ areas "k_alloc k" "raw_metadata pf"] ok k(2,3) obtain a where
    m: "memory_init (end_symbol pf) (metadata_bytes pf) (raw_metadata pf) (boot_memory pf) (boot_memory_after pf) (bootinfo pf) (k_alloc k)
        = Some (Inr (log, a))" and
    r: "rep (first_frame (end_symbol pf) (metadata_bytes pf) areas) a fr" "rflags a = fl" unfolding assms(3,4) by metis
  from ok obtain held where "lock_law (pf_spin pf) (spin_new pf) held" by blast
  moreover have "log \<noteq> []" by (simp add: assms(4) init_lines_def)
  ultimately obtain st gs where p: "print_report (pf_device pf) (pf_spin pf) log (k_serial k, k_hw k) = Some (Inr (st, init_writes COM1 @ gs))"
    "transmits COM1 (report_bytes log) gs"
    using print_report_exec [of "pf_device pf" "pf_spin pf" "spin_new pf" held log "[]"] ok unfolding k(4,5) by (metis append_Nil)
  have cs: "current_cs (map Privileged (boot_loads (gdt_addr pf)) @ map Log log) = 16"
    unfolding current_cs_logs by (simp add: current_cs_def boot_loads_def)
  have "start_kernel pf k = Some (and_then (interrupt_init pf 16 (k\<lparr>k_cpu := c, k_alloc := a, k_serial := st, k_hw := init_writes COM1 @ gs,
      k_events := map Privileged (boot_loads (gdt_addr pf)) @ map Log log\<rparr>)) (interrupt_init_cpu pf))"
    unfolding start_kernel_def g using m p(1) cs k(6) memory_init_report [OF m] by (simp add: Let_def)
  then show ?thesis using p(2) r by blast
qed

lemma start_kernel_boots:
  assumes "platform_ok pf get_ist get_rsp areas" and "k = initial_kernel tss_new ist_base fl (spin_new pf)"
    and "fr = start_frames (end_symbol pf) (metadata_bytes pf) areas" and "log = init_lines (end_symbol pf) (metadata_bytes pf) areas fr"
  shows "\<exists>k' region apic_base lvt. start_kernel pf k = Some (Inr k') \<and>
    k_events k' = map Privileged (boot_loads (gdt_addr pf)) @ map Log log @ [Lidt 0xFFF (idt_addr pf), Sti] \<and>
    writes_of (k_hw k') = boot_output log region apic_base lvt \<and>
    rep (first_frame (end_symbol pf) (metadata_bytes pf) areas) (k_alloc k') fr \<and>
    rflags (k_alloc k') = enable_interrupts fl \<and> k_idt k' = booted_idt pf 16 \<and> xapic (k_cpu k') \<noteq> None \<and>
    k_ioapic k' = Some (io_enable pf 1 0 (io_enable pf 0 0 (io_new pf probe_ioapic)))"
proof -
  note ok = assms(1) [unfolded platform_ok_def]
  from start_kernel_memory [OF assms] obtain c a st g k1 where
    k1: "k1 = k\<lparr>k_cpu := c, k_alloc := a, k_serial := st, k_hw := init_writes COM1 @ g,
        k_events := map Privileged (boot_loads (gdt_addr pf)) @ map Log log\<rparr>" and
    s: "start_kernel pf k = Some (and_then (interrupt_init pf 16 k1) (interrupt_init_cpu pf))" and
    g: "transmits COM1 (report_bytes log) g" and
    r: "rep (first_frame (end_symbol pf) (metadata_bytes pf) areas) a fr" "rflags a = fl" by blast
  obtain hw where i: "interrupt_init pf 16 k1 = Inr (k1\<lparr>k_hw := hw, k_idt := booted_idt pf 16, k_ioapic := Some (io_new pf probe_ioapic)\<rparr>)"
    and hw: "writes_of hw = init_writes COM1 @ map (PortOut COM1) (report_bytes log) @ [PortOut 0x21 0xff, PortOut 0xa1 0xff]"
    using install_new_idt [of pf 16] transmits_writes [OF g]
    by (auto simp: k1 interrupt_init_def inb_def outb_def ioapic_init_def PIC1_DATA_def PIC2_DATA_def Let_def assms(2) initial_kernel_def)
  from lapic_init_ok [of "pf_set_bit64 pf" "pf_set_bit32 pf" _ "pf_device pf" hw c] ok obtain region x hw' b new where
    l: "lapic_init (pf_device pf) (pf_set_bit64 pf) (pf_set_bit32 pf) c hw = Inr (c\<lparr>xapic := Some x\<rparr>, hw')"
      "writes_of hw' = writes_of hw @ [MsrWrite IA32_APIC_BASE b, RegWrite (region + 0xF0) 0x10F,
        RegWrite (region + 0x380) 0xfffffffe, RegWrite (region + 0x320) new]" by metis
  have idt: "load_idt x (booted_idt pf 16) = (0xFFF, x)" for x
    by (simp add: load_idt_def booted_vectors Let_def)
  have w: "writes_of hw' = boot_output log region b new" using l(2) hw by (simp add: boot_output_def)
  let ?k = "k1\<lparr>k_cpu := c\<lparr>xapic := Some x\<rparr>, k_hw := hw', k_idt := booted_idt pf 16,
      k_ioapic := Some (io_enable pf 1 0 (io_enable pf 0 0 (io_new pf probe_ioapic))), k_events := k_events k1 @ [Lidt 0xFFF (idt_addr pf), Sti],
      k_alloc := a\<lparr>rflags := enable_interrupts fl\<rparr>\<rparr>"
  have "start_kernel pf k = Some (Inr ?k)"
    unfolding s i and_then_Inr using l(1) idt r(2) by (simp add: k1 interrupt_init_cpu_def ioapic_init_cpu_def get_cpu_id_def Let_def)
  then show ?thesis using w r by (intro exI [of _ ?k] exI [of _ region] exI [of _ b] exI [of _ new] conjI) (simp_all add: k1)
qed

end
