(* ===== verification/Spec2Isabelle.thy ===== *)
theory Spec2Isabelle
  imports Memory_Props High_Memory Lock_Order Mutex_SMP Type_Safety Heap_Client Kernel
begin

text \<open>
  A verification of \<^verbatim>\<open>hello-os\<close>, a small x86-64 kernel in Rust (sources under \<^verbatim>\<open>src/src\<close>).

  \<^bold>\<open>The program.\<close> The boot loader enters \<^verbatim>\<open>start\<close> (\<^verbatim>\<open>boot.asm\<close>), which switches to long mode and calls \<^verbatim>\<open>rust_main\<close>. \<^verbatim>\<open>rust_main\<close> (\<^verbatim>\<open>main.rs\<close>) loads a GDT and a TSS (\<^verbatim>\<open>gdt/mod.rs\<close>, \<^verbatim>\<open>gdt/types.rs\<close>, \<^verbatim>\<open>cpu.rs\<close>), finds the
  memory map in the Multiboot2 information (\<^verbatim>\<open>memory/multiboot2.rs\<close>) and starts a page allocator for 4KB and 2MB pages
  (\<^verbatim>\<open>memory/page_allocator.rs\<close>) behind interrupt-safe mutexes (\<^verbatim>\<open>memory/mutex.rs\<close>), which serves the Rust heap
  (\<^verbatim>\<open>memory/mod.rs\<close>). It then fills the IDT (\<^verbatim>\<open>interrupt/idt.rs\<close>, \<^verbatim>\<open>interrupt/exception.rs\<close>) with assembly trampolines
  (\<^verbatim>\<open>interrupt/mod.rs\<close>), starts the local APIC and its timer (\<^verbatim>\<open>interrupt/lapic.rs\<close>, \<^verbatim>\<open>interrupt/x86_xapic.rs\<close>) and the
  I/O APIC (\<^verbatim>\<open>interrupt/ioapic.rs\<close>, located through \<^verbatim>\<open>interrupt/mps.rs\<close>), switches interrupts on and halts. Output goes to
  a serial port (\<^verbatim>\<open>serial.rs\<close>).

  \<^bold>\<open>Conventions.\<close> \<^verbatim>\<open>usize\<close> is \<^typ>\<open>nat\<close> with the overflow checks of Rust's development profile written out, so that overflow
  is a panic; the other machine integers are words. A panic is a value of type \<^verbatim>\<open>failure\<close>, an operation returns
  \<^verbatim>\<open>failure + 'a\<close>, and a loop that may run for ever is a partial function whose value is then \<^const>\<open>None\<close>; no bound or
  fuel is used anywhere. Devices answer as a function of the accesses made so far. Code of other crates (bit field setters,
  the TSS and selector types of \<^verbatim>\<open>x86\<close>, the I/O APIC driver, the spin lock of the serial port) is a parameter, with its
  documented behaviour as a hypothesis.

  \<^bold>\<open>Theories.\<close>
  \<^item> \<^verbatim>\<open>Prelude\<close>: failures, checked arithmetic, sequencing, loops over lists.
  \<^item> \<^verbatim>\<open>Mutex\<close>, \<^verbatim>\<open>Mutex_SMP\<close>: \<^verbatim>\<open>lock\<close>, \<^verbatim>\<open>try_lock\<close> and the guard's \<^verbatim>\<open>drop\<close> on one processor, and the same operations as atomic
    steps of any number of processors with nested interrupts and arbitrary code between the operations: mutual exclusion, and, on runs in which no
    owner of the guard switches interrupts on, interrupts off while the lock is held and no suspended owner; a processor that waits for a lock it owns waits for ever. The operations on one processor are what its atomic
    steps amount to, which is why the allocator can be built on them.
  \<^item> \<^verbatim>\<open>Free_List\<close>, \<^verbatim>\<open>Page_Allocator\<close>, \<^verbatim>\<open>Page_Exec\<close>: the metadata entries with their links, and every operation of
    \<^verbatim>\<open>PageAllocator\<close> with its locks; \<^verbatim>\<open>Page_Exec\<close> reduces an operation on an unlocked state to its effect.
  \<^item> \<^verbatim>\<open>Page_Spec\<close>, \<^verbatim>\<open>Page_Refine\<close>, \<^verbatim>\<open>Page_Merge\<close>, \<^verbatim>\<open>Page_Provider\<close>: the abstract frames, the relation \<^const>\<open>rep\<close> between them and the
    code's state, the refinement of each operation, and the contract \<^verbatim>\<open>page_provider\<close> that clients rely on, interpreted on
    the allocator.
  \<^item> \<^verbatim>\<open>Multiboot2\<close>, \<^verbatim>\<open>Page_Init\<close>, \<^verbatim>\<open>Page_Boot\<close>: the parser, and \<^verbatim>\<open>init\<close>, \<^verbatim>\<open>mark_available\<close> and \<^verbatim>\<open>build_lists\<close>: which frames are free
    after start-up.
  \<^item> \<^verbatim>\<open>Global_Alloc\<close>: the heap over the contract, and \<^verbatim>\<open>memory::init\<close>. \<^verbatim>\<open>Samples\<close> has concrete states; \<^verbatim>\<open>Page_Props\<close> and
    \<^verbatim>\<open>Memory_Props\<close> state the properties of the memory subsystem.
  \<^item> \<^verbatim>\<open>Page_Types\<close>, \<^verbatim>\<open>Type_Safety\<close>: every link and list head stays an index of the page array under arbitrary calls, including
    those that break the contract; the two situations in which a bounds check panics.
  \<^item> \<^verbatim>\<open>Heap_Client\<close>: \<^verbatim>\<open>test_allocator\<close> of \<^verbatim>\<open>main.rs\<close> with the \<^verbatim>\<open>Box\<close> and \<^verbatim>\<open>Vec\<close> operations it uses and the bytes they write.
  \<^item> \<^verbatim>\<open>Bit_Fields\<close>, \<^verbatim>\<open>Gdt\<close>, \<^verbatim>\<open>Idt\<close>: the bit setters and byte layouts, the descriptors, access bytes and \<^verbatim>\<open>gdt::init_cpu\<close>, the
    exception codes and the interrupt table.
  \<^item> \<^verbatim>\<open>Trampoline\<close>: the interrupt trampolines as instruction sequences on registers and stack: the handler sees the frame
    of the interrupted code, which resumes unchanged.
  \<^item> \<^verbatim>\<open>Hardware\<close>, \<^verbatim>\<open>Xapic\<close>, \<^verbatim>\<open>Mps\<close>, \<^verbatim>\<open>Serial\<close>: devices, the APIC driver with the timer handler, the search for the MP
    tables and their strings (validated by \<^verbatim>\<open>Utf8\<close>), the serial port and \<^verbatim>\<open>println!\<close>.
  \<^item> \<^verbatim>\<open>Boot\<close>: the assembly of \<^verbatim>\<open>boot.asm\<close> and the header of \<^verbatim>\<open>multiboot_header.asm\<close>, with the processor's page walk: long mode is entered with
    an identity map of the first 4GB. \<^verbatim>\<open>High_Memory\<close> puts these tables next to the allocator. \<^verbatim>\<open>Lock_Order\<close> has the lock sequences of the
    allocator's operations and their interleavings on several processors.
  \<^item> \<^verbatim>\<open>Boot_Report\<close>: the lines the allocator prints at start-up, also when it panics on the way, their formatting and their transmission.
  \<^item> \<^verbatim>\<open>Kernel\<close>: interrupt set-up and \<^verbatim>\<open>rust_main\<close> over all of the above. The properties of the whole boot are below.

  \<^bold>\<open>Not modelled.\<close> \<^verbatim>\<open>memory/test.rs\<close>, \<^verbatim>\<open>console.rs\<close> and \<^verbatim>\<open>console/serial.rs\<close> are empty. The linker
  script and \<^verbatim>\<open>build.rs\<close> only fix addresses, which are parameters. \<^verbatim>\<open>memory::test::test_all\<close>, which \<^verbatim>\<open>rust_main\<close> calls, is defined nowhere; it is
  a parameter about which nothing is assumed. The text of panic messages is the Rust library's; it is a parameter. Memory ordering is
  sequentially consistent in the mutex model.
\<close>

section \<open>A platform\<close>

text \<open>The parameters of the boot sequence with concrete values: the bit setters of the library, a plain device and 8MB of memory.\<close>

definition sample_platform :: "(sample_tss, (u8 \<times> u8) list, bool) platform" where
  "sample_platform = \<lparr>pf_device = plain_device, pf_set_bit8 = hol_set_bit, pf_set_bits8 = hol_set_bits, pf_set_bit32 = hol_set_bit,
     pf_set_bit64 = hol_set_bit, pf_x86 = sample_x86, pf_spin = sample_lock, spin_new = False, io_new = (\<lambda>_. []), io_enable = (\<lambda>irq cpu io. io @ [(irq, cpu)]),
     trampoline_addr = (\<lambda>v _ _. of_nat (0x101000 + 64 * v)), gdt_addr = 0x108000, tss_addr = 0x108040, idt_addr = 0x10A000,
     end_symbol = 0x150000, metadata_bytes = 40, raw_metadata = (\<lambda>_. new_metadata), boot_memory = sample_memory,
     boot_memory_after = sample_memory, bootinfo = 0x10000, test_all = (\<lambda>k. Some (Inr k))\<rparr>"

lemma sample_platform_ok: "platform_ok sample_platform sample_ist sample_rsp [sample_area]"
proof -
  have "lock_law sample_lock False True" by (simp add: lock_law_def sample_lock_def)
  then show ?thesis
    using sample_boot sample_free_kb sample_laws plain_responsive
    by (auto simp: hol_sets_bit hol_sets_bits platform_ok_def sample_platform_def)
qed

section \<open>The boot sequence\<close>

text \<open>The allocator that the boot sequence leaves satisfies the contract of its clients.\<close>

lemma first_frame_pos: "PAGE_SIZE_4KB \<le> end_sym \<Longrightarrow> 0 < first_frame end_sym meta_size areas"
  by (simp add: first_frame_def final_end_def page_up_def page_consts div_greater_zero_iff)

text \<open>
  On a platform that behaves as documented, with a memory map that fits the address space, \<^verbatim>\<open>rust_main\<close> reaches the call of
  the allocator's test without a panic.
\<close>

lemma kernel_boots:
  assumes "platform_ok pf get_ist get_rsp areas" and "PAGE_SIZE_4KB \<le> end_symbol pf"
    and "a = start_frames (end_symbol pf) (metadata_bytes pf) areas" and "log = init_lines (end_symbol pf) (metadata_bytes pf) areas a"
  shows "\<exists>k region apic_base lvt. start_kernel pf (initial_kernel tss_new ist_base fl (spin_new pf)) = Some (Inr k) \<and>
    k_events k = map Privileged [Lgdt 56 (gdt_addr pf), LoadCs 16, LoadDs 8, LoadEs 8, LoadSs 8, LoadTr 40] @ map Log log @
      [Lidt 0xFFF (idt_addr pf), Sti] \<and>
    writes_of (k_hw k) = boot_output log region apic_base lvt \<and>
    provides (k_alloc k) (first_frame (end_symbol pf) (metadata_bytes pf) areas, a) \<and>
    are_interrupts_enabled (rflags (k_alloc k)) \<and> xapic (k_cpu k) \<noteq> None \<and>
    k_ioapic k = Some (io_enable pf 1 0 (io_enable pf 0 0 (io_new pf probe_ioapic)))"
  using start_kernel_boots [OF assms(1) refl assms(3,4), of tss_new ist_base fl] first_frame_pos [OF assms(2)]
  by (fastforce simp: boot_loads_def provides_def)

text \<open>
  C9: the interrupt table that is in place when the boot sequence is over, before the allocator's test and the final loop, has exactly seven present gates, one for each exception with a handler
  and one for the timer; each is an interrupt gate to its trampoline in the kernel's code segment, and the trampoline expects
  an error code exactly when the processor pushes one for that vector. The vector 15 that the APIC uses for spurious interrupts has no gate.
\<close>

theorem boot_interrupt_table:
  assumes "platform_ok pf get_ist get_rsp areas" and "start_kernel pf (initial_kernel tss_new ist_base fl (spin_new pf)) = Some (Inr k)"
  shows "(\<forall>v < 256. present (vectors (k_idt k) ! v) \<longleftrightarrow> v \<in> {0, 3, 6, 8, 13, 14, 32}) \<and>
    (\<forall>(v, err, hn) \<in> set installed_vectors. err = has_error_code v \<and> installed 16 (trampoline_addr pf v err hn) (vectors (k_idt k) ! v)) \<and>
    \<not> present (vectors (k_idt k) ! 15)"
proof -
  have k: "k_idt k = booted_idt pf 16" using start_kernel_boots [OF assms(1) refl refl refl, of tss_new ist_base fl] assms(2) by auto
  have sb: "sets_bit (pf_set_bit8 pf)" "sets_bits (pf_set_bits8 pf)" using assms(1) by (simp_all add: platform_ok_def)
  have v: "fst ` set installed_vectors = {0, 3, 6, 8, 13, 14, 32}" by (auto simp: installed_vectors_def)
  have "err = has_error_code v" if "(v, err, hn) \<in> set installed_vectors" for v err hn
    using that by (auto simp: installed_vectors_def has_error_code_def)
  then show ?thesis
    unfolding k using booted_vector_installed [OF sb] booted_present_iff [OF sb, unfolded v] by auto
qed

theorem boot_interrupt_table_witness:
  "\<exists>k. start_kernel sample_platform (initial_kernel (\<lambda>_. 0, \<lambda>_. 0) 0x109000 2 (spin_new sample_platform)) = Some (Inr k) \<and>
     present (vectors (k_idt k) ! 32) \<and> \<not> present (vectors (k_idt k) ! 15)"
proof -
  obtain k where k: "start_kernel sample_platform (initial_kernel (\<lambda>_. 0, \<lambda>_. 0) 0x109000 2 (spin_new sample_platform)) = Some (Inr k)"
    using start_kernel_boots [OF sample_platform_ok refl refl refl] by blast
  from boot_interrupt_table [OF sample_platform_ok k] k show ?thesis by auto
qed

section \<open>From the boot loader to the final loop\<close>

text \<open>
  The bytes the assembly writes: the page tables and the stack behind them, \<^verbatim>\<open>_bootinfo\<close>, and a return address on the
  loader's stack.
\<close>

definition boot_writes :: "boot_layout \<Rightarrow> boot_state \<Rightarrow> usize set" where
  "boot_writes L s = {unat (sym_p4_table L)..<unat (sym_stack_top L)} \<union> {unat (sym_bootinfo L)..<unat (sym_bootinfo L) + 8} \<union>
     {unat (esp s) - 4..<unat (esp s)}"

lemma start_keeps:
  assumes "layout_ok L" and "loader_ok L s" and "start L s = Inr t" and "x \<notin> boot_writes L s"
  shows "phys t x = phys s x"
proof -
  have "phys t = start_memory L s" using start_exec [OF assms(1,2)] assms(3) by auto
  then show ?thesis
    using assms(2,4) stack_top_address [OF assms(1)] start_memory_frame [OF assms(1), of s x] by (auto simp: boot_writes_def loader_ok_def not_le not_less)
qed

text \<open>
  \<open>info_block\<close>: the boot information at \<open>addr\<close> lies in the bytes up to \<open>hi\<close>, so that every memory with these bytes has it.
  \<open>handover\<close>: \<^verbatim>\<open>rust_main\<close> finds the memory the assembly leaves, and the pointer it saved in \<^verbatim>\<open>_bootinfo\<close>; \<open>mem'\<close> is the memory after
  the metadata array is written.
\<close>

definition info_block :: "usize \<Rightarrow> usize \<Rightarrow> memory \<Rightarrow> usize \<Rightarrow> usize \<Rightarrow> memory_area list \<Rightarrow> bool" where
  "info_block end_sym meta_size bytes addr hi areas \<longleftrightarrow>
     (\<forall>mem mem'. (\<forall>x\<in>{addr..<hi}. mem x = bytes x \<and> mem' x = bytes x) \<longrightarrow> boot_ok end_sym meta_size mem mem' addr areas)"

definition handover :: "boot_layout \<Rightarrow> boot_state \<Rightarrow> memory \<Rightarrow> ('t, 'io, 'l) platform \<Rightarrow> ('t, 'io, 'l) platform" where
  "handover L t mem' pf = pf\<lparr>boot_memory := phys t, boot_memory_after := mem', bootinfo := unat (read_u64 (phys t) (unat (sym_bootinfo L)))\<rparr>"

lemma handover_ok:
  assumes "layout_ok L" and "loader_ok L s" and "start L s = Inr t" and "platform_ok pf get_ist get_rsp areas"
    and "info_block (end_symbol pf) (metadata_bytes pf) (phys s) (unat (ebx s)) hi areas"
    and "{unat (ebx s)..<hi} \<inter> boot_writes L s = {}" and "\<forall>x\<in>{unat (ebx s)..<hi}. mem' x = phys s x"
  shows "platform_ok (handover L t mem' pf) get_ist get_rsp areas"
proof -
  have "phys t = start_memory L s" using start_exec [OF assms(1,2)] assms(3) by auto
  then have "unat (read_u64 (phys t) (unat (sym_bootinfo L))) = unat (ebx s)"
    by (simp add: unat_read_u64 start_memory_bootinfo [OF assms(1)])
  moreover have "\<forall>x\<in>{unat (ebx s)..<hi}. phys t x = phys s x \<and> mem' x = phys s x"
    using assms(6,7) start_keeps [OF assms(1-3)] by blast
  then have "boot_ok (end_symbol pf) (metadata_bytes pf) (phys t) mem' (unat (ebx s)) areas"
    using assms(5) unfolding info_block_def by blast
  ultimately show ?thesis using assms(4) by (simp add: platform_ok_def handover_def)
qed

lemma free_frames_behind:
  assumes "p \<in> set (free4 (start_frames end_sym meta_size areas)) \<union> \<Union> (block ` set (free2 (start_frames end_sym meta_size areas)))"
  shows "end_sym \<le> p * PAGE_SIZE_4KB"
proof -
  have "first_frame end_sym meta_size areas \<le> p" using assms unfolding start_frames_cover by simp
  moreover have "end_sym \<le> first_frame end_sym meta_size areas * PAGE_SIZE_4KB"
    by (simp add: first_frame_def final_end_def page_up_def page_consts)
  ultimately show ?thesis using mult_le_mono1 le_trans by blast
qed

text \<open>
  C1: from the loader's jump to \<^verbatim>\<open>start\<close> to the end of the boot sequence. If the boot information lies in memory that neither the assembly
  nor the metadata array overwrites, the assembly reaches \<^verbatim>\<open>rust_main\<close>, which finds it through \<^verbatim>\<open>_bootinfo\<close> and gets to the call of the
  allocator's test without a panic, if the serial port's transmitter always becomes empty again. It loads the descriptor tables and segments before it touches memory, and the
  IDT before it enables interrupts. All it writes to the devices is, in this order: the set-up of the serial port and the allocator's report, the masks of both PICs, and
  the registers that start the local APIC and its timer. Then both APICs are set up, interrupts are on, and the allocator serves its clients with the free
  frames of the memory map, among which are none of the page tables and the stack in use. What happens from there on is up to the test: when it returns, \<^verbatim>\<open>rust_main\<close> enters
  its final loop.
\<close>

theorem power_on_boots:
  assumes "layout_ok L" and "loader_ok L s" and "platform_ok pf get_ist get_rsp areas"
    and "info_block (end_symbol pf) (metadata_bytes pf) (phys s) (unat (ebx s)) hi areas"
    and "{unat (ebx s)..<hi} \<inter> boot_writes L s = {}" and "\<forall>x\<in>{unat (ebx s)..<hi}. mem' x = phys s x"
    and "PAGE_SIZE_4KB \<le> end_symbol pf" and "unat (sym_stack_top L) \<le> end_symbol pf"
    and "lo = first_frame (end_symbol pf) (metadata_bytes pf) areas" and "a = start_frames (end_symbol pf) (metadata_bytes pf) areas"
    and "log = init_lines (end_symbol pf) (metadata_bytes pf) areas a"
  shows "\<exists>t k region apic_base lvt. start L s = Inr t \<and>
    start_kernel (handover L t mem' pf) (initial_kernel tss_new ist_base fl (spin_new pf)) = Some (Inr k) \<and>
    rust_main (handover L t mem' pf) (initial_kernel tss_new ist_base fl (spin_new pf)) = test_all pf k \<and>
    k_events k = map Privileged [Lgdt 56 (gdt_addr pf), LoadCs 16, LoadDs 8, LoadEs 8, LoadSs 8, LoadTr 40] @ map Log log @
      [Lidt 0xFFF (idt_addr pf), Sti] \<and>
    writes_of (k_hw k) = boot_output log region apic_base lvt \<and>
    provides (k_alloc k) (lo, a) \<and> are_interrupts_enabled (rflags (k_alloc k)) \<and> xapic (k_cpu k) \<noteq> None \<and>
    k_ioapic k = Some (io_enable pf 1 0 (io_enable pf 0 0 (io_new pf probe_ioapic))) \<and>
    (\<forall>p \<in> set (free4 a) \<union> \<Union> (block ` set (free2 a)). unat (sym_stack_top L) \<le> p * PAGE_SIZE_4KB)"
proof -
  obtain t where t: "start L s = Inr t" using start_exec [OF assms(1,2)] by blast
  let ?pf = "handover L t mem' pf" and ?k0 = "initial_kernel tss_new ist_base fl (spin_new pf)"
  have e: "end_symbol ?pf = end_symbol pf" "metadata_bytes ?pf = metadata_bytes pf" "gdt_addr ?pf = gdt_addr pf" "idt_addr ?pf = idt_addr pf"
    "io_enable ?pf = io_enable pf" "io_new ?pf = io_new pf" "spin_new ?pf = spin_new pf" "test_all ?pf = test_all pf" by (simp_all add: handover_def)
  have f: "\<forall>p \<in> set (free4 a) \<union> \<Union> (block ` set (free2 a)). unat (sym_stack_top L) \<le> p * PAGE_SIZE_4KB"
    using free_frames_behind assms(8) unfolding assms(10) by (blast intro: le_trans)
  from kernel_boots [OF handover_ok [OF assms(1,2) t assms(3-6)], unfolded e, OF assms(7,10,11), of tss_new ist_base fl]
  obtain k region apic_base lvt where k: "start_kernel ?pf ?k0 = Some (Inr k)"
    "k_events k = map Privileged [Lgdt 56 (gdt_addr pf), LoadCs 16, LoadDs 8, LoadEs 8, LoadSs 8, LoadTr 40] @ map Log log @
      [Lidt 0xFFF (idt_addr pf), Sti]"
    "writes_of (k_hw k) = boot_output log region apic_base lvt" "provides (k_alloc k) (lo, a)" "are_interrupts_enabled (rflags (k_alloc k))"
    "xapic (k_cpu k) \<noteq> None" "k_ioapic k = Some (io_enable pf 1 0 (io_enable pf 0 0 (io_new pf probe_ioapic)))"
    unfolding assms(9) by blast
  moreover have "rust_main ?pf ?k0 = test_all pf k" unfolding rust_main_def k(1) by (simp add: e)
  ultimately show ?thesis
    using t f by (intro exI [of _ t] exI [of _ k] exI [of _ region] exI [of _ apic_base] exI [of _ lvt] conjI)
qed

lemma sample_info_block: "info_block 0x150000 40 sample_memory 0x10000 0x10038 [sample_area]"
proof -
  have "boot_ok 0x150000 40 mem mem' 0x10000 [sample_area]"
    if m: "\<forall>x\<in>{0x10000..<0x10038}. mem x = sample_memory x \<and> mem' x = sample_memory x" for mem mem'
  proof -
    have r: "read_le m' a n = read_le sample_memory a n" if "0x10000 \<le> a" "a + n \<le> 0x10038" "m' = mem \<or> m' = mem'" for m' a n
      using that m by (induction n arbitrary: a) auto
    have u: "read_u32 m' a = read_u32 sample_memory a" if "0x10000 \<le> a" "a + 4 \<le> 0x10038" "m' = mem \<or> m' = mem'" for m' a
      using r [OF that] by (simp add: read_u32_def)
    have w: "read_u64 m' a = read_u64 sample_memory a" if "0x10000 \<le> a" "a + 8 \<le> 0x10038" "m' = mem \<or> m' = mem'" for m' a
      using r [OF that] by (simp add: read_u64_def)
    have v: "read_u32 sample_memory 0x1000C = 40" "read_u32 sample_memory 0x10010 = 24" by (simp_all add: sample_reads)
    have "boot_info_ok mem 0x10000 [(0x10008, 6)]"
      using sample_tags by (simp add: boot_info_ok_def read_tag_def u v)
    moreover have "boot_map mem mem' 0x10008 [sample_area]"
      using sample_map by (simp add: boot_map_def memory_areas_def areas_of_def area_count_def read_mmap_tag_def read_area_def u w v)
    ultimately show ?thesis using sample_boot
      unfolding boot_ok_def by (intro conjI exI [of _ "[(0x10008, 6)]"] exI [of _ "0x10008"] exI [of _ 6])
        (simp_all add: MULTIBOOT2_TAG_TYPE_MMAP_def)
  qed
  then show ?thesis by (simp add: info_block_def)
qed

theorem power_on_boots_witness:
  "\<exists>t k. start sample_layout (sample_loader\<lparr>phys := sample_memory\<rparr>) = Inr t \<and>
     rust_main (handover sample_layout t sample_memory sample_platform) (initial_kernel (\<lambda>_. 0, \<lambda>_. 0) 0x109000 2 (spin_new sample_platform)) =
       Some (Inr k) \<and> last (k_events k) = Sti \<and> k_ioapic k = Some [(0, 0), (1, 0)]"
proof -
  let ?s = "sample_loader\<lparr>phys := sample_memory\<rparr>"
  have s: "layout_ok sample_layout" "loader_ok sample_layout ?s" "unat (ebx ?s) = 0x10000" "phys ?s = sample_memory"
    by (simp_all add: layout_ok_def loader_ok_def sample_layout_def sample_loader_def)
  have pf: "end_symbol sample_platform = 0x150000" "metadata_bytes sample_platform = 40"
    "io_enable sample_platform = (\<lambda>irq cpu io. io @ [(irq, cpu)])" "io_new sample_platform = (\<lambda>_. [])"
    "test_all sample_platform = (\<lambda>k. Some (Inr k))" by (simp_all add: sample_platform_def)
  have d: "{0x10000..<0x10038} \<inter> boot_writes sample_layout ?s = {}"
    by (auto simp: boot_writes_def sample_layout_def sample_loader_def)
  have "unat (sym_stack_top sample_layout) \<le> 0x150000" "PAGE_SIZE_4KB \<le> 0x150000" by (simp_all add: sample_layout_def page_consts)
  with power_on_boots [OF s(1,2) sample_platform_ok, unfolded s(3,4) pf, OF sample_info_block d _ _ _ refl refl refl,
      of sample_memory "(\<lambda>_. 0, \<lambda>_. 0)" "0x109000" 2]
  show ?thesis by fastforce
qed

end
